(* ===== verification/Prelude.thy ===== *)
theory Prelude
  imports Main "HOL-Library.Char_ord" "HOL-Library.List_Lexorder"
    "HOL-Library.Product_Lexorder"
begin

section \<open>Shared vocabulary of the development\<close>

text \<open>
  What the components share: Go strings as byte lists with the functions of Go's package
  \<open>strings\<close> that the bridge calls, Go's \<open>int64\<close> arithmetic with its wrap-around, decimal
  printing, and the theorem collections the component proofs draw on.

  A Go string is a sequence of bytes; \<open>string\<close> here is a list of 8-bit \<open>char\<close>s, so
  \<open>length\<close> counts what Go's \<open>len\<close> counts.  A Go function with an \<open>error\<close> result
  returns a sum, \<open>Inl\<close> the error and \<open>Inr\<close> the value.
\<close>

named_theorems go_strings \<open>characteristic facts of the string functions\<close>
named_theorems go_ints \<open>facts on 64-bit signed arithmetic\<close>

type_synonym millis = int
type_synonym nanos = int

subsection \<open>Prefixes, suffixes and searching\<close>

text \<open>\<open>strings.HasPrefix\<close>, \<open>strings.TrimPrefix\<close>, \<open>strings.CutSuffix\<close>.\<close>

fun has_prefix :: "string \<Rightarrow> string \<Rightarrow> bool" where
  "has_prefix s [] = True"
| "has_prefix [] (p # ps) = False"
| "has_prefix (c # cs) (p # ps) = (c = p \<and> has_prefix cs ps)"

definition trim_prefix :: "string \<Rightarrow> string \<Rightarrow> string" where
  "trim_prefix s p = (if has_prefix s p then drop (length p) s else s)"

definition has_suffix :: "string \<Rightarrow> string \<Rightarrow> bool" where
  "has_suffix s p = has_prefix (rev s) (rev p)"

definition cut_suffix :: "string \<Rightarrow> string \<Rightarrow> string option" where
  "cut_suffix s p = (if has_suffix s p then Some (take (length s - length p) s) else None)"

lemma has_prefix_iff [go_strings]: "has_prefix s p \<longleftrightarrow> (\<exists>t. s = p @ t)"
  by (induction s p rule: has_prefix.induct) auto

lemma has_prefix_append [simp]: "has_prefix (p @ t) p"
  by (auto simp: has_prefix_iff)

lemma trim_prefix_append [simp]: "trim_prefix (p @ t) p = t"
  by (simp add: trim_prefix_def)

lemma has_suffix_iff [go_strings]: "has_suffix s p \<longleftrightarrow> (\<exists>t. s = t @ p)"
proof -
  have "(\<exists>t. rev s = rev p @ t) \<longleftrightarrow> (\<exists>t. s = t @ p)"
    by (metis rev_append rev_rev_ident)
  then show ?thesis by (simp add: has_suffix_def has_prefix_iff)
qed

lemma cut_suffix_Some [go_strings]: "cut_suffix s p = Some t \<longleftrightarrow> s = t @ p"
  by (auto simp: cut_suffix_def has_suffix_iff)

lemma cut_suffix_append [simp]: "cut_suffix (t @ p) p = Some t"
  by (simp add: cut_suffix_Some)

lemma cut_suffix_None [go_strings]: "cut_suffix s p = None \<longleftrightarrow> (\<forall>t. s \<noteq> t @ p)"
  by (auto simp: cut_suffix_def has_suffix_iff)

text \<open>
  \<open>strings.IndexAny\<close> with a set of bytes: what stands before the first byte of the set, and
  what stands from it on.  \<open>strings.Cut\<close> and \<open>strings.Index\<close> with a one-byte separator are
  the case of one byte.
\<close>

definition before_any :: "string \<Rightarrow> string \<Rightarrow> string" where
  "before_any s cs = takeWhile (\<lambda>c. c \<notin> set cs) s"

definition from_any :: "string \<Rightarrow> string \<Rightarrow> string" where
  "from_any s cs = dropWhile (\<lambda>c. c \<notin> set cs) s"

lemma before_from_any: "before_any s cs @ from_any s cs = s"
  by (simp add: before_any_def from_any_def)

lemma before_any_none [go_strings]:
  "set s \<inter> set cs = {} \<Longrightarrow> before_any s cs = s \<and> from_any s cs = []"
  by (auto simp: before_any_def from_any_def takeWhile_eq_all_conv dropWhile_eq_Nil_conv)

text \<open>
  \<open>strings.Index(s, sep)\<close> with a separator of several bytes, as the parts before and after
  the first occurrence.
\<close>

fun split_at_sub :: "string \<Rightarrow> string \<Rightarrow> (string \<times> string) option" where
  "split_at_sub [] p = (if p = [] then Some ([], []) else None)"
| "split_at_sub (c # cs) p =
     (if has_prefix (c # cs) p then Some ([], drop (length p) (c # cs))
      else map_option (\<lambda>(a, b). (c # a, b)) (split_at_sub cs p))"

lemma split_at_sub_Some [go_strings]:
  "split_at_sub s p = Some (a, b) \<Longrightarrow> s = a @ p @ b"
  by (induction s p arbitrary: a b rule: split_at_sub.induct)
     (auto simp: has_prefix_iff split: if_splits)

subsection \<open>White space\<close>

text \<open>
  The UTF-8 encodings of the code points \<open>unicode.IsSpace\<close> accepts.  Each begins with a
  byte that no continuation byte equals, so scanning bytes for these encodings finds exactly
  the runes that decoding finds.
\<close>

definition space_runes :: "string list" where
  "space_runes =
     [[CHR 0x09], [CHR 0x0A], [CHR 0x0B], [CHR 0x0C], [CHR 0x0D], [CHR 0x20],
      [CHR 0xC2, CHR 0x85], [CHR 0xC2, CHR 0xA0], [CHR 0xE1, CHR 0x9A, CHR 0x80],
      [CHR 0xE2, CHR 0x80, CHR 0x80], [CHR 0xE2, CHR 0x80, CHR 0x81],
      [CHR 0xE2, CHR 0x80, CHR 0x82], [CHR 0xE2, CHR 0x80, CHR 0x83],
      [CHR 0xE2, CHR 0x80, CHR 0x84], [CHR 0xE2, CHR 0x80, CHR 0x85],
      [CHR 0xE2, CHR 0x80, CHR 0x86], [CHR 0xE2, CHR 0x80, CHR 0x87],
      [CHR 0xE2, CHR 0x80, CHR 0x88], [CHR 0xE2, CHR 0x80, CHR 0x89],
      [CHR 0xE2, CHR 0x80, CHR 0x8A], [CHR 0xE2, CHR 0x80, CHR 0xA8],
      [CHR 0xE2, CHR 0x80, CHR 0xA9], [CHR 0xE2, CHR 0x80, CHR 0xAF],
      [CHR 0xE2, CHR 0x81, CHR 0x9F], [CHR 0xE3, CHR 0x80, CHR 0x80]]"

text \<open>The bytes the encodings use; a string without them holds no white space.\<close>

definition space_bytes :: "char set" where
  "space_bytes = (\<Union>w \<in> set space_runes. set w)"

definition leading_space :: "string \<Rightarrow> nat" where
  "leading_space s = (case find (has_prefix s) space_runes of None \<Rightarrow> 0 | Some w \<Rightarrow> length w)"

definition trailing_space :: "string \<Rightarrow> nat" where
  "trailing_space s =
     (case find (has_suffix s) space_runes of None \<Rightarrow> 0 | Some w \<Rightarrow> length w)"

function trim_left :: "string \<Rightarrow> string" where
  "trim_left s = (let n = leading_space s in
     if n = 0 \<or> s = [] then s else trim_left (drop n s))"
  by pat_completeness auto
termination
  by (relation "measure length") auto

function trim_right :: "string \<Rightarrow> string" where
  "trim_right s = (let n = trailing_space s in
     if n = 0 \<or> s = [] then s else trim_right (take (length s - n) s))"
  by pat_completeness auto
termination
  by (relation "measure length") auto

declare trim_left.simps [simp del] and trim_right.simps [simp del]

definition trim_space :: "string \<Rightarrow> string" where
  "trim_space s = trim_right (trim_left s)"

lemma space_runes_nonempty: "w \<in> set space_runes \<Longrightarrow> w \<noteq> [] \<and> set w \<subseteq> space_bytes"
  unfolding space_bytes_def by (auto simp: space_runes_def)

lemma leading_space_none:
  assumes "set (take 1 s) \<inter> space_bytes = {}"
  shows "leading_space s = 0"
proof -
  have "\<not> has_prefix s w" if "w \<in> set space_runes" for w
  proof
    assume "has_prefix s w"
    then obtain t where "s = w @ t" by (auto simp: has_prefix_iff)
    with space_runes_nonempty [OF that] assms show False
      by (cases w) auto
  qed
  then have "find (has_prefix s) space_runes = None"
    by (simp add: find_None_iff)
  then show ?thesis by (simp add: leading_space_def)
qed

lemma trailing_space_none:
  assumes "s = [] \<or> last s \<notin> space_bytes"
  shows "trailing_space s = 0"
proof -
  have "\<not> has_suffix s w" if "w \<in> set space_runes" for w
  proof
    assume "has_suffix s w"
    then obtain t where s: "s = t @ w" by (auto simp: has_suffix_iff)
    from space_runes_nonempty [OF that] have "w \<noteq> []" "last w \<in> space_bytes" by auto
    with s assms show False by auto
  qed
  then have "find (has_suffix s) space_runes = None"
    by (simp add: find_None_iff)
  then show ?thesis by (simp add: trailing_space_def)
qed

lemma trim_space_id:
  assumes "s = [] \<or> hd s \<notin> space_bytes" and "s = [] \<or> last s \<notin> space_bytes"
  shows "trim_space s = s"
proof -
  have "leading_space s = 0"
    using assms(1) by (cases s) (auto intro: leading_space_none)
  moreover have "trailing_space s = 0"
    using assms(2) by (rule trailing_space_none)
  ultimately show ?thesis
    by (simp add: trim_space_def trim_left.simps [of s] trim_right.simps [of s])
qed

lemma trim_space_clean [go_strings]:
  assumes "set s \<inter> space_bytes = {}"
  shows "trim_space s = s"
proof (rule trim_space_id)
  show "s = [] \<or> hd s \<notin> space_bytes"
    using assms hd_in_set [of s] by blast
  show "s = [] \<or> last s \<notin> space_bytes"
    using assms last_in_set [of s] by blast
qed

text \<open>
  \<open>strings.Fields\<close>: the maximal runs without white space.  The accumulator holds the bytes
  of the current field in reverse; \<open>skip\<close> counts the bytes left of the separator being skipped.
\<close>

definition push_field :: "string \<Rightarrow> string list \<Rightarrow> string list" where
  "push_field acc fs = (if acc = [] then fs else rev acc # fs)"

fun fields_from :: "nat \<Rightarrow> string \<Rightarrow> string \<Rightarrow> string list" where
  "fields_from skip acc [] = push_field acc []"
| "fields_from (Suc k) acc (c # cs) = fields_from k acc cs"
| "fields_from 0 acc (c # cs) =
     (case leading_space (c # cs) of
        0 \<Rightarrow> fields_from 0 (c # acc) cs
      | Suc k \<Rightarrow> push_field acc (fields_from k [] cs))"

definition fields_of :: "string \<Rightarrow> string list" where
  "fields_of s = fields_from 0 [] s"

text \<open>
  \<open>strings.Split(s, sep)\<close> with a one-byte separator, \<open>strings.Join\<close>, and
  \<open>strings.ReplaceAll\<close> with a non-empty pattern.
\<close>

fun split_on :: "char \<Rightarrow> string \<Rightarrow> string list" where
  "split_on d [] = [[]]"
| "split_on d (c # cs) =
     (if c = d then [] # split_on d cs
      else (case split_on d cs of [] \<Rightarrow> [[c]] | f # fs \<Rightarrow> (c # f) # fs))"

fun join :: "string \<Rightarrow> string list \<Rightarrow> string" where
  "join sep [] = []"
| "join sep [f] = f"
| "join sep (f # g # fs) = f @ sep @ join sep (g # fs)"

fun replace_from :: "nat \<Rightarrow> string \<Rightarrow> string \<Rightarrow> string \<Rightarrow> string" where
  "replace_from skip [] old new = []"
| "replace_from (Suc k) (c # cs) old new = replace_from k cs old new"
| "replace_from 0 (c # cs) old new =
     (if old \<noteq> [] \<and> has_prefix (c # cs) old
      then new @ replace_from (length old - 1) cs old new
      else c # replace_from 0 cs old new)"

definition replace_all :: "string \<Rightarrow> string \<Rightarrow> string \<Rightarrow> string" where
  "replace_all s old new = replace_from 0 s old new"

lemma split_on_nonempty [simp]: "split_on d s \<noteq> []"
  by (induction s) (auto split: list.splits)

text \<open>Words without white space, joined by spaces, are the fields of what they make.\<close>

definition word :: "string \<Rightarrow> bool" where
  "word w = (w \<noteq> [] \<and> set w \<inter> space_bytes = {})"

lemma leading_space_word: "c \<notin> space_bytes \<Longrightarrow> leading_space (c # cs) = 0"
  by (rule leading_space_none) simp

lemma fields_from_word:
  "set w \<inter> space_bytes = {} \<Longrightarrow> fields_from 0 acc (w @ s) = fields_from 0 (rev w @ acc) s"
  by (induction w arbitrary: acc) (auto simp: leading_space_word)

lemma leading_space_blank: "leading_space (CHR '' '' # s) = 1"
  by (simp add: leading_space_def space_runes_def)

lemma fields_join: "list_all word ws \<Longrightarrow> fields_of (join '' '' ws) = ws"
proof (induction ws)
  case (Cons w ws)
  show ?case
  proof (cases ws)
    case Nil
    then show ?thesis
      using Cons.prems fields_from_word [of w "[]" "[]"] by (simp add: fields_of_def word_def push_field_def)
  next
    case (Cons v vs)
    then show ?thesis
      using Cons.IH Cons.prems fields_from_word [of w "[]" "CHR '' '' # join '' '' (v # vs)"]
      by (simp add: fields_of_def word_def push_field_def leading_space_blank)
  qed
qed (simp add: fields_of_def push_field_def)

subsection \<open>Letter case\<close>

text \<open>ASCII case folding, which is what \<open>strings.EqualFold\<close> amounts to on the words compared
  here: none of them has a letter with a non-ASCII fold of the same encoded length.\<close>

definition ascii_lower :: "char \<Rightarrow> char" where
  "ascii_lower c = (let n = of_char c :: nat in
     if 65 \<le> n \<and> n \<le> 90 then char_of (n + 32) else c)"

definition ascii_upper :: "char \<Rightarrow> char" where
  "ascii_upper c = (let n = of_char c :: nat in
     if 97 \<le> n \<and> n \<le> 122 then char_of (n - 32) else c)"

definition equal_fold :: "string \<Rightarrow> string \<Rightarrow> bool" where
  "equal_fold a b = (map ascii_lower a = map ascii_lower b)"

lemma equal_fold_refl [simp]: "equal_fold a a"
  by (simp add: equal_fold_def)

lemma equal_fold_length: "equal_fold a b \<Longrightarrow> length a = length b"
  unfolding equal_fold_def by (metis length_map)

subsection \<open>Digits and decimal printing\<close>

definition is_digit :: "char \<Rightarrow> bool" where
  "is_digit c = (let n = of_char c :: nat in 48 \<le> n \<and> n \<le> 57)"

definition is_alnum :: "char \<Rightarrow> bool" where
  "is_alnum c = (let n = of_char c :: nat in
     48 \<le> n \<and> n \<le> 57 \<or> 65 \<le> n \<and> n \<le> 90 \<or> 97 \<le> n \<and> n \<le> 122)"

definition digit_char :: "nat \<Rightarrow> char" where
  "digit_char d = char_of (48 + d)"

text \<open>\<open>%d\<close> of a natural number, and \<open>%0wd\<close>, which pads it with zeros to width \<open>w\<close>.\<close>

fun dec :: "nat \<Rightarrow> string" where
  "dec n = (if n < 10 then [digit_char n] else dec (n div 10) @ [digit_char (n mod 10)])"

declare dec.simps [simp del]

definition dec_pad :: "nat \<Rightarrow> nat \<Rightarrow> string" where
  "dec_pad w n = replicate (w - length (dec n)) (CHR ''0'') @ dec n"

text \<open>\<open>%d\<close> of a signed integer.\<close>

definition show_int :: "int \<Rightarrow> string" where
  "show_int x = (if x < 0 then CHR ''-'' # dec (nat (- x)) else dec (nat x))"

lemma digit_char_is_digit: "d < 10 \<Longrightarrow> is_digit (digit_char d)"
  by (simp add: digit_char_def is_digit_def)

lemma dec_digits [go_strings]: "list_all is_digit (dec n) \<and> dec n \<noteq> []"
  by (induction n rule: dec.induct) (subst dec.simps; simp add: digit_char_is_digit)+

text \<open>\<open>strconv.Atoi\<close> on 64 bits: an optional sign, then decimal digits.\<close>

definition digits_value :: "string \<Rightarrow> int" where
  "digits_value s = foldl (\<lambda>n c. n * 10 + (int (of_char c) - 48)) 0 s"

definition atoi :: "string \<Rightarrow> int option" where
  "atoi s =
     (let neg = has_prefix s ''-''; d = (if neg \<or> has_prefix s ''+'' then tl s else s) in
      if d = [] \<or> \<not> list_all is_digit d then None
      else let v = (if neg then - digits_value d else digits_value d) in
        if v < - (2 ^ 63) \<or> v \<ge> 2 ^ 63 then None else Some v)"

lemma digits_value_dec [simp]: "digits_value (dec n) = int n"
proof (induction n rule: dec.induct)
  case (1 n)
  have "int (of_char (digit_char d)) = 48 + int d" if "d < 10" for d
    using that by (simp add: digit_char_def)
  moreover have "(10::int) * (int n div 10) + int n mod 10 = int n" by simp
  ultimately show ?case
    using 1 by (cases "n < 10") (simp_all add: dec.simps [of n] digits_value_def zmod_int zdiv_int mult.commute)
qed

lemma dec_head: "\<exists>c cs. dec n = c # cs \<and> is_digit c"
  using dec_digits [of n] by (cases "dec n") auto

lemma atoi_dec [simp]: "int n < 2 ^ 63 \<Longrightarrow> atoi (dec n) = Some (int n)"
proof -
  assume n: "int n < 2 ^ 63"
  obtain c cs where d: "dec n = c # cs" "is_digit c" using dec_head by blast
  then have "\<not> has_prefix (dec n) ''-''" "\<not> has_prefix (dec n) ''+''" by (auto simp: is_digit_def)
  then show ?thesis using n dec_digits [of n] by (simp add: atoi_def Let_def)
qed

subsection \<open>64-bit signed integers\<close>

text \<open>The value a Go \<open>int64\<close> holds after an operation whose exact result is \<open>x\<close>.\<close>

definition i64 :: "int \<Rightarrow> int" where
  "i64 x = (x + 2 ^ 63) mod 2 ^ 64 - 2 ^ 63"

lemma i64_id [go_ints]: "- (2 ^ 63) \<le> x \<Longrightarrow> x < 2 ^ 63 \<Longrightarrow> i64 x = x"
  by (simp add: i64_def)

lemma i64_range [go_ints]: "- (2 ^ 63) \<le> i64 x \<and> i64 x < 2 ^ 63"
proof -
  have "0 \<le> (x + 2 ^ 63) mod 2 ^ 64" "(x + 2 ^ 63) mod 2 ^ 64 < (2 ^ 64 :: int)"
    by (simp_all add: pos_mod_bound)
  then show ?thesis unfolding i64_def by simp
qed

subsection \<open>Association of keys and values\<close>

lemma filter_id_iff: "(\<forall>x \<in> set xs. P x) \<Longrightarrow> filter P xs = xs"
  by (simp add: filter_id_conv)

lemma distinct_map_filterI: "distinct (map f xs) \<Longrightarrow> distinct (map f (filter P xs))"
  by (rule distinct_map_filter)

lemma distinct_map_inj:
  "distinct (map f xs) \<Longrightarrow> x \<in> set xs \<Longrightarrow> y \<in> set xs \<Longrightarrow> f x = f y \<Longrightarrow> x = y"
  by (metis distinct_map inj_onD)

subsection \<open>What a database answers\<close>

text \<open>A call of the database succeeds, fails, or reports a failure (a timeout, say) of a
  statement that took effect.\<close>

datatype db_outcome = DbOk | DbErr | DbErrCommitted

end
