(* ===== verification/Inbound_Store.thy ===== *)
theory Inbound_Store
  imports Prelude
begin

section \<open>The outbox of inbound texts (\<open>pkg/database/inbound.go\<close>)\<close>

text \<open>
  The table \<open>sip_inbound_message\<close>: a text accepted from SIP waits here until Matrix has it.
  A row is a message with the ID the table gave it; the queries are functions on the table,
  each statement being atomic.  The locale \<open>outbox\<close> is the interface \<open>inbound.Store\<close> the
  queue is written against; it is interpreted on the queries at the end.
\<close>

record inbound_message =
  msg_id :: int
  uid :: string
  login_id :: string
  portal_id :: string
  sender :: string
  recipient :: string
  body :: string
  msg_line :: string
  received_at :: nanos

record inbound_table =
  rows :: "inbound_message list"
  next_id :: int

definition empty_table :: inbound_table where
  "empty_table = \<lparr>rows = [], next_id = 1\<rparr>"

subsection \<open>The queries\<close>

text \<open>\<open>received_at\<close> is stored as \<open>UnixMilli\<close>, which drops what is below a millisecond.\<close>

definition to_millis :: "nanos \<Rightarrow> millis" where
  "to_millis t = t div 1000000"

definition stored_row :: "int \<Rightarrow> inbound_message \<Rightarrow> inbound_message" where
  "stored_row i m = m\<lparr>msg_id := i, received_at := to_millis (received_at m) * 1000000\<rparr>"

definition inb_insert :: "inbound_table \<Rightarrow> inbound_message \<Rightarrow> inbound_table \<times> bool" where
  "inb_insert t m =
     (if uid m \<in> set (map uid (rows t)) then (t, False)
      else (\<lparr>rows = rows t @ [stored_row (next_id t) m], next_id = next_id t + 1\<rparr>, True))"

definition same_portal :: "inbound_message \<Rightarrow> inbound_message \<Rightarrow> bool" where
  "same_portal a b = (login_id a = login_id b \<and> portal_id a = portal_id b)"

definition received_before :: "inbound_message \<Rightarrow> inbound_message \<Rightarrow> bool" where
  "received_before a b =
     (received_at a < received_at b \<or> received_at a = received_at b \<and> msg_id a < msg_id b)"

definition is_head :: "inbound_message list \<Rightarrow> inbound_message \<Rightarrow> bool" where
  "is_head rs m = list_all (\<lambda>a. \<not> (same_portal a m \<and> received_before a m)) rs"

definition inb_heads :: "inbound_table \<Rightarrow> nat \<Rightarrow> inbound_message list" where
  "inb_heads t limit =
     take limit (sort_key (\<lambda>m. (received_at m, msg_id m)) (filter (is_head (rows t)) (rows t)))"

definition inb_delete :: "inbound_table \<Rightarrow> int \<Rightarrow> inbound_table" where
  "inb_delete t i = t\<lparr>rows := filter (\<lambda>m. msg_id m \<noteq> i) (rows t)\<rparr>"

definition inb_count :: "inbound_table \<Rightarrow> nat" where
  "inb_count t = length (rows t)"

subsection \<open>The invariant of the table\<close>

definition table_ok :: "inbound_table \<Rightarrow> bool" where
  "table_ok t =
     (distinct (map uid (rows t)) \<and> distinct (map msg_id (rows t))
      \<and> list_all (\<lambda>m. msg_id m < next_id t) (rows t))"

lemma stored_row_simps [simp]:
  "uid (stored_row i m) = uid m" "msg_id (stored_row i m) = i"
  "login_id (stored_row i m) = login_id m" "portal_id (stored_row i m) = portal_id m"
  "sender (stored_row i m) = sender m" "recipient (stored_row i m) = recipient m"
  "body (stored_row i m) = body m" "msg_line (stored_row i m) = msg_line m"
  by (simp_all add: stored_row_def)

lemma table_ok_empty [simp]: "table_ok empty_table"
  by (simp add: table_ok_def empty_table_def)

lemma table_ok_insert [simp]: "table_ok t \<Longrightarrow> table_ok (fst (inb_insert t m))"
  by (auto simp: table_ok_def inb_insert_def list_all_iff)

lemma table_ok_delete [simp]: "table_ok t \<Longrightarrow> table_ok (inb_delete t i)"
  by (auto simp: table_ok_def inb_delete_def list_all_iff distinct_map_filter)

lemma set_insert_rows:
  "set (rows (fst (inb_insert t m))) =
     (if uid m \<in> uid ` set (rows t) then set (rows t)
      else insert (stored_row (next_id t) m) (set (rows t)))"
  by (auto simp: inb_insert_def)

lemma set_delete_rows [simp]:
  "set (rows (inb_delete t i)) = {m \<in> set (rows t). msg_id m \<noteq> i}"
  by (auto simp: inb_delete_def)

lemma next_id_delete [simp]: "next_id (inb_delete t i) = next_id t"
  by (simp add: inb_delete_def)

lemma next_id_insert: "next_id t \<le> next_id (fst (inb_insert t m))"
  by (simp add: inb_insert_def)

lemma insert_uids: "uid ` set (rows (fst (inb_insert t m))) = insert (uid m) (uid ` set (rows t))"
  by (auto simp: set_insert_rows)

lemma table_ok_msg_id:
  "table_ok t \<Longrightarrow> a \<in> set (rows t) \<Longrightarrow> b \<in> set (rows t) \<Longrightarrow> msg_id a = msg_id b \<Longrightarrow> a = b"
  by (auto simp: table_ok_def intro: distinct_map_inj)

lemma table_ok_below: "table_ok t \<Longrightarrow> m \<in> set (rows t) \<Longrightarrow> msg_id m < next_id t"
  by (simp add: table_ok_def list_all_iff)

subsection \<open>Heads\<close>

lemma heads_subset: "m \<in> set (inb_heads t limit) \<Longrightarrow> m \<in> set (rows t) \<and> is_head (rows t) m"
  unfolding inb_heads_def by (auto dest: in_set_takeD)

lemma heads_earliest:
  "m \<in> set (inb_heads t limit) \<Longrightarrow> a \<in> set (rows t) \<Longrightarrow> same_portal a m \<Longrightarrow> \<not> received_before a m"
  using heads_subset [of m t limit] by (auto simp: is_head_def list_all_iff)

lemma received_before_total:
  "a \<noteq> b \<Longrightarrow> msg_id a \<noteq> msg_id b \<Longrightarrow> received_before a b \<or> received_before b a"
  by (auto simp: received_before_def)

lemma received_before_key:
  "received_before a b \<longleftrightarrow> (received_at a, msg_id a) < (received_at b, msg_id b)"
  by (auto simp: received_before_def)

lemma heads_one_per_portal:
  assumes "table_ok t" "a \<in> set (inb_heads t limit)" "b \<in> set (inb_heads t limit)" "same_portal a b"
  shows "a = b"
proof (rule ccontr)
  assume ne: "a \<noteq> b"
  have ab: "a \<in> set (rows t)" "b \<in> set (rows t)" using assms(2,3) heads_subset by blast+
  then have "msg_id a \<noteq> msg_id b" using assms(1) ne table_ok_msg_id by blast
  then have "received_before a b \<or> received_before b a" using ne received_before_total by blast
  moreover have "same_portal b a" using assms(4) by (simp add: same_portal_def)
  ultimately show False using heads_earliest assms ab by blast
qed

text \<open>Some head of every portal that has a row: the earliest one.\<close>

lemma portal_has_head:
  assumes ok: "table_ok t" and m: "m \<in> set (rows t)"
  shows "\<exists>h \<in> set (rows t). same_portal h m \<and> is_head (rows t) h"
proof -
  let ?S = "{r \<in> set (rows t). same_portal r m}"
  let ?k = "\<lambda>r. (received_at r, msg_id r)"
  have S: "?k ` ?S \<noteq> {}" "finite (?k ` ?S)" using m by (auto simp: same_portal_def)
  obtain h where h: "h \<in> ?S" "?k h = Min (?k ` ?S)"
    using Min_in [OF S(2,1)] by auto
  have least: "?k h \<le> ?k r" if "r \<in> ?S" for r
    unfolding h(2) using S(2) that by (intro Min_le) auto
  have "is_head (rows t) h"
    unfolding is_head_def list_all_iff
  proof (intro ballI notI)
    fix a assume "a \<in> set (rows t)" "same_portal a h \<and> received_before a h"
    then have "a \<in> ?S" "?k a < ?k h"
      using h(1) by (auto simp: same_portal_def received_before_key)
    then show False using leD [OF least] by blast
  qed
  with h(1) show ?thesis by auto
qed

lemma heads_complete:
  assumes "table_ok t" "m \<in> set (rows t)" "length (rows t) \<le> limit"
  shows "\<exists>h \<in> set (inb_heads t limit). same_portal h m"
proof -
  obtain h where "h \<in> set (rows t)" "same_portal h m" "is_head (rows t) h"
    using portal_has_head [OF assms(1,2)] by blast
  moreover have "length (filter (is_head (rows t)) (rows t)) \<le> limit"
    using assms(3) length_filter_le [of "is_head (rows t)" "rows t"] by linarith
  ultimately show ?thesis by (auto simp: inb_heads_def)
qed

subsection \<open>The interface the queue relies on\<close>

text \<open>
  \<open>inbound.Store\<close>: \<open>waiting\<close> is what a store holds, by the texts' UIDs.  An insert adds the
  UID and removes none, a delete by ID removes that row and no other, and a head is a
  waiting row that no other waiting row of its portal precedes.
\<close>

locale outbox =
  fixes ok :: "'t \<Rightarrow> bool"
    and insert_row :: "'t \<Rightarrow> inbound_message \<Rightarrow> 't \<times> bool"
    and head_rows :: "'t \<Rightarrow> nat \<Rightarrow> inbound_message list"
    and delete_row :: "'t \<Rightarrow> int \<Rightarrow> 't"
    and waiting :: "'t \<Rightarrow> inbound_message set"
    and horizon :: "'t \<Rightarrow> int"
  assumes ok_insert: "ok t \<Longrightarrow> ok (fst (insert_row t m))"
    and ok_delete: "ok t \<Longrightarrow> ok (delete_row t i)"
    and waiting_insert: "ok t \<Longrightarrow> uid ` waiting (fst (insert_row t m)) = insert (uid m) (uid ` waiting t)"
    and insert_keeps: "ok t \<Longrightarrow> waiting t \<subseteq> waiting (fst (insert_row t m))"
    and insert_fresh: "ok t \<Longrightarrow> a \<in> waiting (fst (insert_row t m)) \<Longrightarrow> a \<notin> waiting t \<Longrightarrow> msg_id a = horizon t"
    and waiting_delete: "ok t \<Longrightarrow> waiting (delete_row t i) = {m \<in> waiting t. msg_id m \<noteq> i}"
    and id_determines: "ok t \<Longrightarrow> a \<in> waiting t \<Longrightarrow> b \<in> waiting t \<Longrightarrow> msg_id a = msg_id b \<Longrightarrow> a = b"
    and head_waiting: "ok t \<Longrightarrow> m \<in> set (head_rows t n) \<Longrightarrow> m \<in> waiting t"
    and head_first: "ok t \<Longrightarrow> m \<in> set (head_rows t n) \<Longrightarrow> a \<in> waiting t \<Longrightarrow> same_portal a m
        \<Longrightarrow> \<not> received_before a m"
    and horizon_insert: "ok t \<Longrightarrow> horizon t \<le> horizon (fst (insert_row t m))"
    and horizon_delete: "ok t \<Longrightarrow> horizon (delete_row t i) = horizon t"
begin

text \<open>No waiting text that precedes \<open>b\<close> in its portal had an ID below \<open>h\<close>.\<close>

definition none_before :: "'t \<Rightarrow> int \<Rightarrow> inbound_message \<Rightarrow> bool" where
  "none_before t h b =
     (h \<le> horizon t \<and> (\<forall>a \<in> waiting t. same_portal a b \<longrightarrow> received_before a b \<longrightarrow> h \<le> msg_id a))"

lemma head_none_before: "ok t \<Longrightarrow> m \<in> set (head_rows t n) \<Longrightarrow> none_before t (horizon t) m"
  using head_first by (auto simp: none_before_def)

lemma none_before_insert:
  assumes "ok t" "none_before t h b" shows "none_before (fst (insert_row t m)) h b"
  using assms insert_fresh [OF assms(1)] horizon_insert [OF assms(1), of m]
  unfolding none_before_def by (metis order.trans order_refl)

lemma none_before_delete: "ok t \<Longrightarrow> none_before t h b \<Longrightarrow> none_before (delete_row t i) h b"
  by (auto simp: none_before_def waiting_delete horizon_delete)

lemma delete_keeps_others:
  assumes "ok t" "a \<in> waiting t" "b \<in> waiting t" "a \<noteq> b"
  shows "a \<in> waiting (delete_row t (msg_id b))"
  using assms id_determines by (auto simp: waiting_delete)

end

interpretation inb: outbox table_ok inb_insert inb_heads inb_delete "\<lambda>t. set (rows t)" next_id
proof unfold_locales
  fix t :: inbound_table and m a b :: inbound_message and i :: int and n :: nat
  assume t: "table_ok t"
  show "table_ok (fst (inb_insert t m))" "table_ok (inb_delete t i)" using t by simp_all
  show "uid ` set (rows (fst (inb_insert t m))) = insert (uid m) (uid ` set (rows t))"
    by (rule insert_uids)
  show "set (rows t) \<subseteq> set (rows (fst (inb_insert t m)))" by (auto simp: set_insert_rows)
  show "msg_id a = next_id t" if "a \<in> set (rows (fst (inb_insert t m)))" "a \<notin> set (rows t)"
    using that by (auto simp: set_insert_rows split: if_splits)
  show "set (rows (inb_delete t i)) = {m \<in> set (rows t). msg_id m \<noteq> i}" by simp
  show "a = b" if "a \<in> set (rows t)" "b \<in> set (rows t)" "msg_id a = msg_id b"
    using t that table_ok_msg_id by blast
  show "m \<in> set (rows t)" if "m \<in> set (inb_heads t n)" using that heads_subset by blast
  show "\<not> received_before a m" if "m \<in> set (inb_heads t n)" "a \<in> set (rows t)" "same_portal a m"
    using that heads_earliest by blast
  show "next_id t \<le> next_id (fst (inb_insert t m))" by (rule next_id_insert)
  show "next_id (inb_delete t i) = next_id t" by simp
qed

subsection \<open>Properties\<close>

text \<open>\<open>Heads\<close> returns, in order of receipt, at most \<open>limit\<close> rows, each the earliest of
  its portal and no two of one portal; with a limit no smaller than the table, every portal
  that has a row is represented.\<close>

theorem heads_spec:
  assumes "table_ok t"
  shows "sorted (map (\<lambda>m. (received_at m, msg_id m)) (inb_heads t limit))
      \<and> length (inb_heads t limit) \<le> limit
      \<and> (\<forall>m \<in> set (inb_heads t limit). m \<in> set (rows t)
            \<and> (\<forall>a \<in> set (rows t). same_portal a m \<longrightarrow> \<not> received_before a m))
      \<and> (\<forall>a \<in> set (inb_heads t limit). \<forall>b \<in> set (inb_heads t limit). same_portal a b \<longrightarrow> a = b)
      \<and> (length (rows t) \<le> limit \<longrightarrow>
            (\<forall>m \<in> set (rows t). \<exists>h \<in> set (inb_heads t limit). same_portal h m))"
proof (intro conjI ballI impI)
  show "sorted (map (\<lambda>m. (received_at m, msg_id m)) (inb_heads t limit))"
    by (simp add: inb_heads_def take_map [symmetric] sorted_wrt_take)
  show "length (inb_heads t limit) \<le> limit" by (simp add: inb_heads_def)
  show "m \<in> set (rows t)" if "m \<in> set (inb_heads t limit)" for m
    using that by (rule inb.head_waiting [OF assms])
  show "\<not> received_before a m"
    if "m \<in> set (inb_heads t limit)" "a \<in> set (rows t)" "same_portal a m" for a m
    using that by (rule inb.head_first [OF assms])
  show "a = b" if "a \<in> set (inb_heads t limit)" "b \<in> set (inb_heads t limit)" "same_portal a b" for a b
    using assms that by (rule heads_one_per_portal)
  show "\<exists>h \<in> set (inb_heads t limit). same_portal h m"
    if "length (rows t) \<le> limit" "m \<in> set (rows t)" for m
    using assms that(2,1) by (rule heads_complete)
qed

definition sample_message :: "string \<Rightarrow> string \<Rightarrow> nanos \<Rightarrow> inbound_message" where
  "sample_message u p t =
     \<lparr>msg_id = 0, uid = u, login_id = ''@alice:example.com'', portal_id = p,
      sender = ''+15551234567'', recipient = [], body = ''hello'', msg_line = [],
      received_at = t\<rparr>"

theorem heads_spec_witness:
  "let t = fst (inb_insert (fst (inb_insert empty_table (sample_message ''a'' ''1'' 5000000)))
             (sample_message ''b'' ''1'' 2000000))
   in map uid (inb_heads t 500) = [''b''] \<and> length (inb_heads t 500) \<le> 500"
proof -
  let ?t = "fst (inb_insert (fst (inb_insert empty_table (sample_message ''a'' ''1'' 5000000)))
             (sample_message ''b'' ''1'' 2000000))"
  have "table_ok ?t" by simp
  from heads_spec [OF this] have "length (inb_heads ?t 500) \<le> 500" by blast
  moreover have "map uid (inb_heads ?t 500) = [''b'']" by code_simp
  ultimately show ?thesis by (simp only: Let_def)
qed

end
