(* ===== verification/Spool.thy ===== *)
theory Spool
  imports Inbound_Store
begin

section \<open>The spool directory (\<open>pkg/inbound/spool.go\<close>)\<close>

text \<open>
  A directory of accepted texts the database could not take, one file per text.  The model is
  the list of directory entries with their contents; a content is the parsed message or
  unreadable, since \<open>encoding/json\<close> reads back what it wrote (the ID is not part of the
  format).  Every system call of \<open>Write\<close> may fail: \<open>write_fault\<close> says which one did.  The
  last part shows that the file names sort in the order of receipt.
\<close>

datatype spool_file = Parsed inbound_message | Unreadable

record spool_dir =
  files :: "(string \<times> spool_file) list"
  spool_seq :: nat

definition empty_spool :: spool_dir where
  "empty_spool = \<lparr>files = [], spool_seq = 0\<rparr>"

definition spool_ext :: string where
  "spool_ext = ''.json''"

definition bad_ext :: string where
  "bad_ext = ''.bad''"

definition tmp_prefix :: string where
  "tmp_prefix = ''.tmp-''"

datatype write_fault =
  NoFault | MarshalFault | CreateFault | WriteFault | SyncFault | CloseFault | RenameFault | DirSyncFault

subsection \<open>Operations\<close>

definition dec_pad_int :: "nat \<Rightarrow> int \<Rightarrow> string" where
  "dec_pad_int w x =
     (if x < 0 then CHR ''-'' # dec_pad (w - 1) (nat (- x)) else dec_pad w (nat x))"

definition spool_name :: "inbound_message \<Rightarrow> nat \<Rightarrow> string" where
  "spool_name m seq =
     dec_pad_int 20 (received_at m) @ ''-'' @ dec_pad 6 (seq mod 1000000) @ ''-'' @ uid m @ spool_ext"

definition put_file :: "(string \<times> spool_file) list \<Rightarrow> string \<Rightarrow> spool_file \<Rightarrow> (string \<times> spool_file) list" where
  "put_file fs name f = filter (\<lambda>(n, _). n \<noteq> name) fs @ [(name, f)]"

definition drop_file :: "(string \<times> spool_file) list \<Rightarrow> string \<Rightarrow> (string \<times> spool_file) list" where
  "drop_file fs name = filter (\<lambda>(n, _). n \<noteq> name) fs"

text \<open>
  \<open>Write\<close>: the sequence number is taken once the message is marshalled; the file appears
  with the rename, so a fault before it leaves the directory as it was, and a fault of the
  directory sync after it is an error although the file is there.
\<close>

definition spool_write :: "write_fault \<Rightarrow> spool_dir \<Rightarrow> inbound_message \<Rightarrow> spool_dir \<times> bool" where
  "spool_write f sp m =
     (if f = MarshalFault then (sp, False)
      else let seq = spool_seq sp + 1; sp' = sp\<lparr>spool_seq := seq\<rparr> in
        if f \<in> {CreateFault, WriteFault, SyncFault, CloseFault, RenameFault} then (sp', False)
        else (sp'\<lparr>files := put_file (files sp) (spool_name m seq) (Parsed (m\<lparr>msg_id := 0\<rparr>))\<rparr>,
              f \<noteq> DirSyncFault))"

definition spool_list :: "spool_dir \<Rightarrow> string list" where
  "spool_list sp =
     sort (filter (\<lambda>n. has_suffix n spool_ext \<and> \<not> has_prefix n tmp_prefix) (map fst (files sp)))"

definition spool_read :: "bool \<Rightarrow> spool_dir \<Rightarrow> string \<Rightarrow> inbound_message option" where
  "spool_read io_ok sp name =
     (if \<not> io_ok then None
      else case map_of (files sp) name of
          Some (Parsed m) \<Rightarrow> if uid m = [] then None else Some m
        | _ \<Rightarrow> None)"

definition spool_remove :: "bool \<Rightarrow> spool_dir \<Rightarrow> string \<Rightarrow> spool_dir \<times> bool" where
  "spool_remove io_ok sp name =
     (if io_ok \<and> name \<in> set (map fst (files sp))
      then (sp\<lparr>files := drop_file (files sp) name\<rparr>, True) else (sp, False))"

definition spool_quarantine :: "bool \<Rightarrow> spool_dir \<Rightarrow> string \<Rightarrow> spool_dir \<times> bool" where
  "spool_quarantine io_ok sp name =
     (case map_of (files sp) name of
        Some f \<Rightarrow>
          if io_ok
          then (sp\<lparr>files := put_file (drop_file (files sp) name) (name @ bad_ext) f\<rparr>, True)
          else (sp, False)
      | None \<Rightarrow> (sp, False))"

subsection \<open>Directory entries\<close>

definition spool_ok :: "spool_dir \<Rightarrow> bool" where
  "spool_ok sp = distinct (map fst (files sp))"

lemma set_put_file [simp]:
  "set (put_file fs name f) = insert (name, f) {e \<in> set fs. fst e \<noteq> name}"
  by (auto simp: put_file_def)

lemma set_drop_file [simp]: "set (drop_file fs name) = {e \<in> set fs. fst e \<noteq> name}"
  by (auto simp: drop_file_def)

lemma distinct_fst_filter: "distinct (map fst fs) \<Longrightarrow> distinct (map fst (filter P fs))"
  by (rule distinct_map_filterI)

lemma distinct_put_file: "distinct (map fst fs) \<Longrightarrow> distinct (map fst (put_file fs name f))"
  by (auto simp: put_file_def distinct_fst_filter)

lemma spool_ok_write [simp]: "spool_ok sp \<Longrightarrow> spool_ok (fst (spool_write f sp m))"
  by (auto simp: spool_ok_def spool_write_def Let_def distinct_put_file)

lemma spool_ok_remove [simp]: "spool_ok sp \<Longrightarrow> spool_ok (fst (spool_remove i sp n))"
  by (auto simp: spool_ok_def spool_remove_def drop_file_def distinct_fst_filter)

lemma spool_ok_quarantine [simp]: "spool_ok sp \<Longrightarrow> spool_ok (fst (spool_quarantine i sp n))"
  by (auto simp: spool_ok_def spool_quarantine_def drop_file_def distinct_fst_filter distinct_put_file
      split: option.splits)

lemma map_of_put_file [simp]: "map_of (put_file fs name f) name = Some f"
proof -
  have "map_of (filter (\<lambda>(n, _). n \<noteq> name) fs) name = None"
    by (auto simp: map_of_eq_None_iff)
  then show ?thesis by (simp add: put_file_def map_add_def)
qed

subsection \<open>Sorting names\<close>

text \<open>A decimal of fixed width, digit by digit from the right.\<close>

fun fixed_dec :: "nat \<Rightarrow> nat \<Rightarrow> string" where
  "fixed_dec 0 n = []"
| "fixed_dec (Suc w) n = fixed_dec w (n div 10) @ [digit_char (n mod 10)]"

lemma length_fixed_dec [simp]: "length (fixed_dec w n) = w"
  by (induction w arbitrary: n) auto

lemma of_digit_char [simp]: "k < 10 \<Longrightarrow> of_char (digit_char k) = (48 + k :: nat)"
  by (simp add: digit_char_def)

lemma digit_char_0: "digit_char 0 = CHR ''0''"
  by code_simp

lemma fixed_dec_zero: "fixed_dec w 0 = replicate w (CHR ''0'')"
  by (induction w) (simp_all add: digit_char_0 replicate_append_same)

lemma dec_pad_fixed: "n < 10 ^ Suc w \<Longrightarrow> dec_pad (Suc w) n = fixed_dec (Suc w) n \<and> length (dec n) \<le> Suc w"
proof (induction w arbitrary: n)
  case 0
  then show ?case by (simp add: dec_pad_def dec.simps [of n])
next
  case (Suc w)
  show ?case
  proof (cases "n < 10")
    case True
    then have "fixed_dec (Suc (Suc w)) n = replicate (Suc w) (CHR ''0'') @ [digit_char n]"
      using fixed_dec_zero [of "Suc w"] by simp
    with True show ?thesis by (simp add: dec_pad_def dec.simps [of n])
  next
    case False
    from Suc.prems have "n div 10 < 10 ^ Suc w" by auto
    from Suc.IH [OF this] False show ?thesis
      by (simp add: dec_pad_def dec.simps [of n])
  qed
qed

lemma length_dec_pad: "n < 10 ^ Suc w \<Longrightarrow> length (dec_pad (Suc w) n) = Suc w"
  by (metis dec_pad_fixed length_fixed_dec)

lemma append_less_append:
  "length xs = length ys \<Longrightarrow>
     (xs @ us < ys @ vs) = (xs < ys \<or> xs = ys \<and> us < (vs :: 'a :: linorder list))"
  by (induction xs ys rule: list_induct2) auto

lemma digit_char_less: "a < 10 \<Longrightarrow> b < 10 \<Longrightarrow> (digit_char a < digit_char b) = (a < b)"
  by (simp add: less_char_def)

lemma digit_char_inj: "a < 10 \<Longrightarrow> b < 10 \<Longrightarrow> (digit_char a = digit_char b) = (a = b)"
  using digit_char_less [of a b] digit_char_less [of b a] by (metis linorder_neq_iff)

lemma fixed_dec_inj: "a < 10 ^ w \<Longrightarrow> b < 10 ^ w \<Longrightarrow> (fixed_dec w a = fixed_dec w b) = (a = b)"
proof (induction w arbitrary: a b)
  case (Suc w)
  then have "a div 10 < 10 ^ w" "b div 10 < 10 ^ w" by auto
  with Suc.IH have "(fixed_dec (Suc w) a = fixed_dec (Suc w) b)
      = (a div 10 = b div 10 \<and> a mod 10 = b mod 10)"
    by (simp add: digit_char_inj)
  also have "\<dots> = (a = b)" by (metis div_mult_mod_eq)
  finally show ?case .
qed simp

lemma fixed_dec_less: "a < 10 ^ w \<Longrightarrow> b < 10 ^ w \<Longrightarrow> (fixed_dec w a < fixed_dec w b) = (a < b)"
proof (induction w arbitrary: a b)
  case (Suc w)
  then have ab: "a div 10 < 10 ^ w" "b div 10 < 10 ^ w" by auto
  with Suc.IH fixed_dec_inj have "(fixed_dec (Suc w) a < fixed_dec (Suc w) b)
      = (a div 10 < b div 10 \<or> a div 10 = b div 10 \<and> a mod 10 < b mod 10)"
    by (simp add: append_less_append digit_char_less)
  also have "\<dots> = (a < b)"
  proof -
    have "a = 10 * (a div 10) + a mod 10" "a mod 10 < 10"
      "b = 10 * (b div 10) + b mod 10" "b mod 10 < 10" by simp_all
    then show ?thesis by linarith
  qed
  finally show ?case .
qed simp

lemma dec_pad_less:
  "a < 10 ^ Suc w \<Longrightarrow> b < 10 ^ Suc w \<Longrightarrow> (dec_pad (Suc w) a < dec_pad (Suc w) b) = (a < b)"
  using dec_pad_fixed [of a w] dec_pad_fixed [of b w] fixed_dec_less [of a "Suc w" b] by simp

lemma dec_pad_inj:
  "a < 10 ^ Suc w \<Longrightarrow> b < 10 ^ Suc w \<Longrightarrow> (dec_pad (Suc w) a = dec_pad (Suc w) b) = (a = b)"
  using dec_pad_fixed [of a w] dec_pad_fixed [of b w] fixed_dec_inj [of a "Suc w" b] by simp

text \<open>The name of a file determines the UID: what stands before it has a fixed width.\<close>

definition stamp_of :: "inbound_message \<Rightarrow> nat \<Rightarrow> string" where
  "stamp_of m seq = dec_pad_int 20 (received_at m) @ ''-'' @ dec_pad 6 (seq mod 1000000) @ ''-''"

definition int64 :: "int \<Rightarrow> bool" where
  "int64 x = (- (2 ^ 63) \<le> x \<and> x < 2 ^ 63)"

lemma spool_name_stamp: "spool_name m seq = stamp_of m seq @ uid m @ spool_ext"
  by (simp add: spool_name_def stamp_of_def)

lemma length_dec_pad_6: "length (dec_pad 6 (seq mod 1000000)) = 6"
  using length_dec_pad [of "seq mod 1000000" 5] by simp

lemma length_dec_pad_20: "n < 100000000000000000000 \<Longrightarrow> length (dec_pad 20 n) = 20"
  using length_dec_pad [of n 19] by simp

lemma length_dec_pad_19: "n < 10000000000000000000 \<Longrightarrow> length (dec_pad 19 n) = 19"
  using length_dec_pad [of n 18] by simp

lemma int64_nat: "int64 x \<Longrightarrow> nat x < 100000000000000000000 \<and> nat (- x) < 10000000000000000000"
  by (cases "x < 0") (simp_all add: int64_def nat_less_iff)

lemma length_stamp:
  assumes "int64 (received_at m)"
  shows "length (stamp_of m seq) = 28"
proof -
  have "length (dec_pad_int 20 (received_at m)) = 20"
    using int64_nat [OF assms] length_dec_pad_20 length_dec_pad_19
    by (simp add: dec_pad_int_def)
  then show ?thesis by (simp add: stamp_of_def length_dec_pad_6)
qed

text \<open>Names start with a digit or a minus sign, so never with the prefix of a temporary file.\<close>

lemma dec_nonempty: "dec n \<noteq> []"
  by (subst dec.simps) simp

lemma set_dec: "CHR ''.'' \<notin> set (dec n)"
proof (induction n rule: dec.induct)
  case (1 n)
  have d: "digit_char k \<noteq> CHR ''.''" if "k < 10" for k
    using of_digit_char [OF that] by auto
  show ?case using 1 d [of n] d [of "n mod 10"] by (subst dec.simps) auto
qed

lemma dec_pad_first: "dec_pad w n = CHR ''.'' # r \<Longrightarrow> False"
proof -
  have "CHR ''.'' \<notin> set (dec_pad w n)" by (simp add: dec_pad_def set_dec)
  then show "dec_pad w n = CHR ''.'' # r \<Longrightarrow> False" by auto
qed

lemma spool_name_not_tmp: "\<not> has_prefix (spool_name m seq) tmp_prefix"
proof
  assume "has_prefix (spool_name m seq) tmp_prefix"
  then obtain t where "spool_name m seq = CHR ''.'' # t"
    by (auto simp: has_prefix_iff tmp_prefix_def)
  moreover have "dec_pad_int 20 (received_at m) \<noteq> []"
    by (simp add: dec_pad_int_def dec_pad_def dec_nonempty)
  ultimately obtain r where "dec_pad_int 20 (received_at m) = CHR ''.'' # r"
    by (cases "dec_pad_int 20 (received_at m)") (auto simp: spool_name_def)
  then show False by (auto simp: dec_pad_int_def split: if_splits dest: dec_pad_first)
qed

subsection \<open>Properties\<close>

text \<open>The names of two spool files compare as the times the texts were received, and,
  within one nanosecond, as their sequence numbers: a sorted listing is the order of receipt.\<close>

theorem spool_names_order:
  assumes "0 \<le> received_at a" "int64 (received_at a)" "0 \<le> received_at b" "int64 (received_at b)"
    and "i < 1000000" "j < 1000000"
    and "received_at a < received_at b \<or> received_at a = received_at b \<and> i < j"
  shows "spool_name a i < spool_name b j"
proof -
  let ?a = "nat (received_at a)" and ?b = "nat (received_at b)"
  have bounds: "?a < 100000000000000000000" "?b < 100000000000000000000"
    using assms(2,4) int64_nat by blast+
  have ij: "i mod 1000000 = i" "j mod 1000000 = j" using assms(5,6) by simp_all
  have "(dec_pad 20 ?a < dec_pad 20 ?b) = (received_at a < received_at b)"
    using dec_pad_less [of ?a 19 ?b] bounds assms(1,3) by simp linarith
  moreover have "(dec_pad 6 i < dec_pad 6 j) = (i < j)"
    using dec_pad_less [of i 5 j] assms(5,6) by simp
  moreover have "length (dec_pad 20 ?a) = length (dec_pad 20 ?b)"
    "length (dec_pad 6 i) = length (dec_pad 6 j)"
    using bounds length_dec_pad_20 length_dec_pad_6 ij by metis+
  ultimately show ?thesis
    using assms(1,3,7) ij by (auto simp: spool_name_def dec_pad_int_def append_less_append)
qed

theorem spool_names_order_witness:
  "spool_name (sample_message ''b'' ''1'' 999999999) 7
     < spool_name (sample_message ''a'' ''1'' 1000000000) 2"
  by (rule spool_names_order) (simp_all add: sample_message_def int64_def)

text \<open>A text written without a fault is listed, reads back as it was written but for its
  ID, and every other file is still there; a fault before the rename changes no file.\<close>

theorem spool_write_reads_back:
  assumes "uid m \<noteq> []"
  shows "(let r = spool_write f sp m; name = spool_name m (spool_seq sp + 1) in
           (f \<in> {NoFault, DirSyncFault} \<longrightarrow>
              spool_read True (fst r) name = Some (m\<lparr>msg_id := 0\<rparr>)
              \<and> name \<in> set (spool_list (fst r))
              \<and> {e \<in> set (files sp). fst e \<noteq> name} \<subseteq> set (files (fst r)))
           \<and> (f \<notin> {NoFault, DirSyncFault} \<longrightarrow> files (fst r) = files sp)
           \<and> snd r = (f = NoFault))"
proof -
  let ?name = "spool_name m (spool_seq sp + 1)"
  have "has_suffix ?name spool_ext" by (auto simp: spool_name_stamp has_suffix_iff)
  then show ?thesis
    using assms spool_name_not_tmp
    by (cases f) (auto simp: spool_write_def spool_read_def spool_list_def Let_def image_iff)
qed

theorem spool_write_reads_back_witness:
  "spool_read True (fst (spool_write NoFault empty_spool (sample_message ''a'' ''1'' 5)))
      (spool_name (sample_message ''a'' ''1'' 5) 1)
     = Some (sample_message ''a'' ''1'' 5)"
proof -
  have "uid (sample_message ''a'' ''1'' 5) \<noteq> []" by (simp add: sample_message_def)
  from spool_write_reads_back [OF this, of NoFault empty_spool] show ?thesis
    by (simp add: Let_def empty_spool_def sample_message_def)
qed

end
