(* ===== verification/Inbound_Queue.thy ===== *)
theory Inbound_Queue
  imports Spool
begin

section \<open>The durable queue of inbound texts (\<open>pkg/inbound/queue.go\<close>)\<close>

text \<open>
  \<open>Queue\<close> with the table and the spool it writes to.  Its methods are functions on the state;
  what the database, the disk and Matrix answer are arguments.  Goroutines run concurrently,
  so the methods are cut where another goroutine can come in between: \<open>Drain\<close> between the
  insert of a file and its removal, \<open>DeliverPass\<close> between reading the heads and taking the
  lock, \<open>deliverOne\<close> after every call it makes.  \<open>exec\<close> is one such piece, \<open>reachable\<close> what
  any interleaving of them, crashes included, can lead to.

  The fields \<open>minted\<close>, \<open>accepted\<close>, \<open>matrix\<close>, \<open>set_aside\<close> and \<open>f_horizon\<close> are not in the
  code: they record what happened, for the properties to speak of.  The clock is read once per
  pass.
\<close>

record portal_state =
  busy :: bool
  failures :: nat
  retry_at :: "nanos option"

definition new_portal_state :: portal_state where
  "new_portal_state = \<lparr>busy = False, failures = 0, retry_at = None\<rparr>"

text \<open>Where a goroutine of \<open>deliverOne\<close> stands: before \<open>deliver\<close> returns, before \<open>Delete\<close>
  returns, before the locked section, before \<open>notify\<close>, before it frees its slot.\<close>

datatype stage = Delivering | Deleting | Failed | Finished | Notifying | Releasing

record flight =
  f_row :: inbound_message
  f_stage :: stage
  f_horizon :: int

record queue =
  table :: inbound_table
  spool :: spool_dir
  spool_on :: bool
  backoff_min :: nanos
  backoff_max :: nanos
  wake :: bool
  outbox_depth :: int
  spool_depth :: int
  portals :: "string \<Rightarrow> portal_state option"
  sem :: nat
  inflight :: "flight list"
  snapshot :: "(inbound_message list \<times> int) option"
  todo :: "string list"
  pending :: "string option"
  minted :: "inbound_message list"
  accepted :: "inbound_message list"
  matrix :: "inbound_message list"
  set_aside :: "string list"

definition batch_size :: nat where "batch_size = 500"

definition max_parallel :: nat where "max_parallel = 8"

definition default_backoff_min :: nanos where "default_backoff_min = 1000000000"

definition default_backoff_max :: nanos where "default_backoff_max = 60000000000"

definition new_queue :: "bool \<Rightarrow> queue" where
  "new_queue with_spool =
     \<lparr>table = empty_table, spool = empty_spool, spool_on = with_spool,
      backoff_min = default_backoff_min, backoff_max = default_backoff_max, wake = False,
      outbox_depth = 0, spool_depth = 0, portals = (\<lambda>_. None), sem = 0, inflight = [],
      snapshot = None, todo = [], pending = None,
      minted = [], accepted = [], matrix = [], set_aside = []\<rparr>"

definition set_outbox :: "int \<Rightarrow> queue \<Rightarrow> queue" where
  "set_outbox n q = q\<lparr>outbox_depth := max n 0\<rparr>"

definition set_spool :: "int \<Rightarrow> queue \<Rightarrow> queue" where
  "set_spool n q = q\<lparr>spool_depth := max n 0\<rparr>"

definition notify :: "queue \<Rightarrow> queue" where
  "notify q = q\<lparr>wake := True\<rparr>"

subsection \<open>Persist\<close>

datatype persist_result = Stored | Spooled | Refused

definition persist :: "db_outcome \<Rightarrow> write_fault \<Rightarrow> inbound_message \<Rightarrow> queue \<Rightarrow> queue \<times> persist_result" where
  "persist db fault m q =
     (let r = inb_insert (table q) m;
          q' = (if db = DbErr then q else q\<lparr>table := fst r\<rparr>) in
      if db = DbOk
      then (notify (if snd r then set_outbox (outbox_depth q + 1) q' else q'), Stored)
      else if \<not> spool_on q then (q', Refused)
      else let w = spool_write fault (spool q) m; q'' = q'\<lparr>spool := fst w\<rparr> in
        if snd w then (set_spool (spool_depth q + 1) q'', Spooled) else (q'', Refused))"

subsection \<open>Drain\<close>

text \<open>What the disk and the database answer while one file is moved.\<close>

record drain_answers =
  read_ok :: bool
  rename_ok :: bool
  insert_db :: db_outcome
  remove_ok :: bool

datatype drain_file = FileSkipped | FileInserted | DrainStops

definition file_uid :: "spool_dir \<Rightarrow> string \<Rightarrow> string list" where
  "file_uid sp name = (case map_of (files sp) name of Some (Parsed m) \<Rightarrow> [uid m] | _ \<Rightarrow> [])"

text \<open>The body of the loop up to the insert, and from it on.\<close>

definition drain_insert :: "drain_answers \<Rightarrow> string \<Rightarrow> queue \<Rightarrow> queue \<times> drain_file" where
  "drain_insert a name q =
     (case spool_read (read_ok a) (spool q) name of
        None \<Rightarrow>
          (let r = spool_quarantine (rename_ok a) (spool q) name in
           if snd r
           then (set_spool (spool_depth q - 1)
                   (q\<lparr>spool := fst r, set_aside := set_aside q @ file_uid (spool q) name\<rparr>), FileSkipped)
           else (q, FileSkipped))
      | Some m \<Rightarrow>
          (let r = inb_insert (table q) m in
           case insert_db a of
             DbErr \<Rightarrow> (q, DrainStops)
           | DbErrCommitted \<Rightarrow> (q\<lparr>table := fst r\<rparr>, DrainStops)
           | DbOk \<Rightarrow>
               (let q' = q\<lparr>table := fst r\<rparr> in
                (if snd r then set_outbox (outbox_depth q + 1) q' else q', FileInserted))))"

definition drain_remove :: "bool \<Rightarrow> string \<Rightarrow> queue \<Rightarrow> queue" where
  "drain_remove ok name q =
     (let r = spool_remove ok (spool q) name in
      if snd r then notify (set_spool (spool_depth q - 1) (q\<lparr>spool := fst r\<rparr>)) else q)"

fun drain_loop :: "(string \<Rightarrow> drain_answers) \<Rightarrow> string list \<Rightarrow> queue \<Rightarrow> queue \<times> bool" where
  "drain_loop a [] q = (q, True)"
| "drain_loop a (n # ns) q =
     (case drain_insert (a n) n q of
        (q', FileSkipped) \<Rightarrow> drain_loop a ns q'
      | (q', FileInserted) \<Rightarrow> drain_loop a ns (drain_remove (remove_ok (a n)) n q')
      | (q', DrainStops) \<Rightarrow> (q', False))"

definition drain_list :: "queue \<Rightarrow> queue \<times> string list" where
  "drain_list q = (let ns = spool_list (spool q) in (set_spool (int (length ns)) q, ns))"

text \<open>\<open>Drain\<close> uninterrupted; the second result is False for an error.\<close>

definition drain :: "bool \<Rightarrow> (string \<Rightarrow> drain_answers) \<Rightarrow> queue \<Rightarrow> queue \<times> bool" where
  "drain list_ok a q =
     (if \<not> spool_on q then (q, True)
      else if \<not> list_ok then (q, False)
      else case drain_list q of (q', ns) \<Rightarrow> drain_loop a ns q')"

subsection \<open>DeliverPass\<close>

definition portal_key :: "inbound_message \<Rightarrow> string" where
  "portal_key m = login_id m @ [CHR 0x00] @ portal_id m"

fun backoff_loop :: "nat \<Rightarrow> nanos \<Rightarrow> nanos \<Rightarrow> nanos" where
  "backoff_loop 0 d mx = d"
| "backoff_loop (Suc n) d mx = (if d < mx then backoff_loop n (i64 (d * 2)) mx else d)"

definition backoff :: "nanos \<Rightarrow> nanos \<Rightarrow> nat \<Rightarrow> nanos" where
  "backoff mn mx n = min (backoff_loop (n - 1) mn mx) mx"

definition heads_read :: "bool \<Rightarrow> queue \<Rightarrow> queue" where
  "heads_read count_ok q =
     (let q' = (if count_ok then set_outbox (int (inb_count (table q))) q else q) in
      q'\<lparr>snapshot := Some (inb_heads (table q) batch_size, next_id (table q))\<rparr>)"

definition state_of :: "queue \<Rightarrow> string \<Rightarrow> portal_state" where
  "state_of q key = (case portals q key of Some st \<Rightarrow> st | None \<Rightarrow> new_portal_state)"

definition put_state :: "string \<Rightarrow> portal_state \<Rightarrow> queue \<Rightarrow> queue" where
  "put_state key st q = q\<lparr>portals := (portals q)(key := Some st)\<rparr>"

definition backing_off :: "nanos \<Rightarrow> portal_state \<Rightarrow> bool" where
  "backing_off now st = (case retry_at st of Some t \<Rightarrow> now < t | None \<Rightarrow> False)"

definition earlier :: "nanos option \<Rightarrow> nanos option \<Rightarrow> nanos option" where
  "earlier soonest t =
     (case (soonest, t) of (Some s, Some t') \<Rightarrow> Some (min s t') | (None, _) \<Rightarrow> t | (_, None) \<Rightarrow> soonest)"

definition start_delivery :: "int \<Rightarrow> inbound_message \<Rightarrow> queue \<Rightarrow> queue" where
  "start_delivery h row q =
     (put_state (portal_key row) ((state_of q (portal_key row))\<lparr>busy := True\<rparr>) q)
       \<lparr>sem := sem q + 1,
        inflight := inflight q @ [\<lparr>f_row = row, f_stage = Delivering, f_horizon = h\<rparr>]\<rparr>"

text \<open>
  The loop over the heads.  \<open>cancel\<close> counts the rows looked at before the context is found
  cancelled (never, if it is \<open>None\<close>).  The result is the state, the keys seen, the soonest end
  of a backoff, and whether the pass was cancelled.
\<close>

fun spawn_loop :: "nanos \<Rightarrow> int \<Rightarrow> nat option \<Rightarrow> inbound_message list \<Rightarrow> string list \<Rightarrow> nanos option
    \<Rightarrow> queue \<Rightarrow> queue \<times> string list \<times> nanos option \<times> bool" where
  "spawn_loop now h cancel [] seen soonest q = (q, seen, soonest, False)"
| "spawn_loop now h cancel (row # rs) seen soonest q =
     (if cancel = Some 0 then (q, seen, soonest, True)
      else let key = portal_key row;
               st = state_of q key;
               q' = put_state key st q;
               rest = spawn_loop now h (map_option (\<lambda>n. n - 1) cancel) rs (key # seen) in
        if busy st then rest soonest q'
        else if backing_off now st then rest (earlier soonest (retry_at st)) q'
        else if sem q < max_parallel then rest soonest (start_delivery h row q')
        else (q', key # seen, soonest, False))"

definition forget_idle :: "string list \<Rightarrow> queue \<Rightarrow> queue" where
  "forget_idle seen q =
     q\<lparr>portals := (\<lambda>k. case portals q k of
          Some st \<Rightarrow> if k \<notin> set seen \<and> \<not> busy st then None else Some st | None \<Rightarrow> None)\<rparr>"

definition deliver_pass :: "nanos \<Rightarrow> nat option \<Rightarrow> inbound_message list \<Rightarrow> int \<Rightarrow> queue \<Rightarrow> queue \<times> nanos" where
  "deliver_pass now cancel heads h q =
     (case spawn_loop now h cancel heads [] None q of
        (q', seen, soonest, cancelled) \<Rightarrow>
          if cancelled then (q', -1)
          else (forget_idle seen q',
                case soonest of None \<Rightarrow> -1 | Some t \<Rightarrow> max (t - now) 0))"

text \<open>\<open>deliverLoop\<close>: how long to sleep after a pass.\<close>

definition poll_interval :: nanos where "poll_interval = 30000000000"

definition loop_wait :: "nanos \<Rightarrow> nanos" where
  "loop_wait w = (if w < 0 \<or> w > poll_interval then poll_interval else w)"

subsection \<open>deliverOne\<close>

text \<open>\<open>deliver\<close> returns nil only for a text that is in Matrix; an error may hide that it is.\<close>

datatype deliver_outcome = InMatrix | DeliverErr | DeliverErrArrived

definition set_stage :: "nat \<Rightarrow> stage \<Rightarrow> queue \<Rightarrow> queue" where
  "set_stage i s q = q\<lparr>inflight := (inflight q)[i := (inflight q ! i)\<lparr>f_stage := s\<rparr>]\<rparr>"

definition flight_delivered :: "nat \<Rightarrow> deliver_outcome \<Rightarrow> queue \<Rightarrow> queue" where
  "flight_delivered i r q =
     (let q' = (if r = DeliverErr then q else q\<lparr>matrix := matrix q @ [f_row (inflight q ! i)]\<rparr>) in
      set_stage i (if r = InMatrix then Deleting else Failed) q')"

definition flight_deleted :: "nat \<Rightarrow> db_outcome \<Rightarrow> queue \<Rightarrow> queue" where
  "flight_deleted i db q =
     (let t = inb_delete (table q) (msg_id (f_row (inflight q ! i)));
          q' = (if db = DbErr then q else q\<lparr>table := t\<rparr>) in
      if db = DbOk then set_stage i Finished (set_outbox (outbox_depth q - 1) q')
      else set_stage i Failed q')"

text \<open>The locked section; \<open>None\<close> is the nil dereference of a portal without a state.\<close>

definition flight_settled :: "nat \<Rightarrow> nanos \<Rightarrow> bool \<Rightarrow> queue \<Rightarrow> queue option" where
  "flight_settled i now cancelled q =
     (let key = portal_key (f_row (inflight q ! i)) in
      if f_stage (inflight q ! i) = Finished
      then Some (set_stage i Notifying (q\<lparr>portals := (portals q)(key := None)\<rparr>))
      else case portals q key of
          None \<Rightarrow> None
        | Some st \<Rightarrow>
            let st' = (if cancelled then st\<lparr>busy := False\<rparr>
                       else st\<lparr>busy := False, failures := failures st + 1,
                               retry_at := Some (now + backoff (backoff_min q) (backoff_max q)
                                                         (failures st + 1))\<rparr>) in
            Some (set_stage i Notifying (put_state key st' q)))"

definition flight_released :: "nat \<Rightarrow> queue \<Rightarrow> queue" where
  "flight_released i q =
     q\<lparr>sem := sem q - 1, inflight := take i (inflight q) @ drop (Suc i) (inflight q)\<rparr>"

subsection \<open>Every step of the queue\<close>

datatype event =
    Persisted db_outcome write_fault inbound_message
  | DrainListed
  | DrainRead drain_answers
  | DrainRemoved bool
  | HeadsRead bool
  | PassRun nanos "nat option"
  | Delivered nat deliver_outcome
  | Deleted nat db_outcome
  | Settled nat nanos bool
  | Notified nat
  | Released nat
  | LoopWoken
  | Crashed

definition after_crash :: "queue \<Rightarrow> queue" where
  "after_crash q =
     (new_queue (spool_on q))
       \<lparr>table := table q, spool := (spool q)\<lparr>spool_seq := 0\<rparr>, backoff_min := backoff_min q,
        backoff_max := backoff_max q,
        minted := minted q, accepted := accepted q, matrix := matrix q, set_aside := set_aside q\<rparr>"

definition at_stage :: "queue \<Rightarrow> nat \<Rightarrow> stage list \<Rightarrow> bool" where
  "at_stage q i ss = (i < length (inflight q) \<and> f_stage (inflight q ! i) \<in> set ss)"

text \<open>A text to persist has a fresh, non-empty UID; its time fits the clock.\<close>

definition may_mint :: "queue \<Rightarrow> inbound_message \<Rightarrow> bool" where
  "may_mint q m = (uid m \<noteq> [] \<and> uid m \<notin> uid ` set (minted q) \<and> int64 (received_at m))"

fun exec :: "event \<Rightarrow> queue \<Rightarrow> queue option" where
  "exec (Persisted db fault m) q =
     (if may_mint q m then
        (case persist db fault m (q\<lparr>minted := minted q @ [m]\<rparr>) of (q', r) \<Rightarrow>
           Some (if r = Refused then q' else q'\<lparr>accepted := accepted q @ [m]\<rparr>))
      else None)"
| "exec DrainListed q =
     (if spool_on q \<and> todo q = [] \<and> pending q = None
      then (case drain_list q of (q', ns) \<Rightarrow> Some (q'\<lparr>todo := ns\<rparr>)) else None)"
| "exec (DrainRead a) q =
     (case (todo q, pending q) of
        (n # ns, None) \<Rightarrow>
          (case drain_insert a n q of
             (q', FileSkipped) \<Rightarrow> Some (q'\<lparr>todo := ns\<rparr>)
           | (q', FileInserted) \<Rightarrow> Some (q'\<lparr>todo := ns, pending := Some n\<rparr>)
           | (q', DrainStops) \<Rightarrow> Some (q'\<lparr>todo := []\<rparr>))
      | _ \<Rightarrow> None)"
| "exec (DrainRemoved ok) q =
     (case pending q of
        Some n \<Rightarrow> Some ((drain_remove ok n q)\<lparr>pending := None\<rparr>) | None \<Rightarrow> None)"
| "exec (HeadsRead count_ok) q =
     (if snapshot q = None then Some (heads_read count_ok q) else None)"
| "exec (PassRun now cancel) q =
     (case snapshot q of
        Some (heads, h) \<Rightarrow> Some ((fst (deliver_pass now cancel heads h q))\<lparr>snapshot := None\<rparr>)
      | None \<Rightarrow> None)"
| "exec (Delivered i r) q =
     (if at_stage q i [Delivering] then Some (flight_delivered i r q) else None)"
| "exec (Deleted i db) q =
     (if at_stage q i [Deleting] then Some (flight_deleted i db q) else None)"
| "exec (Settled i now cancelled) q =
     (if at_stage q i [Failed, Finished] then flight_settled i now cancelled q else None)"
| "exec (Notified i) q =
     (if at_stage q i [Notifying] then Some (notify (set_stage i Releasing q)) else None)"
| "exec (Released i) q =
     (if at_stage q i [Releasing] then Some (flight_released i q) else None)"
| "exec LoopWoken q = (if wake q then Some (q\<lparr>wake := False\<rparr>) else None)"
| "exec Crashed q = Some (after_crash q)"

inductive reachable :: "bool \<Rightarrow> queue \<Rightarrow> bool" for with_spool :: bool where
  start: "reachable with_spool (new_queue with_spool)"
| step: "reachable with_spool q \<Longrightarrow> exec e q = Some q' \<Longrightarrow> reachable with_spool q'"

fun run_events :: "event list \<Rightarrow> queue \<Rightarrow> queue option" where
  "run_events [] q = Some q"
| "run_events (e # es) q = (case exec e q of Some q' \<Rightarrow> run_events es q' | None \<Rightarrow> None)"

lemma run_reachable: "reachable w q \<Longrightarrow> run_events es q = Some q' \<Longrightarrow> reachable w q'"
  by (induction es q rule: run_events.induct) (auto split: option.splits intro: reachable.step)


subsection \<open>The invariant\<close>

text \<open>What a text says, without the ID the table gave it and to the precision it is stored in.\<close>

definition same_text :: "inbound_message \<Rightarrow> inbound_message \<Rightarrow> bool" where
  "same_text a b = (stored_row 0 a = stored_row 0 b)"

lemma same_text_stored [simp]: "same_text (stored_row i m) m"
  by (simp add: same_text_def stored_row_def to_millis_def)

lemma same_text_unnumbered [simp]: "same_text (m\<lparr>msg_id := 0\<rparr>) m"
  by (simp add: same_text_def stored_row_def)

lemma same_text_trans: "same_text a b \<Longrightarrow> same_text b c \<Longrightarrow> same_text a c"
  by (simp add: same_text_def)

lemma same_text_uid: "same_text a b \<Longrightarrow> uid a = uid b"
  unfolding same_text_def by (metis stored_row_simps(1))

text \<open>\<open>m\<close> says what was minted under its UID.\<close>

definition genuine :: "inbound_message list \<Rightarrow> inbound_message \<Rightarrow> bool" where
  "genuine ms m = (\<exists>o' \<in> set ms. same_text m o')"

definition name_for :: "inbound_message \<Rightarrow> string \<Rightarrow> bool" where
  "name_for m n = (\<exists>i. n = spool_name m i \<or> n = spool_name m i @ bad_ext)"

definition file_ok :: "inbound_message list \<Rightarrow> string \<times> spool_file \<Rightarrow> bool" where
  "file_ok ms e =
     (\<exists>m \<in> set ms. name_for m (fst e) \<and> snd e = Parsed (m\<lparr>msg_id := 0\<rparr>))"

definition file_uids :: "queue \<Rightarrow> string set" where
  "file_uids q = {uid m | n m. (n, Parsed m) \<in> set (files (spool q))}"

definition kept_uids :: "queue \<Rightarrow> string set" where
  "kept_uids q = uid ` set (rows (table q)) \<union> uid ` set (matrix q)"

definition minted_ok :: "inbound_message list \<Rightarrow> bool" where
  "minted_ok ms = (distinct (map uid ms) \<and> (\<forall>m \<in> set ms. uid m \<noteq> [] \<and> int64 (received_at m)))"

definition stored_ok :: "queue \<Rightarrow> bool" where
  "stored_ok q =
     (table_ok (table q) \<and> spool_ok (spool q) \<and> minted_ok (minted q)
      \<and> (\<forall>m \<in> set (rows (table q)) \<union> set (matrix q). genuine (minted q) m)
      \<and> (\<forall>e \<in> set (files (spool q)). file_ok (minted q) e))"

definition batch_rows :: "queue \<Rightarrow> (inbound_message \<times> int) list" where
  "batch_rows q =
     map (\<lambda>f. (f_row f, f_horizon f)) (inflight q)
       @ (case snapshot q of Some (hs, h) \<Rightarrow> map (\<lambda>m. (m, h)) hs | None \<Rightarrow> [])"

text \<open>
  A row in hand, with the horizon its batch was read at: still the row of its ID, if the table
  has that ID, and no row of its portal that was there when the batch was read precedes it.
\<close>

definition in_hand_ok :: "queue \<Rightarrow> inbound_message \<times> int \<Rightarrow> bool" where
  "in_hand_ok q e =
     (msg_id (fst e) < snd e \<and> genuine (minted q) (fst e)
      \<and> (\<forall>a \<in> set (rows (table q)). msg_id a = msg_id (fst e) \<longrightarrow> a = fst e)
      \<and> inb.none_before (table q) (snd e) (fst e))"

definition batches_ok :: "queue \<Rightarrow> bool" where
  "batches_ok q = (\<forall>e \<in> set (batch_rows q). in_hand_ok q e)"

definition is_active :: "flight \<Rightarrow> bool" where
  "is_active f = (f_stage f \<in> {Delivering, Deleting, Failed, Finished})"

definition active_keys :: "flight list \<Rightarrow> string list" where
  "active_keys fs = map (\<lambda>f. portal_key (f_row f)) (filter is_active fs)"

definition busy_key :: "queue \<Rightarrow> string \<Rightarrow> bool" where
  "busy_key q k = (case portals q k of Some st \<Rightarrow> busy st | None \<Rightarrow> False)"

definition slots_ok :: "queue \<Rightarrow> bool" where
  "slots_ok q =
     (sem q = length (inflight q) \<and> sem q \<le> max_parallel
      \<and> distinct (active_keys (inflight q))
      \<and> (\<forall>k. busy_key q k = (k \<in> set (active_keys (inflight q)))))"

definition drain_ok :: "queue \<Rightarrow> bool" where
  "drain_ok q =
     ((\<forall>n \<in> set (todo q). has_suffix n spool_ext)
      \<and> (\<forall>n. pending q = Some n \<longrightarrow> (\<exists>m \<in> set (minted q). name_for m n \<and> uid m \<in> kept_uids q)))"

definition accepted_ok :: "queue \<Rightarrow> bool" where
  "accepted_ok q =
     (set (accepted q) \<subseteq> set (minted q)
      \<and> (\<forall>m \<in> set (accepted q). uid m \<in> kept_uids q \<union> file_uids q)
      \<and> (\<forall>f \<in> set (inflight q). f_stage f = Deleting \<or> f_stage f = Finished \<longrightarrow>
            uid (f_row f) \<in> uid ` set (matrix q))
      \<and> (\<forall>n m. (n, Parsed m) \<in> set (files (spool q)) \<longrightarrow> has_suffix n bad_ext \<longrightarrow>
            uid m \<in> set (set_aside q)))"

lemmas queue_invariants = stored_ok_def batches_ok_def slots_ok_def drain_ok_def accepted_ok_def

subsection \<open>Names and texts\<close>

lemma spool_name_uid:
  assumes "spool_name a i = spool_name b j" "int64 (received_at a)" "int64 (received_at b)"
  shows "uid a = uid b"
  using assms length_stamp by (simp add: spool_name_stamp)

lemma has_suffix_spool_name [simp]: "has_suffix (spool_name m i) spool_ext"
  by (auto simp: spool_name_stamp has_suffix_iff)

lemma json_not_bad: "has_suffix n spool_ext \<Longrightarrow> \<not> has_suffix n bad_ext"
  unfolding has_suffix_def spool_ext_def bad_ext_def by (cases "rev n") simp_all

lemma has_suffix_append [simp]: "has_suffix (s @ p) p"
  by (auto simp: has_suffix_iff)

lemma name_for_json: "name_for m n \<Longrightarrow> has_suffix n spool_ext \<Longrightarrow> \<exists>i. n = spool_name m i"
  unfolding name_for_def using json_not_bad has_suffix_append by blast

lemma name_for_not_json: "name_for m n \<Longrightarrow> \<not> has_suffix n spool_ext \<Longrightarrow> has_suffix n bad_ext"
  unfolding name_for_def by auto

lemma name_for_uid:
  assumes "name_for a n" "name_for b n" "int64 (received_at a)" "int64 (received_at b)"
  shows "uid a = uid b"
proof (cases "has_suffix n spool_ext")
  case True
  then show ?thesis using assms name_for_json spool_name_uid by metis
next
  case False
  then obtain i where i: "n = spool_name a i @ bad_ext"
    using assms(1) unfolding name_for_def by auto
  obtain j where "n = spool_name b j @ bad_ext"
    using assms(2) False unfolding name_for_def by auto
  with i have "spool_name a i = spool_name b j" by simp
  then show ?thesis using spool_name_uid assms(3,4) by blast
qed

lemma genuine_mono: "genuine ms m \<Longrightarrow> set ms \<subseteq> set ms' \<Longrightarrow> genuine ms' m"
  by (auto simp: genuine_def)

lemma genuine_stored: "m \<in> set ms \<Longrightarrow> genuine ms (stored_row i m)"
  unfolding genuine_def using same_text_stored by blast

lemma genuine_same: "same_text a b \<Longrightarrow> genuine ms b \<Longrightarrow> genuine ms a"
  unfolding genuine_def using same_text_trans by blast

lemma genuine_uid_same:
  assumes "minted_ok ms" "genuine ms a" "m \<in> set ms" "uid a = uid m"
  shows "same_text a m"
proof -
  obtain o' where o': "o' \<in> set ms" "same_text a o'" using assms(2) by (auto simp: genuine_def)
  then have "uid o' = uid m" using same_text_uid assms(4) by metis
  then have "o' = m" using assms(1,3) o'(1) by (auto simp: minted_ok_def intro: distinct_map_inj)
  with o'(2) show ?thesis by simp
qed

lemma file_ok_mono: "file_ok ms e \<Longrightarrow> set ms \<subseteq> set ms' \<Longrightarrow> file_ok ms' e"
  by (auto simp: file_ok_def)

lemma files_same_name:
  assumes "minted_ok ms" "file_ok ms (n, Parsed f)" "m \<in> set ms" "name_for m n"
  shows "uid f = uid m"
proof -
  obtain o' where o': "o' \<in> set ms" "name_for o' n" "f = o'\<lparr>msg_id := 0\<rparr>"
    using assms(2) by (auto simp: file_ok_def)
  then have "uid o' = uid m"
    using name_for_uid [OF o'(2) assms(4)] assms(1,3) by (simp add: minted_ok_def)
  with o'(3) show ?thesis by simp
qed

subsection \<open>Every step keeps the invariant\<close>

definition queue_ok :: "queue \<Rightarrow> bool" where
  "queue_ok q = (stored_ok q \<and> batches_ok q \<and> slots_ok q \<and> drain_ok q \<and> accepted_ok q)"

lemma queue_okI:
  "stored_ok q \<Longrightarrow> batches_ok q \<Longrightarrow> slots_ok q \<Longrightarrow> drain_ok q \<Longrightarrow> accepted_ok q \<Longrightarrow> queue_ok q"
  by (simp add: queue_ok_def)

lemma queue_okD:
  assumes "queue_ok q"
  shows "stored_ok q" "batches_ok q" "slots_ok q" "drain_ok q" "accepted_ok q"
  using assms by (simp_all add: queue_ok_def)

lemmas queue_views = file_uids_def kept_uids_def batch_rows_def in_hand_ok_def busy_key_def

lemma queue_ok_counters [simp]:
  "queue_ok (q\<lparr>outbox_depth := x\<rparr>) = queue_ok q"
  "queue_ok (q\<lparr>spool_depth := x\<rparr>) = queue_ok q"
  "queue_ok (q\<lparr>wake := w\<rparr>) = queue_ok q"
  "queue_ok (set_outbox x q) = queue_ok q"
  "queue_ok (set_spool x q) = queue_ok q"
  "queue_ok (notify q) = queue_ok q"
  by (simp_all add: queue_ok_def queue_invariants queue_views set_outbox_def set_spool_def notify_def)

lemma table_ok_empty_rows [simp]: "rows empty_table = []"
  by (simp add: empty_table_def)

lemma queue_ok_new: "queue_ok (new_queue w)"
  by (simp add: queue_ok_def queue_invariants queue_views new_queue_def minted_ok_def spool_ok_def
      empty_spool_def active_keys_def)

lemma stored_okD:
  assumes "stored_ok q"
  shows "table_ok (table q)" "spool_ok (spool q)" "minted_ok (minted q)"
    "\<And>m. m \<in> set (rows (table q)) \<Longrightarrow> genuine (minted q) m"
    "\<And>m. m \<in> set (matrix q) \<Longrightarrow> genuine (minted q) m"
    "\<And>e. e \<in> set (files (spool q)) \<Longrightarrow> file_ok (minted q) e"
  using assms by (simp_all add: stored_ok_def)

lemma in_hand_insert:
  assumes "table_ok (table q)" "in_hand_ok q e"
  shows "in_hand_ok (q\<lparr>table := fst (inb_insert (table q) m)\<rparr>) e"
proof -
  from assms(2) have nb: "inb.none_before (table q) (snd e) (fst e)" by (simp add: in_hand_ok_def)
  have "msg_id (fst e) < next_id (table q)"
    using assms(2) by (auto simp: in_hand_ok_def inb.none_before_def)
  then show ?thesis
    using assms inb.none_before_insert [OF assms(1) nb] inb.insert_fresh [OF assms(1)]
    by (fastforce simp: in_hand_ok_def)
qed

lemma queue_ok_insert:
  assumes ok: "queue_ok q" and m: "genuine (minted q) m"
  shows "queue_ok (q\<lparr>table := fst (inb_insert (table q) m)\<rparr>)"
proof (rule queue_okI)
  let ?q = "q\<lparr>table := fst (inb_insert (table q) m)\<rparr>"
  note S = queue_okD [OF ok] and T = stored_okD [OF queue_okD(1) [OF ok]]
  have g: "genuine (minted q) (stored_row i m)" for i
    using m genuine_same same_text_stored by blast
  show "stored_ok ?q"
    using T g by (auto simp: stored_ok_def set_insert_rows)
  show "batches_ok ?q"
    using S(2) in_hand_insert [OF T(1)] by (simp add: batches_ok_def batch_rows_def)
  show "slots_ok ?q" using S(3) by (simp add: slots_ok_def busy_key_def)
  have k: "kept_uids q \<subseteq> kept_uids ?q"
    using insert_uids [of "table q" m] by (auto simp: kept_uids_def)
  show "drain_ok ?q" using S(4) k by (fastforce simp: drain_ok_def)
  show "accepted_ok ?q" using S(5) k by (fastforce simp: accepted_ok_def file_uids_def)
qed

lemma queue_ok_mint:
  assumes ok: "queue_ok q" and m: "may_mint q m"
  shows "queue_ok (q\<lparr>minted := minted q @ [m]\<rparr>)"
proof (rule queue_okI)
  let ?q = "q\<lparr>minted := minted q @ [m]\<rparr>"
  note S = queue_okD [OF ok] and T = stored_okD [OF queue_okD(1) [OF ok]]
  have g: "genuine (minted q) x \<Longrightarrow> genuine (minted q @ [m]) x" for x
    by (rule genuine_mono) auto
  have f: "file_ok (minted q) x \<Longrightarrow> file_ok (minted q @ [m]) x" for x
    by (rule file_ok_mono) auto
  show "stored_ok ?q"
    using T g f m by (auto simp: stored_ok_def minted_ok_def may_mint_def)
  show "batches_ok ?q"
    using S(2) g by (simp add: batches_ok_def batch_rows_def in_hand_ok_def)
  show "slots_ok ?q" using S(3) by (simp add: slots_ok_def busy_key_def)
  show "drain_ok ?q"
    using S(4) by (auto simp: drain_ok_def kept_uids_def)
  show "accepted_ok ?q" using S(5) by (auto simp: accepted_ok_def kept_uids_def file_uids_def)
qed

lemma queue_ok_accept:
  assumes ok: "queue_ok q" and m: "m \<in> set (minted q)" "uid m \<in> kept_uids q \<union> file_uids q"
  shows "queue_ok (q\<lparr>accepted := accepted q @ [m]\<rparr>)"
proof (rule queue_okI)
  let ?q = "q\<lparr>accepted := accepted q @ [m]\<rparr>"
  note S = queue_okD [OF ok]
  show "stored_ok ?q" using S(1) by (simp add: stored_ok_def)
  show "batches_ok ?q" using S(2) by (simp add: batches_ok_def batch_rows_def in_hand_ok_def)
  show "slots_ok ?q" using S(3) by (simp add: slots_ok_def busy_key_def)
  show "drain_ok ?q" using S(4) by (simp add: drain_ok_def kept_uids_def)
  show "accepted_ok ?q" using S(5) m by (auto simp: accepted_ok_def kept_uids_def file_uids_def)
qed

text \<open>The spool: what stays is every file but those of one name, and the UIDs they held.\<close>

lemma queue_ok_spool:
  assumes ok: "queue_ok q" and sp: "spool_ok sp"
    and files: "\<And>e. e \<in> set (files sp) \<Longrightarrow> file_ok (minted q) e"
    and uids: "\<And>n f. (n, Parsed f) \<in> set (files (spool q)) \<Longrightarrow>
      uid f \<in> kept_uids q \<or> (\<exists>n' f'. (n', Parsed f') \<in> set (files sp) \<and> uid f' = uid f)"
    and aside: "\<And>n f. (n, Parsed f) \<in> set (files sp) \<Longrightarrow> has_suffix n bad_ext \<Longrightarrow>
      uid f \<in> set (set_aside q @ extra)"
  shows "queue_ok (q\<lparr>spool := sp, set_aside := set_aside q @ extra\<rparr>)"
proof (rule queue_okI)
  let ?q = "q\<lparr>spool := sp, set_aside := set_aside q @ extra\<rparr>"
  note S = queue_okD [OF ok]
  show "stored_ok ?q" using S(1) sp files by (simp add: stored_ok_def)
  show "batches_ok ?q" using S(2) by (simp add: batches_ok_def batch_rows_def in_hand_ok_def)
  show "slots_ok ?q" using S(3) by (simp add: slots_ok_def busy_key_def)
  show "drain_ok ?q" using S(4) by (simp add: drain_ok_def kept_uids_def)
  have "uid m \<in> kept_uids q \<union> file_uids ?q" if "m \<in> set (accepted q)" for m
  proof -
    have "uid m \<in> kept_uids q \<union> file_uids q" using S(5) that by (simp add: accepted_ok_def)
    moreover have "uid m \<in> kept_uids q \<union> file_uids ?q" if f: "uid m \<in> file_uids q"
    proof -
      obtain n f where nf: "(n, Parsed f) \<in> set (files (spool q))" "uid m = uid f"
        using f by (auto simp: file_uids_def)
      from uids [OF nf(1)] show ?thesis using nf(2) by (auto simp: file_uids_def)
    qed
    ultimately show ?thesis by blast
  qed
  then show "accepted_ok ?q"
    using S(5) aside by (auto simp: accepted_ok_def kept_uids_def)
qed

lemma queue_ok_spool_write:
  assumes ok: "queue_ok q" and m: "m \<in> set (minted q)"
  shows "queue_ok (q\<lparr>spool := fst (spool_write fault (spool q) m)\<rparr>)"
proof -
  note S = queue_okD [OF ok] and T = stored_okD [OF queue_okD(1) [OF ok]]
  let ?sp = "fst (spool_write fault (spool q) m)"
  let ?n = "spool_name m (spool_seq (spool q) + 1)" and ?c = "Parsed (m\<lparr>msg_id := 0\<rparr>)"
  have sub: "set (files ?sp) \<subseteq> insert (?n, ?c) (set (files (spool q)))"
    by (auto simp: spool_write_def Let_def)
  have new: "file_ok (minted q) (?n, ?c)" using m by (auto simp: file_ok_def name_for_def)
  have same: "uid f = uid m" if "(?n, Parsed f) \<in> set (files (spool q))" for f
    using files_same_name [OF T(3) T(6) [OF that] m] by (auto simp: name_for_def)
  have "queue_ok (q\<lparr>spool := ?sp, set_aside := set_aside q @ []\<rparr>)"
  proof (rule queue_ok_spool [OF ok])
    show "spool_ok ?sp" using T(2) by simp
    show "file_ok (minted q) e" if "e \<in> set (files ?sp)" for e
      using that sub new T(6) by blast
    show "uid f \<in> kept_uids q \<or> (\<exists>n' f'. (n', Parsed f') \<in> set (files ?sp) \<and> uid f' = uid f)"
      if nf: "(n, Parsed f) \<in> set (files (spool q))" for n f
    proof (cases "(n, Parsed f) \<in> set (files ?sp)")
      case False
      then have "n = ?n" "(?n, ?c) \<in> set (files ?sp)"
        using nf by (auto simp: spool_write_def Let_def split: if_splits)
      then show ?thesis using same nf by (metis inbound_message.select_convs(2) inbound_message.surjective inbound_message.update_convs(1))
    qed blast
    show "uid f \<in> set (set_aside q @ [])"
      if "(n, Parsed f) \<in> set (files ?sp)" "has_suffix n bad_ext" for n f
    proof -
      have "n \<noteq> ?n" using that(2) json_not_bad has_suffix_spool_name by blast
      then show ?thesis using that sub S(5) by (auto simp: accepted_ok_def)
    qed
  qed
  then show ?thesis by simp
qed

lemma queue_ok_quarantine:
  assumes ok: "queue_ok q" and n: "has_suffix n spool_ext"
  shows "queue_ok (q\<lparr>spool := fst (spool_quarantine i (spool q) n),
            set_aside := set_aside q @ file_uid (spool q) n\<rparr>)"
proof (cases "i \<and> map_of (files (spool q)) n \<noteq> None")
  case False
  then have "fst (spool_quarantine i (spool q) n) = spool q"
    by (auto simp: spool_quarantine_def split: option.splits)
  then show ?thesis
    using queue_ok_spool [OF ok, of "spool q"] stored_okD [OF queue_okD(1) [OF ok]]
      queue_okD(5) [OF ok] by (auto simp: accepted_ok_def)
next
  case True
  note S = queue_okD [OF ok] and T = stored_okD [OF queue_okD(1) [OF ok]]
  let ?sp = "fst (spool_quarantine i (spool q) n)"
  obtain c where c: "map_of (files (spool q)) n = Some c" using True by auto
  then have inf: "(n, c) \<in> set (files (spool q))" by (rule map_of_SomeD)
  then obtain m where m: "m \<in> set (minted q)" "name_for m n" "c = Parsed (m\<lparr>msg_id := 0\<rparr>)"
    using T(6) [OF inf] by (auto simp: file_ok_def)
  then have bad: "name_for m (n @ bad_ext)"
    using name_for_json [OF m(2) n] by (auto simp: name_for_def)
  have fs: "set (files ?sp) = insert (n @ bad_ext, c)
      {e \<in> set (files (spool q)). fst e \<noteq> n \<and> fst e \<noteq> n @ bad_ext}"
    using True c by (auto simp: spool_quarantine_def)
  show ?thesis
  proof (rule queue_ok_spool [OF ok])
    show "spool_ok ?sp" using T(2) by simp
    show "file_ok (minted q) e" if "e \<in> set (files ?sp)" for e
      using that fs bad m T(6) by (auto simp: file_ok_def)
    show "uid f \<in> kept_uids q \<or> (\<exists>n' f'. (n', Parsed f') \<in> set (files ?sp) \<and> uid f' = uid f)"
      if nf: "(n', Parsed f) \<in> set (files (spool q))" for n' f
    proof (cases "n' = n \<or> n' = n @ bad_ext")
      case True
      then have "uid (m\<lparr>msg_id := 0\<rparr>) = uid f"
        using files_same_name [OF T(3) T(6) [OF nf] m(1)] m(2) bad by auto
      moreover have "(n @ bad_ext, Parsed (m\<lparr>msg_id := 0\<rparr>)) \<in> set (files ?sp)"
        using fs m(3) by simp
      ultimately show ?thesis by blast
    next
      case False
      then show ?thesis using nf fs by auto
    qed
    show "uid f \<in> set (set_aside q @ file_uid (spool q) n)"
      if "(n', Parsed f) \<in> set (files ?sp)" "has_suffix n' bad_ext" for n' f
      using that fs c S(5) by (auto simp: accepted_ok_def file_uid_def)
  qed
qed

lemma queue_ok_remove:
  assumes ok: "queue_ok q" and m: "m \<in> set (minted q)" "name_for m n" "uid m \<in> kept_uids q"
  shows "queue_ok (q\<lparr>spool := fst (spool_remove i (spool q) n)\<rparr>)"
proof -
  note S = queue_okD [OF ok] and T = stored_okD [OF queue_okD(1) [OF ok]]
  let ?sp = "fst (spool_remove i (spool q) n)"
  have fs: "set (files ?sp) \<subseteq> set (files (spool q))"
    "{e \<in> set (files (spool q)). fst e \<noteq> n} \<subseteq> set (files ?sp)"
    by (auto simp: spool_remove_def)
  have "queue_ok (q\<lparr>spool := ?sp, set_aside := set_aside q @ []\<rparr>)"
  proof (rule queue_ok_spool [OF ok])
    show "spool_ok ?sp" using T(2) by simp
    show "file_ok (minted q) e" if "e \<in> set (files ?sp)" for e using that fs T(6) by blast
    show "uid f \<in> kept_uids q \<or> (\<exists>n' f'. (n', Parsed f') \<in> set (files ?sp) \<and> uid f' = uid f)"
      if nf: "(n', Parsed f) \<in> set (files (spool q))" for n' f
    proof (cases "n' = n")
      case True
      then show ?thesis using files_same_name [OF T(3) T(6) [OF nf] m(1)] m(2,3) by simp
    next
      case False
      then have "(n', Parsed f) \<in> set (files ?sp)" using nf fs(2) by force
      then show ?thesis by blast
    qed
    show "uid f \<in> set (set_aside q @ [])"
      if "(n', Parsed f) \<in> set (files ?sp)" "has_suffix n' bad_ext" for n' f
      using that fs S(5) by (auto simp: accepted_ok_def)
  qed
  then show ?thesis by simp
qed

lemma set_aside_update [simp]: "q\<lparr>spool := sp, set_aside := set_aside q\<rparr> = q\<lparr>spool := sp\<rparr>"
  by simp

lemma counters_commute [simp]:
  "(notify q)\<lparr>accepted := a\<rparr> = notify (q\<lparr>accepted := a\<rparr>)"
  "(notify q)\<lparr>todo := ns\<rparr> = notify (q\<lparr>todo := ns\<rparr>)"
  "(notify q)\<lparr>pending := p\<rparr> = notify (q\<lparr>pending := p\<rparr>)"
  "(set_outbox x q)\<lparr>accepted := a\<rparr> = set_outbox x (q\<lparr>accepted := a\<rparr>)"
  "(set_outbox x q)\<lparr>todo := ns\<rparr> = set_outbox x (q\<lparr>todo := ns\<rparr>)"
  "(set_outbox x q)\<lparr>pending := p\<rparr> = set_outbox x (q\<lparr>pending := p\<rparr>)"
  "(set_outbox x q)\<lparr>snapshot := sn\<rparr> = set_outbox x (q\<lparr>snapshot := sn\<rparr>)"
  "(set_spool x q)\<lparr>accepted := a\<rparr> = set_spool x (q\<lparr>accepted := a\<rparr>)"
  "(set_spool x q)\<lparr>todo := ns\<rparr> = set_spool x (q\<lparr>todo := ns\<rparr>)"
  "(set_spool x q)\<lparr>pending := p\<rparr> = set_spool x (q\<lparr>pending := p\<rparr>)"
  by (simp_all add: notify_def set_outbox_def set_spool_def)

lemma queue_ok_persisted:
  assumes ok: "queue_ok q" and ex: "exec (Persisted db fault m) q = Some q'"
  shows "queue_ok q'"
proof -
  have mint: "may_mint q m" using ex by (auto split: if_splits)
  define q0 where "q0 = q\<lparr>minted := minted q @ [m]\<rparr>"
  define q1 where "q1 = (if db = DbErr then q0 else q0\<lparr>table := fst (inb_insert (table q0) m)\<rparr>)"
  define q2 where "q2 = q1\<lparr>spool := fst (spool_write fault (spool q1) m)\<rparr>"
  have q0: "queue_ok q0" "m \<in> set (minted q0)"
    using queue_ok_mint [OF ok mint] by (simp_all add: q0_def)
  then have "genuine (minted q0) m" by (auto simp: genuine_def same_text_def)
  with q0 have q1: "queue_ok q1" "m \<in> set (minted q1)"
    by (auto simp: q1_def queue_ok_insert)
  with queue_ok_spool_write have q2: "queue_ok q2" "m \<in> set (minted q2)"
    by (auto simp: q2_def)
  have st: "uid m \<in> kept_uids q1" if "db = DbOk"
    using that insert_uids [of "table q0" m] by (auto simp: q1_def kept_uids_def)
  have sp: "uid m \<in> file_uids q2" if "snd (spool_write fault (spool q1) m)"
    using that by (auto simp: q2_def file_uids_def spool_write_def Let_def split: if_splits)
      (metis inbound_message.select_convs(2) inbound_message.surjective inbound_message.update_convs(1))
  have acc: "queue_ok (q1\<lparr>accepted := accepted q1 @ [m]\<rparr>)" if "db = DbOk"
    using queue_ok_accept [OF q1] st [OF that] by simp
  have acc': "queue_ok (q2\<lparr>accepted := accepted q2 @ [m]\<rparr>)" if "snd (spool_write fault (spool q1) m)"
    using queue_ok_accept [OF q2] sp [OF that] by simp
  have fields: "accepted q1 = accepted q" "accepted q2 = accepted q" "accepted q0 = accepted q"
    by (simp_all add: q2_def q1_def q0_def)
  have step: "q' = (case persist db fault m q0 of (q', r) \<Rightarrow>
      if r = Refused then q' else q'\<lparr>accepted := accepted q @ [m]\<rparr>)"
    using ex mint by (simp add: q0_def split: prod.splits if_splits)
  have p: "persist db fault m q0 =
      (if db = DbOk
       then (notify (if snd (inb_insert (table q0) m) then set_outbox (outbox_depth q0 + 1) q1 else q1), Stored)
       else if \<not> spool_on q0 then (q1, Refused)
       else if snd (spool_write fault (spool q1) m) then (set_spool (spool_depth q0 + 1) q2, Spooled)
       else (q2, Refused))"
    by (simp add: persist_def Let_def q1_def q2_def)
  show ?thesis
    unfolding step p using q1 q2 acc acc' fields by simp
qed

lemma queue_ok_todo:
  assumes "queue_ok q" "\<forall>n \<in> set ns. has_suffix n spool_ext"
  shows "queue_ok (q\<lparr>todo := ns\<rparr>)"
  using assms by (simp add: queue_ok_def queue_invariants queue_views)

lemma queue_ok_pending:
  assumes "queue_ok q" "\<And>n. p = Some n \<Longrightarrow> \<exists>m \<in> set (minted q). name_for m n \<and> uid m \<in> kept_uids q"
  shows "queue_ok (q\<lparr>pending := p\<rparr>)"
  using assms by (simp add: queue_ok_def queue_invariants queue_views)

lemma queue_ok_todoD: "queue_ok q \<Longrightarrow> n \<in> set (todo q) \<Longrightarrow> has_suffix n spool_ext"
  by (simp add: queue_ok_def drain_ok_def)

lemma queue_ok_drain_listed:
  assumes "queue_ok q" "exec DrainListed q = Some q'"
  shows "queue_ok q'"
  using assms by (auto simp: drain_list_def Let_def spool_list_def intro!: queue_ok_todo split: if_splits)

lemma drain_insert_ok:
  assumes ok: "queue_ok q" and n: "has_suffix n spool_ext"
    and r: "drain_insert a n q = (q', r)"
  shows "queue_ok q' \<and> todo q' = todo q \<and> minted q' = minted q
    \<and> (r = FileInserted \<longrightarrow> (\<exists>m \<in> set (minted q). name_for m n \<and> uid m \<in> kept_uids q'))"
proof (cases "spool_read (read_ok a) (spool q) n")
  case None
  let ?Q = "spool_quarantine (rename_ok a) (spool q) n"
  have "q' = (if snd ?Q then set_spool (spool_depth q - 1)
      (q\<lparr>spool := fst ?Q, set_aside := set_aside q @ file_uid (spool q) n\<rparr>) else q) \<and> r = FileSkipped"
    using r None by (auto simp: drain_insert_def Let_def split: if_splits)
  then show ?thesis using queue_ok_quarantine [OF ok n, of "rename_ok a"] ok
    by (auto simp: set_spool_def [of _ q'] set_spool_def)
next
  case (Some f)
  note T = stored_okD [OF queue_okD(1) [OF ok]]
  have "(n, Parsed f) \<in> set (files (spool q))"
    using Some by (auto simp: spool_read_def split: if_splits option.splits spool_file.splits dest: map_of_SomeD)
  then obtain m where m: "m \<in> set (minted q)" "name_for m n" "f = m\<lparr>msg_id := 0\<rparr>"
    using T(6) by (force simp: file_ok_def)
  let ?q = "q\<lparr>table := fst (inb_insert (table q) f)\<rparr>"
  have "genuine (minted q) f"
    using m(1,3) same_text_unnumbered unfolding genuine_def by blast
  with queue_ok_insert [OF ok] have ins: "queue_ok ?q" by blast
  have "uid m \<in> kept_uids ?q"
    using insert_uids [of "table q" f] m(3) by (auto simp: kept_uids_def)
  then have "uid m \<in> kept_uids (set_outbox x ?q)" "uid m \<in> kept_uids ?q" for x
    by (simp_all add: kept_uids_def set_outbox_def)
  moreover have "(q' = q \<or> q' = ?q) \<and> r = DrainStops
      \<or> (q' = ?q \<or> q' = set_outbox (outbox_depth q + 1) ?q) \<and> r = FileInserted"
    using r Some by (auto simp: drain_insert_def Let_def split: db_outcome.splits if_splits)
  moreover have "todo (set_outbox x ?q) = todo q" "minted (set_outbox x ?q) = minted q" for x
    by (simp_all add: set_outbox_def)
  ultimately show ?thesis using ok ins m(1,2) by (elim disjE conjE) auto
qed

lemma queue_ok_drain_read:
  assumes ok: "queue_ok q" and ex: "exec (DrainRead a) q = Some q'"
  shows "queue_ok q'"
proof -
  obtain n ns where n: "todo q = n # ns" "pending q = None"
    using ex by (auto split: list.splits option.splits)
  obtain q1 r where r: "drain_insert a n q = (q1, r)" by fastforce
  have suf: "has_suffix n spool_ext" "\<forall>x \<in> set ns. has_suffix x spool_ext"
    using queue_ok_todoD [OF ok] n(1) by simp_all
  note D = drain_insert_ok [OF ok suf(1) r]
  have "q' = (case r of FileSkipped \<Rightarrow> q1\<lparr>todo := ns\<rparr>
      | FileInserted \<Rightarrow> q1\<lparr>todo := ns, pending := Some n\<rparr> | DrainStops \<Rightarrow> q1\<lparr>todo := []\<rparr>)"
    using ex n r by (auto split: drain_file.splits)
  moreover have "queue_ok (q1\<lparr>todo := ns\<rparr>)" "queue_ok (q1\<lparr>todo := []\<rparr>)"
    using D suf(2) by (auto intro: queue_ok_todo)
  moreover have "queue_ok (q1\<lparr>todo := ns, pending := Some n\<rparr>)" if "r = FileInserted"
    using D that \<open>queue_ok (q1\<lparr>todo := ns\<rparr>)\<close>
    by (intro queue_ok_pending) (auto simp: kept_uids_def)
  ultimately show ?thesis by (cases r) auto
qed

lemma queue_ok_drain_removed:
  assumes ok: "queue_ok q" and ex: "exec (DrainRemoved i) q = Some q'"
  shows "queue_ok q'"
proof -
  obtain n where n: "pending q = Some n" using ex by (auto split: option.splits)
  then obtain m where m: "m \<in> set (minted q)" "name_for m n" "uid m \<in> kept_uids q"
    using ok by (auto simp: queue_ok_def drain_ok_def)
  have "queue_ok (drain_remove i n q)"
    using queue_ok_remove [OF ok m, of i] ok by (simp add: drain_remove_def Let_def)
  then have "queue_ok ((drain_remove i n q)\<lparr>pending := None\<rparr>)" by (rule queue_ok_pending) simp
  then show ?thesis using ex n by simp
qed

lemma in_hand_heads:
  assumes "table_ok (table q)" "\<forall>m \<in> set (rows (table q)). genuine (minted q) m"
    and "m \<in> set (inb_heads (table q) k)"
  shows "in_hand_ok q (m, next_id (table q))"
  using assms inb.head_none_before [OF assms(1,3)] inb.head_waiting [OF assms(1,3)]
    table_ok_below [OF assms(1)] table_ok_msg_id [OF assms(1)]
  by (auto simp: in_hand_ok_def)

lemma queue_ok_heads_read:
  assumes ok: "queue_ok q" and ex: "exec (HeadsRead c) q = Some q'"
  shows "queue_ok q'"
proof -
  let ?q = "q\<lparr>snapshot := Some (inb_heads (table q) batch_size, next_id (table q))\<rparr>"
  note S = queue_okD [OF ok] and T = stored_okD [OF queue_okD(1) [OF ok]]
  have heads: "in_hand_ok q (m, next_id (table q))"
    if "m \<in> set (inb_heads (table q) batch_size)" for m
    by (rule in_hand_heads [OF T(1) _ that]) (use T(4) in blast)
  have same: "in_hand_ok ?q e = in_hand_ok q e" for e by (simp add: in_hand_ok_def)
  have "batches_ok ?q"
    using S(2) heads by (auto simp: batches_ok_def batch_rows_def same)
  then have "queue_ok ?q"
    using S by (simp add: queue_ok_def stored_ok_def slots_ok_def drain_ok_def accepted_ok_def
        file_uids_def kept_uids_def busy_key_def)
  moreover have "q' = ?q \<or> (\<exists>x. q' = set_outbox x ?q)"
    using ex by (auto simp: heads_read_def Let_def split: if_splits)
  ultimately show ?thesis by auto
qed

text \<open>The pass: a state created or forgotten is an idle one, and a delivery starts for a row in
  hand whose portal has none.\<close>

lemma busy_state_of [simp]: "busy (state_of q k) = busy_key q k"
  by (simp add: state_of_def busy_key_def new_portal_state_def split: option.splits)

lemma put_state_same: "queue_ok (put_state k (state_of q k) q) = queue_ok q"
proof -
  have "busy_key (put_state k (state_of q k) q) = busy_key q"
    by (rule ext) (simp add: put_state_def busy_key_def state_of_def new_portal_state_def
        split: option.splits)
  then show ?thesis
    by (simp add: queue_ok_def queue_invariants file_uids_def kept_uids_def batch_rows_def
        in_hand_ok_def put_state_def)
qed

lemma in_hand_frame [simp]:
  "in_hand_ok (put_state k st q) e = in_hand_ok q e"
  "in_hand_ok (start_delivery h row q) e = in_hand_ok q e"
  by (simp_all add: in_hand_ok_def put_state_def start_delivery_def)

lemma queue_ok_start:
  assumes ok: "queue_ok q" and row: "in_hand_ok q (row, h)"
    and idle: "\<not> busy_key q (portal_key row)" and room: "sem q < max_parallel"
  shows "queue_ok (start_delivery h row q)"
proof (rule queue_okI)
  let ?q = "start_delivery h row q"
  note S = queue_okD [OF ok]
  show "stored_ok ?q" using S(1) by (simp add: stored_ok_def start_delivery_def put_state_def)
  have "set (batch_rows ?q) = insert (row, h) (set (batch_rows q))"
    by (auto simp: batch_rows_def start_delivery_def put_state_def)
  then show "batches_ok ?q" using S(2) row by (simp add: batches_ok_def)
  have k: "active_keys (inflight ?q) = active_keys (inflight q) @ [portal_key row]"
    by (simp add: active_keys_def start_delivery_def is_active_def)
  have b: "busy_key ?q k = (k = portal_key row \<or> busy_key q k)" for k
    by (simp add: busy_key_def start_delivery_def put_state_def)
  have "sem ?q = length (inflight ?q)" "sem ?q \<le> max_parallel"
    using S(3) room by (simp_all add: slots_ok_def start_delivery_def)
  then show "slots_ok ?q"
    using S(3) idle k b by (auto simp: slots_ok_def)
  show "drain_ok ?q"
    using S(4) by (simp add: drain_ok_def kept_uids_def start_delivery_def put_state_def)
  show "accepted_ok ?q"
    using S(5) by (simp add: accepted_ok_def kept_uids_def file_uids_def start_delivery_def put_state_def)
qed

lemma queue_ok_spawn:
  "queue_ok q \<Longrightarrow> \<forall>m \<in> set rs. in_hand_ok q (m, h) \<Longrightarrow>
   queue_ok (fst (spawn_loop now h cancel rs seen soonest q))"
proof (induction rs arbitrary: cancel seen soonest q)
  case (Cons row rs)
  let ?k = "portal_key row"
  let ?q = "put_state ?k (state_of q ?k) q"
  have q: "queue_ok ?q" "\<forall>m \<in> set rs. in_hand_ok ?q (m, h)" "in_hand_ok ?q (row, h)"
    using Cons.prems by (simp_all add: put_state_same)
  have "queue_ok (start_delivery h row ?q)"
    if "\<not> busy_key q ?k" "sem q < max_parallel"
  proof (rule queue_ok_start [OF q(1,3)])
    show "\<not> busy_key ?q ?k" using that(1)
      by (simp add: put_state_def busy_key_def [of "q\<lparr>portals := p\<rparr>" for p])
    show "sem ?q < max_parallel" using that(2) by (simp add: put_state_def)
  qed
  with q Cons.IH [OF q(1,2)] Cons.IH [of "start_delivery h row ?q"] show ?case
    by (simp add: Let_def Cons.prems)
qed simp

lemma queue_ok_forget: "queue_ok (forget_idle seen q) = queue_ok q"
proof -
  have "busy_key (forget_idle seen q) = busy_key q"
    by (rule ext) (simp add: forget_idle_def busy_key_def split: option.splits)
  then show ?thesis
    by (simp add: queue_ok_def queue_invariants file_uids_def kept_uids_def batch_rows_def
        in_hand_ok_def forget_idle_def)
qed

lemma queue_ok_no_snapshot: "queue_ok q \<Longrightarrow> queue_ok (q\<lparr>snapshot := None\<rparr>)"
  by (simp add: queue_ok_def queue_invariants queue_views)

lemma queue_ok_deliver_pass:
  assumes "queue_ok q" "\<forall>m \<in> set rs. in_hand_ok q (m, h)"
  shows "queue_ok (fst (deliver_pass now cancel rs h q))"
  using queue_ok_spawn [OF assms] by (simp add: deliver_pass_def queue_ok_forget split: prod.split)
   (metis fst_conv)

lemma queue_ok_pass_run:
  assumes ok: "queue_ok q" and ex: "exec (PassRun now cancel) q = Some q'"
  shows "queue_ok q'"
proof -
  obtain rs h where s: "snapshot q = Some (rs, h)"
    and q': "q' = (fst (deliver_pass now cancel rs h q))\<lparr>snapshot := None\<rparr>"
    using ex by (auto split: option.splits)
  have "\<forall>m \<in> set rs. in_hand_ok q (m, h)"
    using ok s by (auto simp: queue_ok_def batches_ok_def batch_rows_def)
  then show ?thesis
    unfolding q' by (intro queue_ok_no_snapshot queue_ok_deliver_pass ok)
qed

text \<open>The steps of a delivery: the flight stands between the ones before it and after it.\<close>

lemma at_stageE:
  assumes "at_stage q i ss"
  obtains xs f ys where "inflight q = xs @ f # ys" "i = length xs" "f_stage f \<in> set ss"
  using assms id_take_nth_drop [of i "inflight q"] unfolding at_stage_def
  by (metis length_take min.absorb4)

lemma set_stage_split:
  assumes "inflight q = xs @ f # ys" "i = length xs"
  shows "set_stage i s q = q\<lparr>inflight := xs @ f\<lparr>f_stage := s\<rparr> # ys\<rparr>"
  using assms by (simp add: set_stage_def)

lemma active_keys_split:
  "active_keys (xs @ f # ys) =
     active_keys xs @ (if is_active f then [portal_key (f_row f)] else []) @ active_keys ys"
  by (simp add: active_keys_def)

lemma is_active_stage [simp]:
  "is_active (f\<lparr>f_stage := s\<rparr>) = (s \<in> {Delivering, Deleting, Failed, Finished})"
  by (simp add: is_active_def)

lemma batch_rows_stage:
  assumes "inflight q = xs @ f # ys"
  shows "batch_rows (q\<lparr>inflight := xs @ f\<lparr>f_stage := s\<rparr> # ys\<rparr>) = batch_rows q"
  using assms by (simp add: batch_rows_def)

text \<open>Moving a flight on while its portal stays busy.\<close>

lemma queue_ok_set_stage:
  assumes ok: "queue_ok q" and at: "inflight q = xs @ f # ys" and act: "is_active f"
    and s: "s \<in> {Delivering, Deleting, Failed, Finished}"
    and del: "s \<in> {Deleting, Finished} \<Longrightarrow> uid (f_row f) \<in> uid ` set (matrix q)"
  shows "queue_ok (q\<lparr>inflight := xs @ f\<lparr>f_stage := s\<rparr> # ys\<rparr>)"
proof (rule queue_okI)
  let ?q = "q\<lparr>inflight := xs @ f\<lparr>f_stage := s\<rparr> # ys\<rparr>"
  note S = queue_okD [OF ok]
  show "stored_ok ?q" using S(1) by (simp add: stored_ok_def)
  show "batches_ok ?q"
    using S(2) batch_rows_stage [OF at, of s] by (simp add: batches_ok_def in_hand_ok_def)
  have "active_keys (xs @ f\<lparr>f_stage := s\<rparr> # ys) = active_keys (inflight q)"
    using act s by (simp add: at active_keys_split)
  then show "slots_ok ?q" using S(3) at by (simp add: slots_ok_def busy_key_def)
  show "drain_ok ?q" using S(4) by (simp add: drain_ok_def kept_uids_def)
  show "accepted_ok ?q"
    using S(5) at s del by (auto simp: accepted_ok_def kept_uids_def file_uids_def)
qed

lemma queue_ok_matrix:
  assumes ok: "queue_ok q" and m: "genuine (minted q) m"
  shows "queue_ok (q\<lparr>matrix := matrix q @ [m]\<rparr>)"
proof (rule queue_okI)
  let ?q = "q\<lparr>matrix := matrix q @ [m]\<rparr>"
  note S = queue_okD [OF ok]
  have k: "kept_uids ?q = insert (uid m) (kept_uids q)" by (auto simp: kept_uids_def)
  show "stored_ok ?q" using S(1) m by (auto simp: stored_ok_def)
  show "batches_ok ?q" using S(2) by (simp add: batches_ok_def batch_rows_def in_hand_ok_def)
  show "slots_ok ?q" using S(3) by (simp add: slots_ok_def busy_key_def)
  show "drain_ok ?q" using S(4) k by (fastforce simp: drain_ok_def)
  show "accepted_ok ?q" using S(5) k by (simp add: accepted_ok_def file_uids_def)
qed

lemma in_hand_inflight:
  assumes "queue_ok q" "f \<in> set (inflight q)"
  shows "in_hand_ok q (f_row f, f_horizon f)"
  using assms by (auto simp: queue_ok_def batches_ok_def batch_rows_def)

lemma queue_ok_delivered:
  assumes ok: "queue_ok q" and ex: "exec (Delivered i r) q = Some q'"
  shows "queue_ok q'"
proof -
  have "at_stage q i [Delivering]" and q': "q' = flight_delivered i r q"
    using ex by (auto split: if_splits)
  from this(1) obtain xs f ys where at: "inflight q = xs @ f # ys" "i = length xs"
    and f: "f_stage f = Delivering" by (rule at_stageE) auto
  have g: "genuine (minted q) (f_row f)"
    using in_hand_inflight [OF ok, of f] at(1) by (simp add: in_hand_ok_def)
  let ?q1 = "q\<lparr>matrix := matrix q @ [f_row f]\<rparr>"
  note q1 = queue_ok_matrix [OF ok g]
  have act: "is_active f" using f by (simp add: is_active_def)
  have eq: "q' = (if r = DeliverErr then q\<lparr>inflight := xs @ f\<lparr>f_stage := Failed\<rparr> # ys\<rparr>
      else ?q1\<lparr>inflight := xs @ f\<lparr>f_stage := if r = InMatrix then Deleting else Failed\<rparr> # ys\<rparr>)"
    using at by (simp add: q' flight_delivered_def Let_def set_stage_def)
  show ?thesis
  proof (cases "r = DeliverErr")
    case True
    then show ?thesis using queue_ok_set_stage [OF ok at(1) act, of Failed] eq by simp
  next
    case False
    then show ?thesis
      using queue_ok_set_stage [OF q1, of xs f ys "if r = InMatrix then Deleting else Failed"]
        at(1) act eq by simp
  qed
qed

lemma queue_ok_delete:
  assumes ok: "queue_ok q" and g: "in_hand_ok q (row, h)" and m: "uid row \<in> uid ` set (matrix q)"
  shows "queue_ok (q\<lparr>table := inb_delete (table q) (msg_id row)\<rparr>)"
proof (rule queue_okI)
  let ?q = "q\<lparr>table := inb_delete (table q) (msg_id row)\<rparr>"
  note S = queue_okD [OF ok] and T = stored_okD [OF queue_okD(1) [OF ok]]
  show "stored_ok ?q" using S(1) by (auto simp: stored_ok_def)
  have "in_hand_ok ?q e" if "in_hand_ok q e" for e
    using that inb.none_before_delete [OF T(1)] by (auto simp: in_hand_ok_def)
  then show "batches_ok ?q" using S(2) by (simp add: batches_ok_def batch_rows_def)
  show "slots_ok ?q" using S(3) by (simp add: slots_ok_def busy_key_def)
  have gone: "a = row" if "a \<in> set (rows (table q))" "msg_id a = msg_id row" for a
    using g that by (simp add: in_hand_ok_def)
  have k: "kept_uids ?q = kept_uids q"
    using gone m by (auto simp: kept_uids_def)
  show "drain_ok ?q" using S(4) k by (simp add: drain_ok_def)
  show "accepted_ok ?q" using S(5) k by (simp add: accepted_ok_def file_uids_def)
qed

lemma queue_ok_deleted:
  assumes ok: "queue_ok q" and ex: "exec (Deleted i db) q = Some q'"
  shows "queue_ok q'"
proof -
  have "at_stage q i [Deleting]" and q': "q' = flight_deleted i db q"
    using ex by (auto split: if_splits)
  from this(1) obtain xs f ys where at: "inflight q = xs @ f # ys" "i = length xs"
    and f: "f_stage f = Deleting" by (rule at_stageE) auto
  have m: "uid (f_row f) \<in> uid ` set (matrix q)"
    using ok at(1) f by (auto simp: queue_ok_def accepted_ok_def)
  let ?q1 = "q\<lparr>table := inb_delete (table q) (msg_id (f_row f))\<rparr>"
  have q1: "queue_ok ?q1"
    using queue_ok_delete [OF ok in_hand_inflight [OF ok] m] at(1) by simp
  have act: "is_active f" using f by (simp add: is_active_def)
  have st: "queue_ok (?q1\<lparr>inflight := xs @ f\<lparr>f_stage := s\<rparr> # ys\<rparr>)" if "s \<in> {Failed, Finished}" for s
    using queue_ok_set_stage [OF q1, of xs f ys s] at(1) act m that by auto
  have "q' = (if db = DbErr then q\<lparr>inflight := xs @ f\<lparr>f_stage := Failed\<rparr> # ys\<rparr>
      else if db = DbOk then set_outbox (outbox_depth q - 1) (?q1\<lparr>inflight := xs @ f\<lparr>f_stage := Finished\<rparr> # ys\<rparr>)
      else ?q1\<lparr>inflight := xs @ f\<lparr>f_stage := Failed\<rparr> # ys\<rparr>)"
    using at by (cases db) (simp_all add: q' flight_deleted_def Let_def set_stage_def set_outbox_def)
  then show ?thesis
    using st queue_ok_set_stage [OF ok at(1) act, of Failed] by (cases db) simp_all
qed

text \<open>The locked section frees the portal as the flight stops being active.\<close>

lemma queue_ok_free:
  assumes ok: "queue_ok q" and at: "inflight q = xs @ f # ys" and act: "is_active f"
    and st: "\<And>st. ps (portal_key (f_row f)) = Some st \<Longrightarrow> \<not> busy st"
    and others: "\<And>k. k \<noteq> portal_key (f_row f) \<Longrightarrow> ps k = portals q k"
  shows "queue_ok (q\<lparr>portals := ps, inflight := xs @ f\<lparr>f_stage := Notifying\<rparr> # ys\<rparr>)"
proof (rule queue_okI)
  let ?q = "q\<lparr>portals := ps, inflight := xs @ f\<lparr>f_stage := Notifying\<rparr> # ys\<rparr>"
  let ?k = "portal_key (f_row f)"
  note S = queue_okD [OF ok]
  show "stored_ok ?q" using S(1) by (simp add: stored_ok_def)
  have "batch_rows ?q = batch_rows q" using at by (simp add: batch_rows_def)
  then show "batches_ok ?q" using S(2) by (simp add: batches_ok_def in_hand_ok_def)
  have keys: "active_keys (inflight q) = active_keys xs @ ?k # active_keys ys"
    and keys': "active_keys (inflight ?q) = active_keys xs @ active_keys ys"
    using act by (simp_all add: at active_keys_split)
  have d: "distinct (active_keys xs @ ?k # active_keys ys)"
    and b: "\<And>k. busy_key q k = (k \<in> set (active_keys xs @ ?k # active_keys ys))"
    using S(3) keys by (simp_all add: slots_ok_def)
  have "busy_key ?q k = (k \<in> set (active_keys xs @ active_keys ys))" for k
  proof (cases "k = ?k")
    case True
    then show ?thesis using st d by (auto simp: busy_key_def split: option.splits)
  next
    case False
    then have "busy_key ?q k = busy_key q k" using others by (simp add: busy_key_def)
    then show ?thesis using b False by auto
  qed
  moreover have "distinct (active_keys xs @ active_keys ys)" using d by auto
  ultimately show "slots_ok ?q" using S(3) at keys' by (simp add: slots_ok_def)
  show "drain_ok ?q" using S(4) by (simp add: drain_ok_def kept_uids_def)
  show "accepted_ok ?q"
    using S(5) at by (auto simp: accepted_ok_def kept_uids_def file_uids_def)
qed

lemma settled_some:
  assumes ok: "queue_ok q" and at: "at_stage q i [Failed, Finished]"
  shows "\<exists>q'. flight_settled i now c q = Some q' \<and> queue_ok q'"
proof -
  obtain xs f ys where s: "inflight q = xs @ f # ys" "i = length xs"
    and f: "f_stage f \<in> {Failed, Finished}" using at by (rule at_stageE) auto
  have act: "is_active f" using f by (auto simp: is_active_def)
  have nth: "inflight q ! i = f" using s by simp
  let ?k = "portal_key (f_row f)"
  have "?k \<in> set (active_keys (inflight q))" using act by (simp add: s active_keys_split)
  then have "busy_key q ?k" using ok by (simp add: queue_ok_def slots_ok_def)
  then obtain st where st: "portals q ?k = Some st" by (auto simp: busy_key_def split: option.splits)
  have free: "queue_ok (set_stage i Notifying (q\<lparr>portals := (portals q)(?k := v)\<rparr>))"
    if "v = None \<or> (\<exists>st. v = Some st \<and> \<not> busy st)" for v
    using queue_ok_free [OF ok s(1) act, of "(portals q)(?k := v)"] that s
    by (auto simp: set_stage_def)
  show ?thesis
    using free [of None] free [of "Some (st\<lparr>busy := False\<rparr>)"]
      free [of "Some (st\<lparr>busy := False, failures := failures st + 1,
        retry_at := Some (now + backoff (backoff_min q) (backoff_max q) (failures st + 1))\<rparr>)"]
    by (simp add: flight_settled_def Let_def nth st put_state_def)
qed

lemma queue_ok_settled:
  assumes ok: "queue_ok q" and ex: "exec (Settled i now c) q = Some q'"
  shows "queue_ok q'"
proof -
  have "at_stage q i [Failed, Finished]" "flight_settled i now c q = Some q'"
    using ex by (auto split: if_splits)
  then show ?thesis using settled_some [OF ok, of i now c] by auto
qed

lemma queue_ok_notified:
  assumes ok: "queue_ok q" and ex: "exec (Notified i) q = Some q'"
  shows "queue_ok q'"
proof -
  have "at_stage q i [Notifying]" and q': "q' = notify (set_stage i Releasing q)"
    using ex by (auto split: if_splits)
  from this(1) obtain xs f ys where at: "inflight q = xs @ f # ys" "i = length xs"
    and f: "f_stage f = Notifying" by (rule at_stageE) auto
  let ?q = "q\<lparr>inflight := xs @ f\<lparr>f_stage := Releasing\<rparr> # ys\<rparr>"
  note S = queue_okD [OF ok]
  have "active_keys (inflight ?q) = active_keys (inflight q)"
    using f by (simp add: at active_keys_split is_active_def)
  then have "slots_ok ?q" using S(3) at by (simp add: slots_ok_def busy_key_def)
  moreover have "batches_ok ?q"
    using S(2) batch_rows_stage [OF at(1), of Releasing] by (simp add: batches_ok_def in_hand_ok_def)
  moreover have "accepted_ok ?q"
    using S(5) at by (auto simp: accepted_ok_def kept_uids_def file_uids_def)
  ultimately have "queue_ok ?q"
    using S(1,4) by (simp add: queue_ok_def stored_ok_def drain_ok_def kept_uids_def)
  then show ?thesis using set_stage_split [OF at] by (simp add: q')
qed

lemma queue_ok_released:
  assumes ok: "queue_ok q" and ex: "exec (Released i) q = Some q'"
  shows "queue_ok q'"
proof -
  have "at_stage q i [Releasing]" and q': "q' = flight_released i q"
    using ex by (auto split: if_splits)
  from this(1) obtain xs f ys where at: "inflight q = xs @ f # ys" "i = length xs"
    and f: "f_stage f = Releasing" by (rule at_stageE) auto
  have q'': "q' = q\<lparr>sem := sem q - 1, inflight := xs @ ys\<rparr>"
    using at by (simp add: q' flight_released_def)
  note S = queue_okD [OF ok]
  have "active_keys (xs @ ys) = active_keys (inflight q)"
    using f by (simp add: at active_keys_def is_active_def)
  then have "slots_ok q'" using S(3) at by (simp add: q'' slots_ok_def busy_key_def)
  moreover have "set (batch_rows q') \<subseteq> set (batch_rows q)"
    using at by (auto simp: q'' batch_rows_def)
  then have "batches_ok q'" using S(2) by (auto simp: q'' batches_ok_def in_hand_ok_def)
  moreover have "accepted_ok q'"
    using S(5) at by (simp add: q'' accepted_ok_def kept_uids_def file_uids_def)
  ultimately show ?thesis
    using S(1,4) by (simp add: q'' queue_ok_def stored_ok_def drain_ok_def kept_uids_def)
qed

lemma queue_ok_crashed:
  assumes ok: "queue_ok q"
  shows "queue_ok (after_crash q)"
proof (rule queue_okI)
  note S = queue_okD [OF ok]
  show "stored_ok (after_crash q)"
    using S(1) by (simp add: stored_ok_def after_crash_def new_queue_def spool_ok_def)
  show "batches_ok (after_crash q)" by (simp add: batches_ok_def batch_rows_def after_crash_def new_queue_def)
  show "slots_ok (after_crash q)"
    by (simp add: slots_ok_def busy_key_def after_crash_def new_queue_def active_keys_def)
  show "drain_ok (after_crash q)" by (simp add: drain_ok_def after_crash_def new_queue_def)
  show "accepted_ok (after_crash q)"
    using S(5) by (simp add: accepted_ok_def kept_uids_def file_uids_def after_crash_def new_queue_def)
qed

lemma exec_keeps:
  assumes "queue_ok q" "exec e q = Some q'"
  shows "queue_ok q'"
proof (cases e)
  case LoopWoken
  with assms show ?thesis by (auto split: if_splits)
next
  case Crashed
  with assms queue_ok_crashed show ?thesis by auto
next
  case (Persisted d f m)
  with assms(2) show ?thesis using queue_ok_persisted [OF assms(1)] by blast
next
  case DrainListed
  with assms(2) show ?thesis using queue_ok_drain_listed [OF assms(1)] by blast
next
  case (DrainRead a)
  with assms(2) show ?thesis using queue_ok_drain_read [OF assms(1)] by blast
next
  case (DrainRemoved b)
  with assms(2) show ?thesis using queue_ok_drain_removed [OF assms(1)] by blast
next
  case (HeadsRead b)
  with assms(2) show ?thesis using queue_ok_heads_read [OF assms(1)] by blast
next
  case (PassRun n c)
  with assms(2) show ?thesis using queue_ok_pass_run [OF assms(1)] by blast
next
  case (Delivered i r)
  with assms(2) show ?thesis using queue_ok_delivered [OF assms(1)] by blast
next
  case (Deleted i d)
  with assms(2) show ?thesis using queue_ok_deleted [OF assms(1)] by blast
next
  case (Settled i n c)
  with assms(2) show ?thesis using queue_ok_settled [OF assms(1)] by blast
next
  case (Notified i)
  with assms(2) show ?thesis using queue_ok_notified [OF assms(1)] by blast
next
  case (Released i)
  with assms(2) show ?thesis using queue_ok_released [OF assms(1)] by blast
qed

lemma reachable_ok: "reachable w q \<Longrightarrow> queue_ok q"
  by (induction rule: reachable.induct) (auto intro: queue_ok_new exec_keeps)

declare busy_state_of [simp del]

text \<open>Where a text can still be found: a row, a Matrix event, a spool file that reads back as it, or
  a spool file that was set aside.\<close>

definition survives :: "queue \<Rightarrow> inbound_message \<Rightarrow> bool" where
  "survives q m =
     ((\<exists>r \<in> set (rows (table q)). same_text r m)
      \<or> (\<exists>r \<in> set (matrix q). same_text r m)
      \<or> (\<exists>n \<in> set (spool_list (spool q)). spool_read True (spool q) n = Some (m\<lparr>msg_id := 0\<rparr>))
      \<or> (uid m \<in> set (set_aside q)
          \<and> (\<exists>n. (n @ bad_ext, Parsed (m\<lparr>msg_id := 0\<rparr>)) \<in> set (files (spool q)))))"

lemma accepted_survives:
  assumes "reachable w q" "m \<in> set (accepted q)"
  shows "survives q m"
proof -
  note ok = reachable_ok [OF assms(1)]
  note S = queue_okD [OF ok] and T = stored_okD [OF queue_okD(1) [OF ok]]
  have m: "m \<in> set (minted q)" "uid m \<in> kept_uids q \<union> file_uids q" and ne: "uid m \<noteq> []"
    using S(5) assms(2) T(3) by (auto simp: accepted_ok_def minted_ok_def)
  have gen: "same_text r m" if "r \<in> set (rows (table q)) \<union> set (matrix q)" "uid r = uid m" for r
    using genuine_uid_same [OF T(3) _ m(1) that(2)] that(1) T(4,5) by blast
  show ?thesis
  proof (cases "uid m \<in> kept_uids q")
    case True
    then have "uid m \<in> uid ` (set (rows (table q)) \<union> set (matrix q))"
      by (simp add: kept_uids_def image_Un)
    then obtain r where "uid m = uid r" "r \<in> set (rows (table q)) \<union> set (matrix q)"
      by (rule imageE)
    then show ?thesis using gen [of r] unfolding survives_def by auto
  next
    case False
    then obtain n f where nf: "(n, Parsed f) \<in> set (files (spool q))" "uid f = uid m"
      using m(2) by (auto simp: file_uids_def)
    obtain o' where o': "o' \<in> set (minted q)" "name_for o' n" "f = o'\<lparr>msg_id := 0\<rparr>"
      using T(6) [OF nf(1)] by (auto simp: file_ok_def)
    have "uid o' = uid m" using o'(3) nf(2) by simp
    then have om: "o' = m"
      using T(3) o'(1) m(1) by (auto simp: minted_ok_def intro: distinct_map_inj)
    show ?thesis
    proof (cases "has_suffix n spool_ext")
      case True
      then obtain i where n: "n = spool_name m i" using name_for_json o'(2) om by blast
      then have "n \<in> set (spool_list (spool q))"
        using nf(1) spool_name_not_tmp by (auto simp: spool_list_def intro: rev_image_eqI)
      moreover have "map_of (files (spool q)) n = Some (Parsed f)"
        using T(2) nf(1) by (simp add: spool_ok_def)
      then have "spool_read True (spool q) n = Some (m\<lparr>msg_id := 0\<rparr>)"
        using o'(3) om ne by (simp add: spool_read_def)
      ultimately show ?thesis unfolding survives_def by blast
    next
      case False
      then have "has_suffix n bad_ext" using name_for_not_json o'(2) by blast
      then have "uid f \<in> set (set_aside q)"
        using S(5) nf(1) unfolding accepted_ok_def by blast
      moreover obtain n' where "n = n' @ bad_ext"
        using \<open>has_suffix n bad_ext\<close> by (auto simp: has_suffix_iff)
      ultimately show ?thesis using nf o'(3) om unfolding survives_def by auto
    qed
  qed
qed

text \<open>No step withdraws an acceptance.\<close>

lemma accepted_fields [simp]:
  "accepted (put_state k st q) = accepted q"
  "accepted (start_delivery h row q) = accepted q"
  "accepted (set_stage i s q) = accepted q"
  "accepted (set_outbox n q) = accepted q"
  "accepted (set_spool n q) = accepted q"
  "accepted (notify q) = accepted q"
  "accepted (forget_idle seen q) = accepted q"
  "accepted (flight_released i q) = accepted q"
  by (simp_all add: put_state_def start_delivery_def set_stage_def set_outbox_def set_spool_def notify_def
      forget_idle_def flight_released_def)

lemma spawn_loop_accepted: "accepted (fst (spawn_loop now h c rs seen so q)) = accepted q"
  by (induction now h c rs seen so q rule: spawn_loop.induct) (simp_all add: Let_def)

lemma accepted_steps [simp]:
  "accepted (fst (persist db fault m q)) = accepted q"
  "accepted (fst (drain_list q)) = accepted q"
  "accepted (fst (drain_insert a n q)) = accepted q"
  "accepted (drain_remove ok n q) = accepted q"
  "accepted (heads_read c q) = accepted q"
  "accepted (fst (deliver_pass now cancel heads h q)) = accepted q"
  "accepted (flight_delivered i r q) = accepted q"
  "accepted (flight_deleted i db q) = accepted q"
  "accepted (after_crash q) = accepted q"
proof -
  show "accepted (fst (deliver_pass now cancel heads h q)) = accepted q"
    using spawn_loop_accepted [of now h cancel heads "[]" None q]
    by (cases "spawn_loop now h cancel heads [] None q") (simp add: deliver_pass_def)
qed (simp_all add: persist_def drain_list_def drain_insert_def drain_remove_def heads_read_def
    flight_delivered_def flight_deleted_def after_crash_def Let_def split: option.split db_outcome.split)

lemma flight_settled_accepted: "flight_settled i now c q = Some q' \<Longrightarrow> accepted q' = accepted q"
  by (auto simp: flight_settled_def Let_def split: if_splits option.splits)

lemma exec_keeps_accepted:
  assumes "exec e q = Some q'"
  shows "set (accepted q) \<subseteq> set (accepted q')"
proof (cases e)
  case (DrainRead a)
  then show ?thesis
    using assms accepted_steps(3) [of a "hd (todo q)" q]
    by (cases "drain_insert a (hd (todo q)) q")
       (auto simp del: accepted_steps split: list.splits option.splits drain_file.splits)
next
  case (Persisted db fault m)
  then show ?thesis
    using assms accepted_steps(1) [of db fault m "q\<lparr>minted := minted q @ [m]\<rparr>"]
    by (auto simp del: accepted_steps split: if_splits prod.splits)
next
  case DrainListed
  then show ?thesis
    using assms accepted_steps(2) [of q] by (auto simp del: accepted_steps split: if_splits prod.splits)
qed (use assms in \<open>auto split: if_splits option.splits dest: flight_settled_accepted\<close>)

lemma run_keeps_accepted: "run_events es q = Some q' \<Longrightarrow> set (accepted q) \<subseteq> set (accepted q')"
  by (induction es arbitrary: q) (auto split: option.splits dest: exec_keeps_accepted)

lemma spool_on_fields [simp]:
  "spool_on (put_state k st q) = spool_on q"
  "spool_on (start_delivery h row q) = spool_on q"
  "spool_on (set_stage i s q) = spool_on q"
  "spool_on (set_outbox n q) = spool_on q"
  "spool_on (set_spool n q) = spool_on q"
  "spool_on (notify q) = spool_on q"
  "spool_on (forget_idle seen q) = spool_on q"
  "spool_on (flight_released i q) = spool_on q"
  by (simp_all add: put_state_def start_delivery_def set_stage_def set_outbox_def set_spool_def notify_def
      forget_idle_def flight_released_def)

lemma spawn_loop_spool_on: "spool_on (fst (spawn_loop now h c rs seen so q)) = spool_on q"
  by (induction now h c rs seen so q rule: spawn_loop.induct) (simp_all add: Let_def)

lemma spool_on_steps [simp]:
  "spool_on (fst (persist db fault m q)) = spool_on q"
  "spool_on (fst (drain_list q)) = spool_on q"
  "spool_on (fst (drain_insert a n q)) = spool_on q"
  "spool_on (drain_remove ok n q) = spool_on q"
  "spool_on (heads_read c q) = spool_on q"
  "spool_on (fst (deliver_pass now cancel heads h q)) = spool_on q"
  "spool_on (flight_delivered i r q) = spool_on q"
  "spool_on (flight_deleted i db q) = spool_on q"
  "spool_on (after_crash q) = spool_on q"
proof -
  show "spool_on (fst (deliver_pass now cancel heads h q)) = spool_on q"
    using spawn_loop_spool_on [of now h cancel heads "[]" None q]
    by (cases "spawn_loop now h cancel heads [] None q") (simp add: deliver_pass_def)
qed (simp_all add: persist_def drain_list_def drain_insert_def drain_remove_def heads_read_def
    flight_delivered_def flight_deleted_def after_crash_def new_queue_def Let_def split: option.split db_outcome.split)

lemma flight_settled_spool_on: "flight_settled i now c q = Some q' \<Longrightarrow> spool_on q' = spool_on q"
  by (auto simp: flight_settled_def Let_def split: if_splits option.splits)

text \<open>Whether there is a spool never changes.\<close>

lemma exec_spool_on:
  assumes "exec e q = Some q'"
  shows "spool_on q' = spool_on q"
proof (cases e)
  case (DrainRead a)
  then show ?thesis
    using assms spool_on_steps(3) [of a "hd (todo q)" q]
    by (cases "drain_insert a (hd (todo q)) q")
       (auto simp del: spool_on_steps split: list.splits option.splits drain_file.splits)
next
  case (Persisted db fault m)
  then show ?thesis
    using assms spool_on_steps(1) [of db fault m "q\<lparr>minted := minted q @ [m]\<rparr>"]
    by (auto simp del: spool_on_steps split: if_splits prod.splits)
next
  case DrainListed
  then show ?thesis
    using assms spool_on_steps(2) [of q] by (auto simp del: spool_on_steps split: if_splits prod.splits)
qed (use assms in \<open>auto split: if_splits option.splits dest: flight_settled_spool_on\<close>)

lemma reachable_spool_on: "reachable w q \<Longrightarrow> spool_on q = w"
  by (induction rule: reachable.induct) (auto simp: new_queue_def dest: exec_spool_on)

subsection \<open>Properties\<close>


text \<open>Two texts of a portal, the first handed to Matrix and its row deleted.\<close>

definition sample_run :: "event list" where
  "sample_run = [Persisted DbOk NoFault (sample_message ''a'' ''1'' 3000000),
     Persisted DbOk NoFault (sample_message ''b'' ''1'' 7000000), HeadsRead True, PassRun 0 None,
     Delivered 0 InMatrix, Deleted 0 DbOk]"

definition sample_queue :: queue where
  "sample_queue = (case run_events sample_run (new_queue True) of Some q \<Rightarrow> q | None \<Rightarrow> new_queue True)"

lemma sample_reachable: "reachable True sample_queue"
  using run_reachable [OF reachable.start]
  by (simp add: sample_queue_def reachable.start split: option.split)

lemma sample_accepted:
  "uid (hd (accepted sample_queue)) = ''a''" "accepted sample_queue \<noteq> []"
  by code_simp+


text \<open>C7: At most \<open>maxParallel\<close> deliveries run, one semaphore slot each; between its start and
  its locked section a delivery is the only one of its portal, whose state exists and is
  marked busy, so the locked section finds a state and never dereferences nil.\<close>

theorem deliveries_exclusive:
  assumes "reachable w q"
  shows "sem q = length (inflight q) \<and> sem q \<le> max_parallel
      \<and> (\<forall>i < length (inflight q). \<forall>j < length (inflight q).
            is_active (inflight q ! i) \<longrightarrow> is_active (inflight q ! j) \<longrightarrow>
            same_portal (f_row (inflight q ! i)) (f_row (inflight q ! j)) \<longrightarrow> i = j)
      \<and> (\<forall>i now c. at_stage q i [Failed, Finished] \<longrightarrow> exec (Settled i now c) q \<noteq> None)"
proof (intro conjI allI impI)
  note ok = reachable_ok [OF assms]
  have S: "slots_ok q" using queue_okD [OF ok] by blast
  then show "sem q = length (inflight q)" "sem q \<le> max_parallel" by (simp_all add: slots_ok_def)
  show "exec (Settled i now c) q \<noteq> None" if "at_stage q i [Failed, Finished]" for i now c
    using settled_some [OF ok that, of now c] that by auto
  fix i j assume ij: "i < length (inflight q)" "j < length (inflight q)"
    and act: "is_active (inflight q ! i)" "is_active (inflight q ! j)"
    and same: "same_portal (f_row (inflight q ! i)) (f_row (inflight q ! j))"
  have key: "portal_key (f_row (inflight q ! i)) = portal_key (f_row (inflight q ! j))"
    using same by (simp add: portal_key_def same_portal_def)
  have once: "\<not> (is_active (fs ! a) \<and> is_active (fs ! b)
      \<and> portal_key (f_row (fs ! a)) = portal_key (f_row (fs ! b)))"
    if d: "distinct (active_keys fs)" and ab: "a < b" "b < length fs" for fs a b
  proof -
    have "fs = take a fs @ fs ! a # drop (Suc a) fs" using ab by (simp add: id_take_nth_drop)
    moreover have "fs ! b \<in> set (drop (Suc a) fs)"
      using ab in_set_conv_nth [of "fs ! b" "drop (Suc a) fs"]
      by (auto intro!: exI [of _ "b - Suc a"])
    ultimately show ?thesis
      using d active_keys_split [of "take a fs" "fs ! a" "drop (Suc a) fs"]
      by (auto simp: active_keys_def)
  qed
  have d: "distinct (active_keys (inflight q))" using S by (simp add: slots_ok_def)
  show "i = j"
    using once [OF d, of i j] once [OF d, of j i] ij act key by (metis linorder_neqE_nat)
qed

theorem deliveries_exclusive_witness:
  "sem sample_queue = 1 \<and> sem sample_queue = length (inflight sample_queue)"
proof
  show "sem sample_queue = 1" by code_simp
qed (use deliveries_exclusive [OF sample_reachable] in blast)


text \<open>A text that waited in the spool while a later one was taken from the table.\<close>

definition late_run :: "event list" where
  "late_run = [Persisted DbOk NoFault (sample_message ''b'' ''1'' 7000000), HeadsRead True, PassRun 0 None,
     Persisted DbOk NoFault (sample_message ''a'' ''1'' 3000000)]"

definition late_queue :: queue where
  "late_queue = (case run_events late_run (new_queue True) of Some q \<Rightarrow> q | None \<Rightarrow> new_queue True)"

lemma late_reachable: "reachable True late_queue"
  using run_reachable [OF reachable.start]
  by (simp add: late_queue_def reachable.start split: option.split)


lemma backoff_loop_closed:
  "0 < d \<Longrightarrow> mx \<le> 2 ^ 62 \<Longrightarrow> min (backoff_loop k d mx) mx = min (d * 2 ^ k) mx"
proof (induction k arbitrary: d)
  case (Suc k)
  show ?case
  proof (cases "d < mx")
    case True
    then have "d * 2 < 2 ^ 63" using Suc.prems by simp
    then have "i64 (d * 2) = d * 2" using Suc.prems by (intro i64_id) simp_all
    then show ?thesis using True Suc.IH [of "d * 2"] Suc.prems by (simp add: mult.assoc)
  next
    case False
    have "(1 :: int) \<le> 2 ^ Suc k" by (rule one_le_power) simp
    then have "d * 1 \<le> d * 2 ^ Suc k" using Suc.prems by (intro mult_left_mono) simp_all
    then show ?thesis using False by simp
  qed
qed simp

text \<open>C38: The backoff after the n-th failure is the minimum doubled n-1 times, capped at the
  maximum; the doubling never overflows, and the wait stays between the bounds.\<close>

theorem backoff_closed_form:
  assumes "0 < mn" "mn \<le> mx" "mx \<le> 2 ^ 62"
  shows "backoff mn mx n = min (mn * 2 ^ (n - 1)) mx \<and> mn \<le> backoff mn mx n \<and> backoff mn mx n \<le> mx"
proof -
  have "backoff mn mx n = min (mn * 2 ^ (n - 1)) mx"
    using assms backoff_loop_closed unfolding backoff_def by blast
  moreover have "mn * 1 \<le> mn * 2 ^ (n - 1)" using assms by (intro mult_left_mono) simp_all
  ultimately show ?thesis using assms by simp
qed

theorem backoff_closed_form_witness:
  "backoff default_backoff_min default_backoff_max 4 = 8000000000
   \<and> backoff default_backoff_min default_backoff_max 40 = 60000000000"
  using backoff_closed_form [of default_backoff_min default_backoff_max 4]
    backoff_closed_form [of default_backoff_min default_backoff_max 40]
  by (simp add: default_backoff_min_def default_backoff_max_def)

text \<open>What the loop over the heads does when it neither fills the semaphore nor is cancelled.\<close>

definition due_by :: "nanos \<Rightarrow> nanos option \<Rightarrow> bool" where
  "due_by t soonest = (\<exists>s. soonest = Some s \<and> s \<le> t)"

definition ready :: "nanos \<Rightarrow> portal_state \<Rightarrow> bool" where
  "ready now st = (\<not> busy st \<and> \<not> backing_off now st)"

lemma due_by_earlier [simp]: "due_by t (earlier s (Some u)) = (due_by t s \<or> u \<le> t)"
  by (auto simp: due_by_def earlier_def split: option.splits)

lemma state_of_put [simp]: "state_of (put_state k st q) k' = (if k' = k then st else state_of q k')"
  by (simp add: state_of_def put_state_def)

lemma state_of_start [simp]:
  "state_of (start_delivery h row q) k =
     (if k = portal_key row then (state_of q k)\<lparr>busy := True\<rparr> else state_of q k)"
  by (simp add: start_delivery_def state_of_def put_state_def)

lemma sem_put [simp]: "sem (put_state k st q) = sem q" "sem (start_delivery h row q) = sem q + 1"
  by (simp_all add: put_state_def start_delivery_def)

lemma spawn_loop_free:
  "sem q + length rs \<le> max_parallel \<Longrightarrow>
   spawn_loop now h None rs seen soonest q = (q', seen', soonest', c) \<Longrightarrow>
   \<not> c \<and> set seen' = set seen \<union> portal_key ` set rs
   \<and> (\<forall>k. state_of q' k =
        (if k \<in> portal_key ` set rs \<and> ready now (state_of q k)
         then (state_of q k)\<lparr>busy := True\<rparr> else state_of q k))
   \<and> (\<forall>t. due_by t soonest \<longrightarrow> due_by t soonest')
   \<and> (\<forall>row \<in> set rs. let st = state_of q (portal_key row) in
        \<not> busy st \<longrightarrow> backing_off now st \<longrightarrow> (\<exists>t. retry_at st = Some t \<and> due_by t soonest'))"
proof (induction rs arbitrary: seen soonest q)
  case (Cons row rs)
  let ?k = "portal_key row"
  let ?st = "state_of q ?k"
  let ?q = "put_state ?k ?st q"
  have st: "state_of ?q = state_of q" by (rule ext) simp
  consider (busy) "busy ?st" | (wait) t where "\<not> busy ?st" "retry_at ?st = Some t" "now < t"
    | (ready) "ready now ?st"
    by (cases "busy ?st"; cases "retry_at ?st") (auto simp: ready_def backing_off_def)
  then show ?case
  proof cases
    case busy
    then have eq: "spawn_loop now h None rs (?k # seen) soonest ?q = (q', seen', soonest', c)"
      using Cons.prems(2) by (simp add: Let_def)
    have room: "sem ?q + length rs \<le> max_parallel" using Cons.prems(1) by simp
    show ?thesis using Cons.IH [OF room eq, unfolded st] busy by (auto simp: Let_def ready_def)
  next
    case wait
    then have eq: "spawn_loop now h None rs (?k # seen) (earlier soonest (Some t)) ?q = (q', seen', soonest', c)"
      using Cons.prems(2) by (simp add: Let_def backing_off_def)
    have room: "sem ?q + length rs \<le> max_parallel" using Cons.prems(1) by simp
    have nr: "\<not> ready now ?st" using wait by (simp add: ready_def backing_off_def)
    show ?thesis using Cons.IH [OF room eq, unfolded st] wait nr by (auto simp: Let_def)
  next
    case ready
    then have eq: "spawn_loop now h None rs (?k # seen) soonest (start_delivery h row ?q) = (q', seen', soonest', c)"
      using Cons.prems by (simp add: Let_def ready_def)
    have room: "sem (start_delivery h row ?q) + length rs \<le> max_parallel" using Cons.prems(1) by simp
    have st2: "state_of (start_delivery h row ?q) = (state_of q)(?k := ?st\<lparr>busy := True\<rparr>)"
      by (rule ext) simp
    have nb: "\<not> ready now (?st\<lparr>busy := True\<rparr>)" by (simp add: ready_def)
    note I = Cons.IH [OF room eq, unfolded st2]
    have "state_of q' k = (if k \<in> portal_key ` set (row # rs) \<and> ready now (state_of q k)
         then (state_of q k)\<lparr>busy := True\<rparr> else state_of q k)" for k
      using I ready nb by (cases "k = ?k") simp_all
    moreover have "\<exists>t. retry_at (state_of q (portal_key r)) = Some t \<and> due_by t soonest'"
      if "r \<in> set (row # rs)" "\<not> busy (state_of q (portal_key r))"
        "backing_off now (state_of q (portal_key r))" for r
      using I ready that by (cases "portal_key r = ?k") (auto simp: Let_def ready_def)
    ultimately show ?thesis using I by (simp add: Let_def)
  qed
qed simp

text \<open>With slots to spare, a pass starts a delivery for every portal in the batch that is
  idle and not backing off and leaves the others as they were, and the loop then sleeps no
  longer than the first of the backoffs it met.\<close>

theorem pass_serves_every_portal:
  assumes "sem q + length heads \<le> max_parallel"
  shows "(\<forall>row \<in> set heads. let st = state_of q (portal_key row) in
            state_of (fst (deliver_pass now None heads h q)) (portal_key row)
              = (if busy st \<or> backing_off now st then st else st\<lparr>busy := True\<rparr>)
            \<and> (\<not> busy st \<longrightarrow> backing_off now st \<longrightarrow>
                 loop_wait (snd (deliver_pass now None heads h q)) \<le> the (retry_at st) - now))"
proof
  fix row assume row: "row \<in> set heads"
  let ?st = "state_of q (portal_key row)"
  obtain q' seen soonest c where eq: "spawn_loop now h None heads [] None q = (q', seen, soonest, c)"
    by (metis prod_cases4)
  note I = spawn_loop_free [OF assms eq]
  have dp: "deliver_pass now None heads h q = (forget_idle seen q',
      case soonest of None \<Rightarrow> -1 | Some t \<Rightarrow> max (t - now) 0)"
    using eq I by (simp add: deliver_pass_def)
  have "portal_key row \<in> set seen" using I row by simp
  then have "state_of (forget_idle seen q') (portal_key row) = state_of q' (portal_key row)"
    by (simp add: state_of_def forget_idle_def split: option.split)
  moreover have "state_of q' (portal_key row)
      = (if busy ?st \<or> backing_off now ?st then ?st else ?st\<lparr>busy := True\<rparr>)"
    using I row by (auto simp: ready_def)
  moreover have "loop_wait (case soonest of None \<Rightarrow> -1 | Some t \<Rightarrow> max (t - now) 0)
      \<le> the (retry_at ?st) - now" if bo: "\<not> busy ?st" "backing_off now ?st"
  proof -
    obtain t s where "retry_at ?st = Some t" "soonest = Some s" "s \<le> t"
      using I row bo unfolding due_by_def Let_def by blast
    moreover have "now < t" using bo calculation by (simp add: backing_off_def)
    ultimately show ?thesis by (auto simp: loop_wait_def poll_interval_def max_def)
  qed
  ultimately show "let st = ?st in
      state_of (fst (deliver_pass now None heads h q)) (portal_key row)
        = (if busy st \<or> backing_off now st then st else st\<lparr>busy := True\<rparr>)
      \<and> (\<not> busy st \<longrightarrow> backing_off now st \<longrightarrow>
           loop_wait (snd (deliver_pass now None heads h q)) \<le> the (retry_at st) - now)"
    by (simp add: dp Let_def)
qed

definition failing_queue :: queue where
  "failing_queue = put_state (portal_key (sample_message ''b'' ''2'' 1))
     \<lparr>busy = False, failures = 3, retry_at = Some 4000\<rparr> (new_queue True)"

theorem pass_serves_every_portal_witness:
  "let p = deliver_pass 1000 None [sample_message ''a'' ''1'' 1, sample_message ''b'' ''2'' 1] 5 failing_queue in
     busy (state_of (fst p) (portal_key (sample_message ''a'' ''1'' 1)))
     \<and> failures (state_of (fst p) (portal_key (sample_message ''b'' ''2'' 1))) = 3
     \<and> loop_wait (snd p) \<le> 3000"
proof -
  have "sem failing_queue + length [sample_message ''a'' ''1'' 1, sample_message ''b'' ''2'' 1] \<le> max_parallel"
    by (simp add: failing_queue_def new_queue_def max_parallel_def put_state_def)
  note P = pass_serves_every_portal [OF this, of 1000 5]
  have s: "state_of failing_queue (portal_key (sample_message ''a'' ''1'' 1)) = new_portal_state"
    "state_of failing_queue (portal_key (sample_message ''b'' ''2'' 1))
       = \<lparr>busy = False, failures = 3, retry_at = Some 4000\<rparr>"
    by (simp_all add: failing_queue_def portal_key_def sample_message_def)
      (simp add: state_of_def new_queue_def)
  then show ?thesis using P by (simp add: Let_def new_portal_state_def backing_off_def)
qed

text \<open>When all slots are taken, the pass stops at the first portal that is ready and then
  forgets the state of every idle portal it had not come to: a portal that is backing off
  after failures is retried at the next pass as if it had never failed.\<close>

theorem full_slots_forget_backoff:
  assumes "max_parallel \<le> sem q" "ready now (state_of q (portal_key a))"
    and "portal_key b \<noteq> portal_key a" "\<not> busy (state_of q (portal_key b))"
  shows "state_of (fst (deliver_pass now None (a # rest) h q)) (portal_key b) = new_portal_state"
proof -
  let ?q = "put_state (portal_key a) (state_of q (portal_key a)) q"
  have "spawn_loop now h None (a # rest) [] None q = (?q, [portal_key a], None, False)"
    using assms(1,2) by (simp add: Let_def ready_def)
  then have "fst (deliver_pass now None (a # rest) h q) = forget_idle [portal_key a] ?q"
    by (simp add: deliver_pass_def)
  moreover have "state_of (forget_idle [portal_key a] ?q) (portal_key b) = new_portal_state"
  proof (cases "portals ?q (portal_key b)")
    case None
    then show ?thesis by (simp add: state_of_def forget_idle_def)
  next
    case (Some st)
    then have "st = state_of q (portal_key b)"
      using assms(3) by (simp add: put_state_def state_of_def)
    then have "portals (forget_idle [portal_key a] ?q) (portal_key b) = None"
      using Some assms(3,4) by (simp add: forget_idle_def)
    then show ?thesis by (simp add: state_of_def [of "forget_idle s x" for s x])
  qed
  ultimately show ?thesis by simp
qed

theorem full_slots_forget_backoff_witness:
  "let q = failing_queue\<lparr>sem := 8\<rparr>; b = sample_message ''b'' ''2'' 1 in
     backing_off 1000 (state_of q (portal_key b))
     \<and> state_of (fst (deliver_pass 1000 None [sample_message ''a'' ''1'' 1, b] 5 q)) (portal_key b)
         = new_portal_state"
proof -
  let ?q = "failing_queue\<lparr>sem := 8\<rparr>" and ?a = "sample_message ''a'' ''1'' 1"
    and ?b = "sample_message ''b'' ''2'' 1"
  have s: "state_of ?q (portal_key ?a) = new_portal_state"
    "state_of ?q (portal_key ?b) = \<lparr>busy = False, failures = 3, retry_at = Some 4000\<rparr>"
    "portal_key ?b \<noteq> portal_key ?a"
    by (simp_all add: failing_queue_def portal_key_def sample_message_def state_of_def put_state_def
        new_queue_def)
  have "state_of (fst (deliver_pass 1000 None [?a, ?b] 5 ?q)) (portal_key ?b) = new_portal_state"
    by (rule full_slots_forget_backoff)
       (simp_all add: s new_portal_state_def ready_def backing_off_def max_parallel_def)
  then show ?thesis using s(2) by (simp add: Let_def backing_off_def)
qed

text \<open>What a file of the spool becomes when nothing fails.\<close>

definition listed :: "spool_dir \<Rightarrow> string set" where
  "listed sp = {n \<in> fst ` set (files sp). has_suffix n spool_ext \<and> \<not> has_prefix n tmp_prefix}"

lemma set_spool_list [simp]: "set (spool_list sp) = listed sp"
  by (auto simp: spool_list_def listed_def)

definition no_faults :: drain_answers where
  "no_faults = \<lparr>read_ok = True, rename_ok = True, insert_db = DbOk, remove_ok = True\<rparr>"

definition drain_step :: "string \<Rightarrow> queue \<Rightarrow> queue" where
  "drain_step n q =
     (case drain_insert no_faults n q of
        (q', FileInserted) \<Rightarrow> drain_remove True n q' | (q', _) \<Rightarrow> q')"

lemma drain_loop_healthy:
  "drain_loop (\<lambda>_. no_faults) ns q = (foldl (\<lambda>q n. drain_step n q) q ns, True)"
proof (induction ns arbitrary: q)
  case (Cons n ns)
  have "snd (drain_insert no_faults n q) \<noteq> DrainStops"
    by (simp add: drain_insert_def no_faults_def Let_def split: option.split)
  then show ?case
    using Cons.IH
    by (cases "drain_insert no_faults n q")
       (auto simp: drain_step_def no_faults_def split: drain_file.splits)
qed simp

lemma spool_fields [simp]:
  "spool (set_spool x q) = spool q" "spool (set_outbox x q) = spool q" "spool (notify q) = spool q"
  "table (set_spool x q) = table q" "table (set_outbox x q) = table q" "table (notify q) = table q"
  by (simp_all add: set_spool_def set_outbox_def notify_def)

text \<open>One file: it is listed no more, the other files stay, a readable text is in the table.\<close>

lemma drain_step_spec:
  assumes "spool_ok (spool q)"
  shows "spool_ok (spool (drain_step n q))
    \<and> listed (spool (drain_step n q)) = listed (spool q) - {n}
    \<and> (\<forall>e \<in> set (files (spool q)). fst e \<in> listed (spool q) - {n} \<longrightarrow> e \<in> set (files (spool (drain_step n q))))
    \<and> uid ` set (rows (table q)) \<subseteq> uid ` set (rows (table (drain_step n q)))
    \<and> (\<forall>m. spool_read True (spool q) n = Some m \<longrightarrow> uid m \<in> uid ` set (rows (table (drain_step n q))))"
proof (cases "spool_read True (spool q) n")
  case None
  let ?Q = "spool_quarantine True (spool q) n"
  have s: "spool (drain_step n q) = fst ?Q" "table (drain_step n q) = table q"
    using None by (auto simp: drain_step_def drain_insert_def no_faults_def Let_def spool_quarantine_def
        split: option.splits)
  have nb: "\<not> has_suffix (n @ bad_ext) spool_ext" using json_not_bad has_suffix_append by blast
  then have bad: "n' \<noteq> n @ bad_ext" if "has_suffix n' spool_ext" for n' using that by blast
  have l: "listed (fst ?Q) = listed (spool q) - {n}"
  proof (cases "map_of (files (spool q)) n")
    case None
    then have "n \<notin> fst ` set (files (spool q))" by (simp add: map_of_eq_None_iff)
    then show ?thesis using None by (auto simp: spool_quarantine_def listed_def)
  next
    case (Some c)
    then have "set (files (fst ?Q)) = insert (n @ bad_ext, c)
        {e \<in> set (files (spool q)). fst e \<noteq> n \<and> fst e \<noteq> n @ bad_ext}"
      by (auto simp: spool_quarantine_def)
    then have names: "fst ` set (files (fst ?Q))
        = insert (n @ bad_ext) (fst ` set (files (spool q)) - {n, n @ bad_ext})"
      by (auto simp: image_iff)
    show ?thesis using nb unfolding listed_def names by auto
  qed
  have k: "e \<in> set (files (fst ?Q))"
    if "e \<in> set (files (spool q))" "fst e \<in> listed (spool q) - {n}" for e
    using that bad by (auto simp: spool_quarantine_def listed_def split: option.splits)
  show ?thesis using s l k None assms by simp
next
  case (Some m)
  then have mem: "n \<in> fst ` set (files (spool q))"
    by (auto simp: spool_read_def split: option.splits dest: map_of_SomeD intro: rev_image_eqI)
  have s: "spool (drain_step n q) = (spool q)\<lparr>files := drop_file (files (spool q)) n\<rparr>"
    "table (drain_step n q) = fst (inb_insert (table q) m)"
    using Some mem by (simp_all add: drain_step_def drain_insert_def drain_remove_def no_faults_def Let_def
        spool_remove_def)
  have "spool_ok (spool (drain_step n q))"
    using assms by (simp add: s spool_ok_def drop_file_def distinct_fst_filter)
  moreover have "listed (spool (drain_step n q)) = listed (spool q) - {n}"
    by (auto simp: s listed_def)
  ultimately show ?thesis using Some insert_uids [of "table q" m] by (auto simp: s)
qed

lemma drain_all:
  assumes "spool_ok (spool q)" "listed (spool q) \<subseteq> set ns"
  defines "q' \<equiv> foldl (\<lambda>q n. drain_step n q) q ns"
  shows "listed (spool q') = {} \<and> uid ` set (rows (table q)) \<subseteq> uid ` set (rows (table q'))
    \<and> (\<forall>n m. n \<in> listed (spool q) \<longrightarrow> spool_read True (spool q) n = Some m \<longrightarrow>
          uid m \<in> uid ` set (rows (table q')))"
  using assms(1,2) unfolding q'_def
proof (induction ns arbitrary: q)
  case (Cons n ns)
  let ?q = "drain_step n q"
  note D = drain_step_spec [OF Cons.prems(1), of n]
  have I: "listed (spool ?q) \<subseteq> set ns" using D Cons.prems(2) by auto
  have same: "spool_read True (spool ?q) n' = Some m"
    if n': "n' \<in> listed (spool q)" "n' \<noteq> n" and r: "spool_read True (spool q) n' = Some m" for n' m
  proof -
    have m: "map_of (files (spool q)) n' = Some (Parsed m)" "uid m \<noteq> []"
      using r by (auto simp: spool_read_def split: option.splits spool_file.splits if_splits)
    then have "(n', Parsed m) \<in> set (files (spool ?q))"
      using D n' map_of_SomeD [OF m(1)] by auto
    then have "map_of (files (spool ?q)) n' = Some (Parsed m)"
      using D by (simp add: spool_ok_def)
    then show ?thesis using m(2) by (simp add: spool_read_def)
  qed
  have ok: "spool_ok (spool ?q)" using D by blast
  note IH = Cons.IH [OF ok I]
  have R: "uid m \<in> uid ` set (rows (table (foldl (\<lambda>q n. drain_step n q) ?q ns)))"
    if n': "n' \<in> listed (spool q)" and r: "spool_read True (spool q) n' = Some m" for n' m
  proof (cases "n' = n")
    case True
    then have "uid m \<in> uid ` set (rows (table ?q))" using D r by blast
    then show ?thesis using IH by blast
  next
    case False
    then have "n' \<in> listed (spool ?q)" using D n' by simp
    then show ?thesis using same [OF n' False r] IH by blast
  qed
  have "uid ` set (rows (table q)) \<subseteq> uid ` set (rows (table ?q))" using D by blast
  also have "\<dots> \<subseteq> uid ` set (rows (table (foldl (\<lambda>q n. drain_step n q) ?q ns)))" using IH by blast
  finally show ?case using IH R by simp
qed simp

text \<open>C27: When no call fails, \<open>Drain\<close> empties the spool: no file is listed afterwards, no row
  has gone, and every listed text that reads back is in the table.\<close>

theorem healthy_drain_empties_spool:
  assumes "spool_on q" "spool_ok (spool q)"
  shows "let r = drain True (\<lambda>_. no_faults) q in
      snd r \<and> spool_list (spool (fst r)) = []
      \<and> uid ` set (rows (table q)) \<subseteq> uid ` set (rows (table (fst r)))
      \<and> (\<forall>n \<in> set (spool_list (spool q)). \<forall>m. spool_read True (spool q) n = Some m \<longrightarrow>
            uid m \<in> uid ` set (rows (table (fst r))))"
proof -
  let ?q = "set_spool (int (length (spool_list (spool q)))) q"
  have d: "drain True (\<lambda>_. no_faults) q
      = (foldl (\<lambda>q n. drain_step n q) ?q (spool_list (spool q)), True)"
    using assms(1) by (simp add: drain_def drain_list_def Let_def drain_loop_healthy)
  have "listed (spool ?q) \<subseteq> set (spool_list (spool q))" by simp
  from drain_all [OF _ this] assms(2) d show ?thesis
    by (simp add: Let_def flip: set_empty)
qed

theorem healthy_drain_empties_spool_witness:
  "snd (drain True (\<lambda>_. no_faults) (new_queue True))
   \<and> spool_list (spool (fst (drain True (\<lambda>_. no_faults)
        ((new_queue True)\<lparr>spool := fst (spool_write NoFault empty_spool (sample_message ''a'' ''1'' 5))\<rparr>)))) = []"
  using healthy_drain_empties_spool [of "new_queue True"]
    healthy_drain_empties_spool [of "(new_queue True)\<lparr>spool :=
      fst (spool_write NoFault empty_spool (sample_message ''a'' ''1'' 5))\<rparr>"]
  by (simp add: new_queue_def Let_def empty_spool_def spool_ok_def [of "\<lparr>files = [], spool_seq = 0\<rparr>"])

text \<open>Nine portals with a text each; a delivery ends, wakes the loop, and only then frees its slot.\<close>

definition early_wake_run :: "event list" where
  "early_wake_run =
     map (\<lambda>p. Persisted DbOk NoFault (sample_message p p 1000000))
         [''a'', ''b'', ''c'', ''d'', ''e'', ''f'', ''g'', ''h'', ''i'']
     @ [LoopWoken, HeadsRead True, PassRun 0 None,
        Delivered 0 InMatrix, Deleted 0 DbOk, Settled 0 0 False, Notified 0,
        LoopWoken, HeadsRead True, PassRun 0 None, Released 0]"

definition early_wake_queue :: queue where
  "early_wake_queue =
     (case run_events early_wake_run (new_queue True) of Some q \<Rightarrow> q | None \<Rightarrow> new_queue True)"

lemma early_wake_reachable: "reachable True early_wake_queue"
  using run_reachable [OF reachable.start]
  by (simp add: early_wake_queue_def reachable.start split: option.split)

text \<open>A delivery wakes the loop before it frees its semaphore slot: there is a run after
  which a slot is free, a portal is ready and no wake-up is pending, so the portal waits for
  the poll or for another delivery to end.\<close>

theorem freed_slot_not_woken:
  "\<exists>q. reachable True q \<and> \<not> wake q \<and> snapshot q = None \<and> sem q < max_parallel
     \<and> (\<exists>a \<in> set (inb_heads (table q) batch_size). ready 0 (state_of q (portal_key a)))"
proof (intro exI conjI)
  let ?q = early_wake_queue
  show "reachable True ?q" by (rule early_wake_reachable)
  show "\<not> wake ?q" by code_simp
  show "snapshot ?q = None" by code_simp
  show "sem ?q < max_parallel" by code_simp
  show "\<exists>a \<in> set (inb_heads (table ?q) batch_size). ready 0 (state_of ?q (portal_key a))"
    by code_simp
qed

end
