(* ===== verification/Phonenum.thy ===== *)
theory Phonenum
  imports Prelude
begin

section \<open>Phone numbers and portal IDs (\<open>pkg/phonenum\<close>)\<close>

text \<open>
  The pure core of the bridge: \<open>Normalize\<close> and the URI splitting of \<open>e164.go\<close>, and the
  portal-ID spellings of \<open>portalid.go\<close>: \<open><line>-<number>\<close> for a conversation, bare digits
  for one without a line, \<open><line>-space\<close> and \<open><line>-dial\<close> for a line's own rooms.  The
  lemmas show that the spellings never collide and that each reads back as what it was made
  from.
\<close>

datatype phone_error = ErrEmpty | ErrNotE164 | ErrBadLine

subsection \<open>SIP and tel URIs\<close>

definition has_scheme :: "string \<Rightarrow> string \<Rightarrow> bool" where
  "has_scheme s scheme =
     (length scheme \<le> length s \<and> equal_fold (take (length scheme) s) scheme)"

definition strip_scheme :: "string \<Rightarrow> string" where
  "strip_scheme s =
     (case find (has_scheme s) [''tel:'', ''sips:'', ''sip:''] of
        None \<Rightarrow> s
      | Some scheme \<Rightarrow> drop (length scheme) s)"

definition split_uri :: "string \<Rightarrow> string \<times> string" where
  "split_uri s0 =
     (let s = before_any (strip_scheme (trim_prefix s0 ''<'')) '';>'' in
      case from_any s ''@'' of
        [] \<Rightarrow> (s, [])
      | at # host \<Rightarrow> (before_any s ''@'', before_any host '':?''))"

definition strip_uri :: "string \<Rightarrow> string" where
  "strip_uri s = fst (split_uri s)"

subsection \<open>Normalize\<close>

definition max_e164_digits :: nat where
  "max_e164_digits = 15"

definition separators :: string where
  "separators = '' -.()/'' @ [CHR 0x09]"

text \<open>
  The loop over the input: \<open>i\<close> is the position, \<open>seen\<close> whether a plus was read and
  \<open>b\<close> the digits so far.  A byte of a multi-byte rune falls into the default branch, as
  the rune does.
\<close>

fun scan_number :: "nat \<Rightarrow> bool \<Rightarrow> string \<Rightarrow> string \<Rightarrow> phone_error + (bool \<times> string)" where
  "scan_number i seen b [] = Inr (seen, b)"
| "scan_number i seen b (c # cs) =
     (if c = CHR ''+'' then
        (if i \<noteq> 0 \<or> seen then Inl ErrNotE164 else scan_number (Suc i) True b cs)
      else if is_digit c then scan_number (Suc i) seen (b @ [c]) cs
      else if c \<in> set separators then scan_number (Suc i) seen b cs
      else Inl ErrNotE164)"

definition check_country :: "string \<Rightarrow> phone_error + string" where
  "check_country digits =
     (if digits = [] then Inl ErrEmpty
      else if hd digits = CHR ''0'' then Inl ErrNotE164
      else if length digits > max_e164_digits then Inl ErrNotE164
      else Inr (CHR ''+'' # digits))"

definition normalize :: "string \<Rightarrow> phone_error + string" where
  "normalize input =
     (let s = trim_space input in
      if s = [] then Inl ErrEmpty
      else (case scan_number 0 False [] (strip_uri s) of
          Inl e \<Rightarrow> Inl e
        | Inr (seen, digits) \<Rightarrow>
            if digits = [] then Inl ErrEmpty
            else if seen then check_country digits
            else if \<not> has_prefix digits ''00'' then Inl ErrNotE164
            else check_country (trim_prefix digits ''00'')))"

definition to_id :: "string \<Rightarrow> string" where
  "to_id e164 = trim_prefix e164 ''+''"

definition normalize_to_id :: "string \<Rightarrow> phone_error + string" where
  "normalize_to_id input = (case normalize input of Inl e \<Rightarrow> Inl e | Inr e164 \<Rightarrow> Inr (to_id e164))"

subsection \<open>Composite portal IDs\<close>

text \<open>\<open>\+?[0-9]+\<close>, anchored on both sides.\<close>

fun is_number :: "string \<Rightarrow> bool" where
  "is_number [] = False"
| "is_number (c # cs) =
     (if c = CHR ''+'' then cs \<noteq> [] \<and> list_all is_digit cs else list_all is_digit (c # cs))"

text \<open>
  \<open>portalIDLine\<close>, \<open>^(.*)-(\+?[0-9]+)$\<close>: the number has no hyphen, so the match splits at the
  last one; \<open>.\<close> does not match a newline.
\<close>

definition portal_id_line :: "string \<Rightarrow> (string \<times> string) option" where
  "portal_id_line pid =
     (let number = rev (takeWhile (\<lambda>c. c \<noteq> CHR ''-'') (rev pid));
          rest = take (length pid - length number) pid
      in if rest \<noteq> [] \<and> is_number number \<and> CHR 0x0A \<notin> set (butlast rest)
         then Some (butlast rest, number) else None)"

definition split_id :: "string \<Rightarrow> string \<times> string" where
  "split_id pid = (case portal_id_line pid of Some m \<Rightarrow> m | None \<Rightarrow> ([], pid))"

definition number_from_id :: "string \<Rightarrow> string" where
  "number_from_id pid =
     (case portal_id_line pid of
        Some (line, number) \<Rightarrow> number
      | None \<Rightarrow> if pid = [] then [] else CHR ''+'' # pid)"

definition line_from_id :: "string \<Rightarrow> string" where
  "line_from_id pid = fst (split_id pid)"

definition is_e164 :: "string \<Rightarrow> bool" where
  "is_e164 number = (1 < length number \<and> hd number = CHR ''+'')"

text \<open>\<open>lineName\<close>, \<open>^[A-Za-z0-9][A-Za-z0-9_-]*$\<close>.\<close>

definition line_char :: "char \<Rightarrow> bool" where
  "line_char c = (is_alnum c \<or> c = CHR ''_'' \<or> c = CHR ''-'')"

fun line_name :: "string \<Rightarrow> bool" where
  "line_name [] = False"
| "line_name (c # cs) = (is_alnum c \<and> list_all line_char cs)"

definition make_id :: "string \<Rightarrow> string \<Rightarrow> phone_error + string" where
  "make_id line number =
     (if \<not> line_name line then Inl ErrBadLine
      else let pid = line @ ''-'' @ number in
        if fst (split_id pid) \<noteq> line \<or> snd (split_id pid) \<noteq> number then Inl ErrBadLine
        else Inr pid)"

definition id_for :: "string \<Rightarrow> string \<Rightarrow> phone_error + string" where
  "id_for line input =
     (case normalize input of
        Inl e \<Rightarrow> Inl e
      | Inr e164 \<Rightarrow> if line = [] then Inr (to_id e164) else make_id line e164)"

definition line_from_uri :: "string \<Rightarrow> string" where
  "line_from_uri uri = (let host = snd (split_uri uri) in if line_name host then host else [])"

subsection \<open>A line's own rooms\<close>

definition space_suffix :: string where
  "space_suffix = ''-space''"

definition dial_suffix :: string where
  "dial_suffix = ''-dial''"

definition line_room_id :: "string \<Rightarrow> string \<Rightarrow> phone_error + string" where
  "line_room_id line suffix = (if line_name line then Inr (line @ suffix) else Inl ErrBadLine)"

definition line_from_room_id :: "string \<Rightarrow> string \<Rightarrow> string" where
  "line_from_room_id pid suffix =
     (case cut_suffix pid suffix of
        None \<Rightarrow> []
      | Some line \<Rightarrow> if line_name line then line else [])"

definition space_id_for :: "string \<Rightarrow> phone_error + string" where
  "space_id_for line = line_room_id line space_suffix"

definition line_from_space_id :: "string \<Rightarrow> string" where
  "line_from_space_id pid = line_from_room_id pid space_suffix"

definition is_space_id :: "string \<Rightarrow> bool" where
  "is_space_id pid = (line_from_space_id pid \<noteq> [])"

definition dial_id_for :: "string \<Rightarrow> phone_error + string" where
  "dial_id_for line = line_room_id line dial_suffix"

definition line_from_dial_id :: "string \<Rightarrow> string" where
  "line_from_dial_id pid = line_from_room_id pid dial_suffix"

definition is_line_room_id :: "string \<Rightarrow> bool" where
  "is_line_room_id pid = (is_space_id pid \<or> line_from_dial_id pid \<noteq> [])"

datatype id_kind = KindNumber | KindSpace | KindDial

definition kind_of :: "string \<Rightarrow> id_kind \<times> string" where
  "kind_of pid =
     (if line_from_space_id pid \<noteq> [] then (KindSpace, line_from_space_id pid)
      else if line_from_dial_id pid \<noteq> [] then (KindDial, line_from_dial_id pid)
      else (KindNumber, line_from_id pid))"

subsection \<open>Facts on the spellings\<close>

lemma is_digit_simps [simp]:
  "\<not> is_digit CHR ''-''" "\<not> is_digit CHR ''+''" "\<not> is_digit CHR 0x0A"
  by (simp_all add: is_digit_def)

lemma digit_not_space: "is_digit c \<Longrightarrow> c \<notin> space_bytes \<and> c \<noteq> CHR ''+'' \<and> c \<noteq> CHR ''-''"
  by (auto simp: space_bytes_def space_runes_def is_digit_def)

lemma plus_not_space: "CHR ''+'' \<notin> space_bytes"
  by (simp add: space_bytes_def space_runes_def)

lemma alnum_not_hyphen: "is_alnum c \<Longrightarrow> c \<noteq> CHR ''-'' \<and> c \<noteq> CHR 0x0A"
  by (auto simp: is_alnum_def)

lemma is_number_chars: "is_number n \<Longrightarrow> CHR ''-'' \<notin> set n \<and> n \<noteq> []"
  by (cases n) (auto simp: list_all_iff split: if_splits)

lemma line_name_no_newline: "line_name l \<Longrightarrow> CHR 0x0A \<notin> set l"
  by (cases l) (auto simp: list_all_iff line_char_def is_alnum_def)

lemma dot_not_line: "\<not> line_char CHR ''.''" "\<not> is_alnum CHR ''.''"
  by (simp_all add: line_char_def is_alnum_def)

lemma line_name_nonempty [simp]: "\<not> line_name []"
  by simp

lemma number_last: "is_number n \<Longrightarrow> is_digit (last n)"
  by (cases n) (auto simp: list_all_iff split: if_splits)

lemma portal_id_line_Some:
  "portal_id_line pid = Some (l, n) \<longleftrightarrow> pid = l @ ''-'' @ n \<and> is_number n \<and> CHR 0x0A \<notin> set l"
  (is "?L \<longleftrightarrow> ?R")
proof
  let ?p = "\<lambda>c. c \<noteq> CHR ''-''"
  let ?num = "rev (takeWhile ?p (rev pid))"
  let ?rest = "take (length pid - length ?num) pid"
  assume ?L
  then have n: "n = ?num" and rest: "?rest \<noteq> []" and l: "l = butlast ?rest"
    and R: "is_number n" "CHR 0x0A \<notin> set l"
    by (auto simp: portal_id_line_def Let_def split: if_splits)
  have "rev (dropWhile ?p (rev pid)) @ ?num = pid"
    by (metis rev_append rev_rev_ident takeWhile_dropWhile_id)
  then have eq: "?rest = rev (dropWhile ?p (rev pid))"
    by (metis append_eq_conv_conj length_append diff_add_inverse2)
  with rest have ne: "dropWhile ?p (rev pid) \<noteq> []" by (metis rev.simps(1))
  then have "last ?rest = CHR ''-''"
    using eq hd_dropWhile [OF ne] by (simp add: last_rev)
  then have "?rest = l @ ''-''"
    using rest l by (metis append_butlast_last_id)
  moreover have "pid = ?rest @ ?num"
    using \<open>rev (dropWhile ?p (rev pid)) @ ?num = pid\<close> eq by simp
  ultimately show ?R using n R by simp
next
  assume R: ?R
  then have "CHR ''-'' \<notin> set n" using is_number_chars by blast
  then have "takeWhile (\<lambda>c. c \<noteq> CHR ''-'') (rev pid) = rev n"
    using R by (auto simp: takeWhile_append2 takeWhile_tail)
  with R show ?L by (simp add: portal_id_line_def)
qed

lemma portal_id_line_make [simp]:
  "is_number n \<Longrightarrow> CHR 0x0A \<notin> set l \<Longrightarrow> portal_id_line (l @ CHR ''-'' # n) = Some (l, n)"
  using portal_id_line_Some [of "l @ CHR ''-'' # n" l n] by simp

lemma portal_id_line_bare:
  assumes "CHR ''-'' \<notin> set pid" shows "portal_id_line pid = None"
proof (cases "portal_id_line pid")
  case (Some m)
  then show ?thesis using assms by (cases m) (auto simp: portal_id_line_Some)
qed

text \<open>An ID that ends in a letter is not read as a number.\<close>

lemma portal_id_line_letter:
  assumes "\<not> is_digit c" shows "portal_id_line (pid @ [c]) = None"
proof (cases "portal_id_line (pid @ [c])")
  case (Some m)
  then obtain l n where "pid @ [c] = l @ ''-'' @ n" "is_number n"
    by (cases m) (auto simp: portal_id_line_Some)
  then have "last (pid @ [c]) = last n"
    using is_number_chars [of n] by (metis last_append append_is_Nil_conv)
  with number_last [OF \<open>is_number n\<close>] assms show ?thesis by simp
qed

subsection \<open>What Normalize returns\<close>

definition e164_digits :: "string \<Rightarrow> bool" where
  "e164_digits d = (d \<noteq> [] \<and> list_all is_digit d \<and> hd d \<noteq> CHR ''0'' \<and> length d \<le> 15)"

lemma scan_number_digits:
  "scan_number i seen b s = Inr (pl, d) \<Longrightarrow> list_all is_digit b \<Longrightarrow> list_all is_digit d"
  by (induction i seen b s rule: scan_number.induct) (auto split: if_splits)

lemma scan_number_all_digits:
  "list_all is_digit s \<Longrightarrow> scan_number i seen b s = Inr (seen, b @ s)"
proof (induction s arbitrary: i b)
  case (Cons c s)
  then show ?case using digit_not_space [of c] by simp
qed simp

lemma check_country_Inr:
  "check_country d = Inr n \<longleftrightarrow> n = CHR ''+'' # d \<and> d \<noteq> [] \<and> hd d \<noteq> CHR ''0'' \<and> length d \<le> 15"
  by (auto simp: check_country_def max_e164_digits_def)

lemma normalize_Inr_shape:
  assumes "normalize x = Inr n"
  obtains d where "n = CHR ''+'' # d" and "e164_digits d"
proof -
  from assms obtain pl d0 where sc: "scan_number 0 False [] (strip_uri (trim_space x)) = Inr (pl, d0)"
    by (auto simp: normalize_def Let_def split: if_splits sum.splits prod.splits)
  have d0: "list_all is_digit d0"
    using scan_number_digits [OF sc] by simp
  have "\<exists>d. list_all is_digit d \<and> check_country d = Inr n"
  proof (cases pl)
    case True
    with assms sc d0 show ?thesis by (auto simp: normalize_def Let_def split: if_splits)
  next
    case False
    with assms sc have "has_prefix d0 ''00''" "check_country (trim_prefix d0 ''00'') = Inr n"
      by (auto simp: normalize_def Let_def split: if_splits)
    then obtain t where "d0 = ''00'' @ t" "check_country t = Inr n"
      using trim_prefix_append [of "''00''"] by (auto simp: has_prefix_iff)
    with d0 show ?thesis by auto
  qed
  then show thesis using that by (auto simp: check_country_Inr e164_digits_def)
qed

lemma strip_uri_plain:
  assumes "list_all is_digit d"
  shows "strip_uri (CHR ''+'' # d) = CHR ''+'' # d"
proof -
  let ?s = "CHR ''+'' # d"
  have no: "set ?s \<inter> set '';>'' = {}" "set ?s \<inter> set ''@'' = {}"
    using assms by (auto simp: list_all_iff is_digit_def)
  have "\<not> has_scheme ?s w" if "w \<in> {''tel:'', ''sips:'', ''sip:''}" for w
    using that by (auto simp: has_scheme_def equal_fold_def ascii_lower_def)
  then have "strip_scheme ?s = ?s"
    by (simp add: strip_scheme_def)
  moreover have "trim_prefix ?s ''<'' = ?s"
    by (simp add: trim_prefix_def)
  ultimately show ?thesis
    using before_any_none [OF no(1)] before_any_none [OF no(2)]
    by (simp add: strip_uri_def split_uri_def Let_def)
qed

lemma normalize_e164:
  assumes "e164_digits d" shows "normalize (CHR ''+'' # d) = Inr (CHR ''+'' # d)"
proof -
  let ?s = "CHR ''+'' # d"
  have d: "list_all is_digit d" "d \<noteq> []" using assms by (auto simp: e164_digits_def)
  have "c \<notin> space_bytes" if "c \<in> set ?s" for c
    using that d digit_not_space [of c] plus_not_space by (auto simp: list_all_iff)
  then have "trim_space ?s = ?s" by (intro trim_space_clean) auto
  moreover have "scan_number 0 False [] ?s = Inr (True, d)"
    using scan_number_all_digits [OF d(1)] by simp
  ultimately show ?thesis
    using assms strip_uri_plain [OF d(1)]
    by (simp add: normalize_def check_country_Inr e164_digits_def)
qed

lemma e164_is_number: "e164_digits d \<Longrightarrow> is_number (CHR ''+'' # d)"
  by (simp add: e164_digits_def)

lemma to_id_e164 [simp]: "to_id (CHR ''+'' # d) = d"
  by (simp add: to_id_def trim_prefix_def)

lemma digits_no_hyphen: "list_all is_digit d \<Longrightarrow> CHR ''-'' \<notin> set d"
  by (auto simp: list_all_iff)

lemma split_id_make [simp]:
  "is_number n \<Longrightarrow> CHR 0x0A \<notin> set l \<Longrightarrow> split_id (l @ CHR ''-'' # n) = (l, n)"
  by (simp add: split_id_def)

lemma split_id_cases: "split_id pid = (l, n) \<Longrightarrow> l \<noteq> [] \<Longrightarrow> pid = l @ ''-'' @ n \<and> is_number n"
  by (auto simp: split_id_def portal_id_line_Some split: option.splits)

lemma line_room_id_Inr: "line_room_id l sf = Inr pid \<longleftrightarrow> line_name l \<and> pid = l @ sf"
  by (auto simp: line_room_id_def)

lemma line_from_room_id_eq:
  "l \<noteq> [] \<Longrightarrow> line_from_room_id pid sf = l \<longleftrightarrow> line_room_id l sf = Inr pid"
  by (auto simp: line_from_room_id_def line_room_id_Inr cut_suffix_Some split: option.splits)

lemma line_from_room_id_none:
  "line_from_room_id pid sf = [] \<longleftrightarrow> (\<forall>l. line_room_id l sf \<noteq> Inr pid)"
  by (auto simp: line_from_room_id_def line_room_id_Inr cut_suffix_None cut_suffix_Some
      split: option.splits)

lemma space_not_dial: "l @ space_suffix \<noteq> l' @ dial_suffix"
proof
  assume eq: "l @ space_suffix = l' @ dial_suffix"
  have "last (l @ space_suffix) = CHR ''e''" "last (l' @ dial_suffix) = CHR ''l''"
    by (simp_all add: space_suffix_def dial_suffix_def)
  with eq show False by simp
qed

lemma portal_id_line_room [simp]:
  "portal_id_line (l @ space_suffix) = None" "portal_id_line (l @ dial_suffix) = None"
  using portal_id_line_letter [of "CHR ''e''" "l @ ''-spac''"]
    portal_id_line_letter [of "CHR ''l''" "l @ ''-dia''"]
  by (simp_all add: space_suffix_def dial_suffix_def is_digit_def)

lemma not_room_if_digit:
  assumes "pid \<noteq> []" "is_digit (last pid)"
  shows "line_from_space_id pid = []" "line_from_dial_id pid = []"
proof -
  have "pid \<noteq> l @ space_suffix" "pid \<noteq> l @ dial_suffix" for l
    using assms by (auto simp: space_suffix_def dial_suffix_def is_digit_def)
  then show "line_from_space_id pid = []" "line_from_dial_id pid = []"
    by (simp_all add: line_from_space_id_def line_from_dial_id_def line_from_room_id_none
        line_room_id_Inr)
qed

lemma kind_of_number:
  "pid \<noteq> [] \<Longrightarrow> is_digit (last pid) \<Longrightarrow> kind_of pid = (KindNumber, line_from_id pid)"
  by (simp add: kind_of_def not_room_if_digit)

lemma kind_of_cases:
  "fst (kind_of pid) = KindNumber \<longleftrightarrow> \<not> is_line_room_id pid"
  by (simp add: kind_of_def is_line_room_id_def is_space_id_def)

lemma e164_digits_last: "e164_digits d \<Longrightarrow> d \<noteq> [] \<and> is_digit (last d)"
  by (auto simp: e164_digits_def list_all_iff)

lemma portal_id_line_digits: "list_all is_digit d \<Longrightarrow> portal_id_line d = None"
  by (simp add: portal_id_line_bare digits_no_hyphen)

lemma id_for_shape:
  assumes "id_for l x = Inr pid"
  obtains d where "e164_digits d" and "normalize x = Inr (CHR ''+'' # d)"
    and "l = [] \<and> pid = d \<or> line_name l \<and> pid = l @ ''-'' @ CHR ''+'' # d"
proof -
  from assms obtain n where n: "normalize x = Inr n"
    by (auto simp: id_for_def split: sum.splits)
  then obtain d where d: "n = CHR ''+'' # d" "e164_digits d"
    by (rule normalize_Inr_shape)
  with assms n have "l = [] \<and> pid = d \<or> line_name l \<and> pid = l @ ''-'' @ CHR ''+'' # d"
    by (auto simp: id_for_def make_id_def Let_def split: if_splits)
  with d n show thesis using that by blast
qed

subsection \<open>Properties\<close>

text \<open>Whatever the spelling, \<open>Normalize\<close> returns a plus followed by one to fifteen digits
  of which the first is not zero, and that spelling is a fixed point.\<close>

theorem normalize_canonical:
  assumes "normalize x = Inr n"
  shows "\<exists>d. n = CHR ''+'' # d \<and> d \<noteq> [] \<and> list_all is_digit d \<and> hd d \<noteq> CHR ''0''
      \<and> length d \<le> max_e164_digits \<and> normalize n = Inr n"
  using normalize_Inr_shape [OF assms] normalize_e164
  by (metis e164_digits_def max_e164_digits_def)

theorem normalize_canonical_witness:
  "normalize ''sip:+1 (555) 123-4567@pbx.example.com'' = Inr ''+15551234567''
   \<and> (\<exists>d. ''+15551234567'' = CHR ''+'' # d \<and> d \<noteq> [] \<and> list_all is_digit d \<and> hd d \<noteq> CHR ''0''
      \<and> length d \<le> max_e164_digits \<and> normalize ''+15551234567'' = Inr ''+15551234567'')"
proof -
  have "normalize ''sip:+1 (555) 123-4567@pbx.example.com'' = Inr ''+15551234567''"
    by code_simp
  then show ?thesis using normalize_canonical by blast
qed

text \<open>\<open>MakeID\<close> accepts exactly a usable line name with a number in the shape
  \<open>\+?[0-9]+\<close>: its read-back check refuses nothing else and lets nothing else through.\<close>

lemma make_id_iff:
  "make_id line number = Inr pid
     \<longleftrightarrow> line_name line \<and> is_number number \<and> pid = line @ ''-'' @ number"
proof (cases "line_name line")
  case ln: True
  then have nl: "CHR 0x0A \<notin> set line" "line \<noteq> []" by (auto simp: line_name_no_newline)
  show ?thesis
  proof (cases "is_number number")
    case True
    with ln nl show ?thesis by (auto simp: make_id_def)
  next
    case False
    then have "split_id (line @ CHR ''-'' # number) \<noteq> (line, number)"
      using split_id_cases [of _ line number] nl by blast
    with False show ?thesis by (auto simp: make_id_def Let_def prod_eq_iff)
  qed
qed (simp add: make_id_def)

lemma id_for_reads_back:
  assumes "id_for line input = Inr pid"
  shows "normalize input = Inr (number_from_id pid) \<and> line_from_id pid = line
      \<and> kind_of pid = (KindNumber, line) \<and> is_e164 (number_from_id pid)"
proof -
  obtain d where d: "e164_digits d" "normalize input = Inr (CHR ''+'' # d)"
    and pid: "line = [] \<and> pid = d \<or> line_name line \<and> pid = line @ ''-'' @ CHR ''+'' # d"
    using assms by (rule id_for_shape)
  have all: "list_all is_digit d" and ne: "d \<noteq> []" and last: "is_digit (last d)"
    using d(1) e164_digits_last by (auto simp: e164_digits_def)
  from pid show ?thesis
  proof
    assume "line = [] \<and> pid = d"
    with d all ne last show ?thesis
      by (auto simp: number_from_id_def line_from_id_def split_id_def portal_id_line_digits
          kind_of_number is_e164_def)
  next
    assume p: "line_name line \<and> pid = line @ ''-'' @ CHR ''+'' # d"
    then have "portal_id_line pid = Some (line, CHR ''+'' # d)"
      using e164_is_number [OF d(1)] line_name_no_newline by (simp add: portal_id_line_Some)
    with p d ne last show ?thesis
      by (auto simp: number_from_id_def line_from_id_def split_id_def kind_of_number is_e164_def)
  qed
qed

text \<open>C39: An ID \<open>IDFor\<close> builds reads back: its number is the normalised input, its line is
  the line it was built for, and it is never taken for a line's space or dial room.\<close>

theorem id_for_roundtrip:
  assumes "id_for line input = Inr pid"
  shows "normalize input = Inr (number_from_id pid) \<and> line_from_id pid = line
      \<and> kind_of pid = (KindNumber, line) \<and> is_e164 (number_from_id pid)"
  by (rule id_for_reads_back [OF assms])

theorem id_for_roundtrip_witness:
  "id_for ''line2'' ''0015551234567'' = Inr ''line2-+15551234567''
   \<and> normalize ''0015551234567'' = Inr (number_from_id ''line2-+15551234567'')
   \<and> line_from_id ''line2-+15551234567'' = ''line2''
   \<and> kind_of ''line2-+15551234567'' = (KindNumber, ''line2'')
   \<and> is_e164 (number_from_id ''line2-+15551234567'')"
proof -
  have "id_for ''line2'' ''0015551234567'' = Inr ''line2-+15551234567''" by code_simp
  then show ?thesis using id_for_roundtrip by blast
qed

text \<open>A portal ID is classified as a line's space, or as its dial room, exactly when
  \<open>SpaceIDFor\<close>, or \<open>DialIDFor\<close>, builds it for that line; then it has no number half, and
  every other ID is a number.\<close>

theorem kind_of_classifies:
  "(kind_of pid = (KindSpace, line)) = (space_id_for line = Inr pid)
   \<and> (kind_of pid = (KindDial, line)) = (dial_id_for line = Inr pid)
   \<and> (fst (kind_of pid) = KindNumber) = (\<not> is_line_room_id pid)
   \<and> \<not> (is_line_room_id pid \<and> portal_id_line pid \<noteq> None)"
proof (intro conjI)
  have ne: "line_room_id [] sf \<noteq> Inr pid" for sf by (simp add: line_room_id_def)
  show "(kind_of pid = (KindSpace, line)) = (space_id_for line = Inr pid)"
    using line_from_room_id_eq [of line pid space_suffix] ne [of space_suffix]
    by (cases "line = []")
      (auto simp: kind_of_def space_id_for_def line_from_space_id_def)
  have "line_from_space_id pid = []" if "dial_id_for line = Inr pid"
    using that space_not_dial
    by (auto simp: dial_id_for_def line_room_id_Inr line_from_space_id_def line_from_room_id_none)
       (metis space_not_dial)
  then show "(kind_of pid = (KindDial, line)) = (dial_id_for line = Inr pid)"
    using line_from_room_id_eq [of line pid dial_suffix] ne [of dial_suffix]
    by (cases "line = []")
      (auto simp: kind_of_def dial_id_for_def line_from_dial_id_def)
  show "(fst (kind_of pid) = KindNumber) = (\<not> is_line_room_id pid)"
    by (rule kind_of_cases)
  show "\<not> (is_line_room_id pid \<and> portal_id_line pid \<noteq> None)"
    by (auto simp: is_line_room_id_def is_space_id_def line_from_space_id_def
        line_from_dial_id_def line_from_room_id_none line_room_id_Inr)
qed

text \<open>The line an inbound URI names never makes \<open>IDFor\<close> fail: every sender whose number
  normalises has a portal ID, and a host with a dot, a trunk, keys the line-less one.\<close>

theorem uri_line_always_keys:
  assumes "normalize x = Inr n"
  shows "(\<exists>pid. id_for (line_from_uri uri) x = Inr pid)
      \<and> (CHR ''.'' \<in> set (snd (split_uri uri)) \<longrightarrow> id_for (line_from_uri uri) x = Inr (to_id n))"
proof
  obtain d where n: "n = CHR ''+'' # d" and d: "e164_digits d"
    using assms by (rule normalize_Inr_shape)
  let ?l = "line_from_uri uri"
  have "?l = [] \<or> line_name ?l" by (simp add: line_from_uri_def Let_def)
  then show "\<exists>pid. id_for ?l x = Inr pid"
    using assms n e164_is_number [OF d] by (cases "?l = []") (auto simp: id_for_def make_id_iff)
  have "\<not> line_name h" if "CHR ''.'' \<in> set h" for h
    using that dot_not_line by (cases h) (auto simp: list_all_iff line_char_def)
  then show "CHR ''.'' \<in> set (snd (split_uri uri)) \<longrightarrow> id_for ?l x = Inr (to_id n)"
    using assms by (auto simp: line_from_uri_def Let_def id_for_def)
qed

theorem uri_line_always_keys_witness:
  "normalize ''sip:+15551234567@trunk.example.com'' = Inr ''+15551234567''
   \<and> id_for (line_from_uri ''sip:+15551234567@trunk.example.com'')
        ''sip:+15551234567@trunk.example.com'' = Inr (to_id ''+15551234567'')"
proof -
  have "normalize ''sip:+15551234567@trunk.example.com'' = Inr ''+15551234567''"
    and "CHR ''.'' \<in> set (snd (split_uri ''sip:+15551234567@trunk.example.com''))"
    by code_simp+
  then show ?thesis using uri_line_always_keys by blast
qed

end
