(* ===== verification/Call_Store.thy ===== *)
theory Call_Store
  imports Prelude
begin

section \<open>The table of calls (\<open>pkg/database/call.go\<close>)\<close>

text \<open>
  The table \<open>sip_call\<close> and its statements, each atomic.  A row is a \<open>call\<close> with its times
  as \<open>UnixMilli\<close> stores them.  The table is the list of its rows, \<open>call_id\<close> the primary key.
  A compare-and-swap returns the table, whether it changed a row, and the caller's struct.
  The locale \<open>life_cycle\<close> is what the call subsystem relies on.
\<close>

datatype call_direction = Inbound | Outbound

datatype call_state = Ringing | Bridged | Ended

record call =
  call_id :: string
  c_portal :: string
  c_room :: string
  receiver :: string
  matrix_user :: string
  direction :: call_direction
  conference :: string
  lk_room :: string
  lk_identity :: string
  lk_participant :: string
  c_state :: call_state
  created_at :: nanos
  updated_at :: nanos

type_synonym call_table = "call list"

text \<open>\<open>time.Time{}\<close>: the first of January of the year 1, in nanoseconds from 1970.\<close>

definition zero_time :: nanos where
  "zero_time = -62135596800000000000"

definition millis_only :: "nanos \<Rightarrow> nanos" where
  "millis_only t = (t div 1000000) * 1000000"

subsection \<open>Statements\<close>

definition call_row :: "call \<Rightarrow> call" where
  "call_row c = c\<lparr>created_at := millis_only (created_at c), updated_at := millis_only (updated_at c)\<rparr>"

text \<open>\<open>Insert\<close>: \<open>None\<close> when the primary key is taken.\<close>

definition call_insert :: "nanos \<Rightarrow> call \<Rightarrow> call_table \<Rightarrow> (call_table \<times> call) option" where
  "call_insert now c t =
     (let c' = c\<lparr>created_at := if created_at c = zero_time then now else created_at c,
                updated_at := now\<rparr> in
      if call_id c \<in> set (map call_id t) then None else Some (t @ [call_row c'], c'))"

text \<open>Every \<open>UPDATE\<close>: the rows \<open>P\<close> holds of are changed by \<open>f\<close>.\<close>

definition update_rows :: "(call \<Rightarrow> bool) \<Rightarrow> (call \<Rightarrow> call) \<Rightarrow> call_table \<Rightarrow> call_table" where
  "update_rows P f t = map (\<lambda>r. if P r then f r else r) t"

definition call_update :: "nanos \<Rightarrow> call \<Rightarrow> call_table \<Rightarrow> call_table \<times> call" where
  "call_update now c t =
     (update_rows (\<lambda>r. call_id r = call_id c \<and> c_state r \<noteq> Ended)
        (\<lambda>r. r\<lparr>conference := conference c, lk_room := lk_room c, lk_identity := lk_identity c,
               lk_participant := lk_participant c, c_state := c_state c,
               updated_at := millis_only now\<rparr>) t,
      c\<lparr>updated_at := now\<rparr>)"

definition call_swap :: "nanos \<Rightarrow> call \<Rightarrow> call_state \<Rightarrow> (call \<Rightarrow> bool) \<Rightarrow> (call \<Rightarrow> call) \<Rightarrow> call_table
    \<Rightarrow> call_table \<times> bool \<times> call" where
  "call_swap now c to P f t =
     (if filter P t = [] then (t, False, c)
      else (update_rows P (\<lambda>r. (f r)\<lparr>c_state := to, updated_at := millis_only now\<rparr>) t, True,
            c\<lparr>c_state := to, updated_at := now\<rparr>))"

definition call_transition :: "nanos \<Rightarrow> call \<Rightarrow> call_state \<Rightarrow> call_state \<Rightarrow> call_table
    \<Rightarrow> call_table \<times> bool \<times> call" where
  "call_transition now c from to t =
     call_swap now c to (\<lambda>r. call_id r = call_id c \<and> c_state r = from) (\<lambda>r. r) t"

definition call_end :: "nanos \<Rightarrow> call \<Rightarrow> call_table \<Rightarrow> call_table \<times> bool \<times> call" where
  "call_end now c t =
     call_swap now c Ended (\<lambda>r. call_id r = call_id c \<and> c_state r \<noteq> Ended) (\<lambda>r. r) t"

definition conference_taken :: "string \<Rightarrow> call_table \<Rightarrow> bool" where
  "conference_taken conf t = list_ex (\<lambda>r. conference r = conf \<and> c_state r = Bridged) t"

definition call_answer :: "nanos \<Rightarrow> call \<Rightarrow> string \<Rightarrow> call_table \<Rightarrow> call_table \<times> bool \<times> call" where
  "call_answer now c user t =
     (case call_swap now c Bridged
             (\<lambda>r. call_id r = call_id c \<and> c_state r = Ringing
                  \<and> \<not> conference_taken (conference c) t)
             (\<lambda>r. r\<lparr>matrix_user := user\<rparr>) t of
        (t', won, c') \<Rightarrow> (t', won, if won then c'\<lparr>matrix_user := user\<rparr> else c'))"

text \<open>\<open>ORDER BY created_at DESC LIMIT 1\<close>.\<close>

definition latest :: "call list \<Rightarrow> call option" where
  "latest rs = (case sort_key (\<lambda>r. - created_at r) rs of [] \<Rightarrow> None | r # _ \<Rightarrow> Some r)"

definition active_by_room :: "string \<Rightarrow> call_table \<Rightarrow> call option" where
  "active_by_room room t = latest (filter (\<lambda>r. c_room r = room \<and> c_state r \<noteq> Ended) t)"

definition active_by_conference :: "string \<Rightarrow> string \<Rightarrow> call_table \<Rightarrow> call option" where
  "active_by_conference conf rcv t =
     latest (filter (\<lambda>r. conference r = conf \<and> receiver r = rcv \<and> c_state r \<noteq> Ended) t)"

definition answered_elsewhere :: "call \<Rightarrow> nanos \<Rightarrow> call_table \<Rightarrow> call option" where
  "answered_elsewhere c within t =
     latest (filter (\<lambda>r. conference r = conference c \<and> call_id r \<noteq> call_id c \<and> direction r = Inbound
        \<and> matrix_user r \<noteq> [] \<and> c_state r = Bridged
        \<and> millis_only (created_at c - within) \<le> created_at r) t)"

definition by_call_id :: "string \<Rightarrow> call_table \<Rightarrow> call option" where
  "by_call_id i t = find (\<lambda>r. call_id r = i) t"

definition all_active :: "call_table \<Rightarrow> call list" where
  "all_active t = filter (\<lambda>r. c_state r \<noteq> Ended) t"

definition end_all :: "nanos \<Rightarrow> call_table \<Rightarrow> call_table \<times> nat" where
  "end_all now t =
     (update_rows (\<lambda>r. c_state r \<noteq> Ended) (\<lambda>r. r\<lparr>c_state := Ended, updated_at := millis_only now\<rparr>) t,
      length (all_active t))"

subsection \<open>Lemmas on the statements\<close>

definition calls_ok :: "call_table \<Rightarrow> bool" where
  "calls_ok t = distinct (map call_id t)"

text \<open>The rows that are up for one conference because a Matrix user answered them.\<close>

definition answered_legs :: "string \<Rightarrow> call_table \<Rightarrow> call list" where
  "answered_legs conf t =
     filter (\<lambda>r. conference r = conf \<and> direction r = Inbound \<and> c_state r = Bridged) t"

lemma calls_ok_unique:
  "calls_ok t \<Longrightarrow> a \<in> set t \<Longrightarrow> b \<in> set t \<Longrightarrow> call_id a = call_id b \<Longrightarrow> a = b"
  by (auto simp: calls_ok_def intro: distinct_map_inj)

lemma map_update_rows:
  "(\<And>r. P r \<Longrightarrow> g (f r) = g r) \<Longrightarrow> map g (update_rows P f t) = map g t"
  by (simp add: update_rows_def)

lemma set_update_rows:
  "set (update_rows P f t) = {r \<in> set t. \<not> P r} \<union> f ` {r \<in> set t. P r}"
  by (auto simp: update_rows_def)

lemma update_rows_none: "filter P t = [] \<Longrightarrow> update_rows P f t = t"
  by (auto simp: update_rows_def filter_empty_conv map_idI)

lemma by_call_id_Some:
  "calls_ok t \<Longrightarrow> by_call_id i t = Some r \<longleftrightarrow> r \<in> set t \<and> call_id r = i"
  by (induction t) (auto simp: by_call_id_def calls_ok_def)

lemma by_call_id_None: "by_call_id i t = None \<longleftrightarrow> i \<notin> call_id ` set t"
  by (auto simp: by_call_id_def find_None_iff)

lemma by_call_id_append:
  "by_call_id i (t @ u) = (case by_call_id i t of Some r \<Rightarrow> Some r | None \<Rightarrow> by_call_id i u)"
  by (induction t) (auto simp: by_call_id_def)

lemma by_call_id_update:
  assumes "\<And>r. P r \<Longrightarrow> call_id (f r) = call_id r"
  shows "by_call_id i (update_rows P f t)
     = map_option (\<lambda>r. if P r then f r else r) (by_call_id i t)"
  using assms by (induction t) (auto simp: by_call_id_def update_rows_def)

lemma latest_set: "latest rs = Some r \<Longrightarrow> r \<in> set rs \<and> (\<forall>a \<in> set rs. created_at a \<le> created_at r)"
proof -
  assume l: "latest rs = Some r"
  obtain ys where s: "sort_key (\<lambda>r. - created_at r) rs = r # ys"
    using l by (auto simp: latest_def split: list.splits)
  have "sorted (map (\<lambda>r. - created_at r) (r # ys))"
    unfolding s [symmetric] by simp
  then show ?thesis using arg_cong [OF s, of set] by auto
qed

lemma latest_None [simp]: "latest rs = None \<longleftrightarrow> rs = []"
  unfolding latest_def
  by (cases "sort_key (\<lambda>r. - created_at r) rs") (auto dest: arg_cong [where f = set])

subsection \<open>The interface the call subsystem relies on\<close>

text \<open>
  A store of calls as a life cycle: \<open>state_in t i\<close> is the state of call \<open>i\<close>, \<open>try_end\<close> and
  \<open>try_move\<close> are compare-and-swaps, \<open>evolve\<close> is any statement.  A call that has ended stays
  ended, and whoever ends it is the only one to do so.
\<close>

locale life_cycle =
  fixes valid :: "'t \<Rightarrow> bool"
    and state_in :: "'t \<Rightarrow> string \<Rightarrow> call_state option"
    and try_end :: "string \<Rightarrow> 't \<Rightarrow> 't \<times> bool"
    and evolve :: "'t \<Rightarrow> 't \<Rightarrow> bool"
  assumes end_wins: "valid t \<Longrightarrow> snd (try_end i t) = (\<exists>s. state_in t i = Some s \<and> s \<noteq> Ended)"
    and end_ends: "valid t \<Longrightarrow> snd (try_end i t) \<Longrightarrow> state_in (fst (try_end i t)) i = Some Ended"
    and valid_evolve: "valid t \<Longrightarrow> evolve t t' \<Longrightarrow> valid t'"
    and end_evolves: "valid t \<Longrightarrow> evolve t (fst (try_end i t))"
    and ended_stays: "valid t \<Longrightarrow> evolve t t' \<Longrightarrow> state_in t i = Some Ended \<Longrightarrow> state_in t' i = Some Ended"
begin

lemma ended_forever:
  "evolve\<^sup>*\<^sup>* t t' \<Longrightarrow> valid t \<Longrightarrow> state_in t i = Some Ended \<Longrightarrow> valid t' \<and> state_in t' i = Some Ended"
  by (induction rule: rtranclp_induct) (auto intro: valid_evolve ended_stays)

lemma end_once:
  assumes "valid t" "snd (try_end i t)" "evolve\<^sup>*\<^sup>* (fst (try_end i t)) t'"
  shows "\<not> snd (try_end i t')"
proof -
  have "state_in (fst (try_end i t)) i = Some Ended" using assms end_ends by blast
  then have "valid t' \<and> state_in t' i = Some Ended"
    using ended_forever [OF assms(3)] assms(1) end_evolves valid_evolve by blast
  then show ?thesis using end_wins by fastforce
qed

lemma end_leaves_ended:
  assumes "valid t" "state_in t i \<noteq> None"
  shows "state_in (fst (try_end i t)) i = Some Ended"
proof (cases "snd (try_end i t)")
  case False
  then have "state_in t i = Some Ended" using assms end_wins by auto
  then show ?thesis using assms(1) end_evolves ended_stays by blast
qed (use assms end_ends in blast)

end

text \<open>
  The statements the bridge issues: inbound calls are bridged by \<open>Answer\<close>, outbound ones by
  \<open>Transition\<close>, and \<open>Update\<close> writes back a call that has been bridged.
\<close>

inductive call_step :: "call_table \<Rightarrow> call_table \<Rightarrow> bool" where
  insert: "call_insert now c t = Some (t', c') \<Longrightarrow> c_state c = Ringing \<Longrightarrow> call_step t t'"
| answer: "call_step t (fst (call_answer now c user t))"
    if "by_call_id (call_id c) t = Some r" "conference r = conference c"
| move: "call_step t (fst (call_transition now c Ringing Bridged t))"
    if "by_call_id (call_id c) t = Some r" "direction r = Outbound"
| update: "call_step t (fst (call_update now c t))"
    if "by_call_id (call_id c) t = Some r" "conference r = conference c"
      "c_state c = Bridged" "c_state r \<noteq> Ringing"
| finish: "call_step t (fst (call_end now c t))"
| restart: "call_step t (fst (end_all now t))"

inductive_cases call_stepE: "call_step t t'"

definition state_in :: "call_table \<Rightarrow> string \<Rightarrow> call_state option" where
  "state_in t i = map_option c_state (by_call_id i t)"

definition end_by_id :: "nanos \<Rightarrow> string \<Rightarrow> call_table \<Rightarrow> call_table \<times> bool" where
  "end_by_id now i t =
     (let P = (\<lambda>r. call_id r = i \<and> c_state r \<noteq> Ended) in
      (update_rows P (\<lambda>r. r\<lparr>c_state := Ended, updated_at := millis_only now\<rparr>) t, filter P t \<noteq> []))"

lemma call_end_by_id:
  "call_end now c t = (fst (end_by_id now (call_id c) t), snd (end_by_id now (call_id c) t),
     if snd (end_by_id now (call_id c) t) then c\<lparr>c_state := Ended, updated_at := now\<rparr> else c)"
  by (simp add: call_end_def call_swap_def end_by_id_def Let_def update_rows_none)

lemma calls_ok_update_rows:
  "(\<And>r. P r \<Longrightarrow> call_id (f r) = call_id r) \<Longrightarrow> calls_ok (update_rows P f t) = calls_ok t"
  by (simp add: calls_ok_def map_update_rows)

text \<open>The table after a compare-and-swap, won or lost.\<close>

lemma call_swap_table:
  "fst (call_swap now c to P f t) = update_rows P (\<lambda>r. (f r)\<lparr>c_state := to, updated_at := millis_only now\<rparr>) t"
  "fst (snd (call_swap now c to P f t)) = (filter P t \<noteq> [])"
  by (simp_all add: call_swap_def update_rows_none)

lemma call_answer_table:
  "fst (call_answer now c user t) = update_rows
     (\<lambda>r. call_id r = call_id c \<and> c_state r = Ringing \<and> \<not> conference_taken (conference c) t)
     (\<lambda>r. r\<lparr>matrix_user := user, c_state := Bridged, updated_at := millis_only now\<rparr>) t"
  "fst (snd (call_answer now c user t)) =
     (\<exists>r \<in> set t. call_id r = call_id c \<and> c_state r = Ringing \<and> \<not> conference_taken (conference c) t)"
  by (simp_all add: call_answer_def split_beta call_swap_table filter_empty_conv) blast

lemma call_transition_table:
  "fst (call_transition now c from to t) = update_rows
     (\<lambda>r. call_id r = call_id c \<and> c_state r = from) (\<lambda>r. r\<lparr>c_state := to, updated_at := millis_only now\<rparr>) t"
  "fst (snd (call_transition now c from to t)) = (\<exists>r \<in> set t. call_id r = call_id c \<and> c_state r = from)"
  by (auto simp: call_transition_def call_swap_table filter_empty_conv)

text \<open>Every statement is an update that leaves ended rows and IDs alone, or an insert.\<close>

definition live_update :: "call_table \<Rightarrow> call_table \<Rightarrow> bool" where
  "live_update t t' =
     (\<exists>P f. t' = update_rows P f t \<and> (\<forall>r. P r \<longrightarrow> c_state r \<noteq> Ended \<and> call_id (f r) = call_id r))"

lemma live_updateI:
  "(\<And>r. P r \<Longrightarrow> c_state r \<noteq> Ended \<and> call_id (f r) = call_id r) \<Longrightarrow> live_update t (update_rows P f t)"
  unfolding live_update_def by blast

lemma call_step_shape:
  assumes "call_step t t'"
  shows "(\<exists>c. call_id c \<notin> call_id ` set t \<and> c_state c = Ringing \<and> t' = t @ [c]) \<or> live_update t t'"
  using assms
proof cases
  case (insert now c c')
  then show ?thesis
    by (auto simp: call_insert_def Let_def call_row_def split: if_splits)
qed (auto simp: call_answer_table call_transition_table call_update_def call_end_by_id end_by_id_def
      end_all_def Let_def intro!: live_updateI)

lemma live_update_ok: "live_update t t' \<Longrightarrow> calls_ok t' = calls_ok t"
  unfolding live_update_def using calls_ok_update_rows by blast

lemma calls_ok_step: "calls_ok t \<Longrightarrow> call_step t t' \<Longrightarrow> calls_ok t'"
  using call_step_shape [of t t'] live_update_ok [of t t'] by (auto simp: calls_ok_def)

lemma live_update_ended:
  assumes "live_update t t'" "by_call_id i t = Some r" "c_state r = Ended"
  shows "by_call_id i t' = Some r"
proof -
  obtain P f where "t' = update_rows P f t" "\<forall>r. P r \<longrightarrow> c_state r \<noteq> Ended \<and> call_id (f r) = call_id r"
    using assms(1) by (auto simp: live_update_def)
  then show ?thesis using assms(2,3) by (auto simp: by_call_id_update)
qed

lemma ended_row_stays:
  assumes "call_step t t'" "by_call_id i t = Some r" "c_state r = Ended"
  shows "by_call_id i t' = Some r"
proof -
  have "by_call_id i (t @ [c]) = Some r" for c
    using assms(2) by (induction t) (auto simp: by_call_id_def)
  then show ?thesis using call_step_shape [OF assms(1)] live_update_ended assms(2,3) by auto
qed

lemma state_in_ended_stays:
  "call_step t t' \<Longrightarrow> state_in t i = Some Ended \<Longrightarrow> state_in t' i = Some Ended"
  using ended_row_stays by (auto simp: state_in_def)

interpretation calls: life_cycle calls_ok state_in "end_by_id now" call_step for now
proof unfold_locales
  fix t t' :: call_table and i :: string
  assume t: "calls_ok t"
  have mem: "(\<exists>s. state_in t i = Some s \<and> s \<noteq> Ended) = (\<exists>r \<in> set t. call_id r = i \<and> c_state r \<noteq> Ended)"
    using by_call_id_Some [OF t, of i] by (auto simp: state_in_def)
  show "snd (end_by_id now i t) = (\<exists>s. state_in t i = Some s \<and> s \<noteq> Ended)"
    unfolding mem by (auto simp: end_by_id_def Let_def filter_empty_conv)
  show "state_in (fst (end_by_id now i t)) i = Some Ended" if won: "snd (end_by_id now i t)"
  proof -
    obtain r where "r \<in> set t" "call_id r = i" "c_state r \<noteq> Ended"
      using won by (auto simp: end_by_id_def Let_def filter_empty_conv)
    then have "by_call_id i t = Some r" "c_state r \<noteq> Ended"
      using by_call_id_Some [OF t, of i] by blast+
    moreover have "call_id r = i" using calculation(1) by_call_id_Some [OF t] by blast
    ultimately show ?thesis
      by (simp add: state_in_def end_by_id_def Let_def by_call_id_update)
  qed
  show "calls_ok t'" if "call_step t t'" using t that by (rule calls_ok_step)
  have "fst (end_by_id now i t) = fst (call_end now (undefined\<lparr>call_id := i\<rparr>) t)"
    by (simp add: call_end_by_id)
  then show "call_step t (fst (end_by_id now i t))" using call_step.finish by metis
  show "state_in t' i = Some Ended" if "call_step t t'" "state_in t i = Some Ended"
    using that by (rule state_in_ended_stays)
qed

subsection \<open>One answered leg per conference\<close>

definition is_leg :: "call \<Rightarrow> bool" where
  "is_leg r = (direction r = Inbound \<and> c_state r = Bridged)"

definition one_leg :: "call_table \<Rightarrow> bool" where
  "one_leg t =
     (\<forall>a \<in> set t. \<forall>b \<in> set t. is_leg a \<longrightarrow> is_leg b \<longrightarrow> conference a = conference b \<longrightarrow> call_id a = call_id b)"

text \<open>An update that makes no new leg and moves none to another conference.\<close>

lemma one_leg_update:
  assumes "one_leg t"
    and "\<And>r. r \<in> set t \<Longrightarrow> P r \<Longrightarrow> is_leg (f r) \<Longrightarrow> is_leg r \<and> conference (f r) = conference r \<and> call_id (f r) = call_id r"
  shows "one_leg (update_rows P f t)"
  using assms unfolding one_leg_def set_update_rows by (auto 4 3)

lemma one_leg_answer:
  assumes ok: "calls_ok t" and one: "one_leg t"
    and r: "by_call_id (call_id c) t = Some r" "conference r = conference c"
  shows "one_leg (fst (call_answer now c user t))"
proof (cases "conference_taken (conference c) t")
  case True
  then show ?thesis
    using one_leg_update [OF one, of "\<lambda>_. False"] by (simp add: call_answer_table update_rows_def)
next
  case False
  have free: "\<not> is_leg a" if "a \<in> set t" "conference a = conference c" for a
    using False that by (auto simp: conference_taken_def list_ex_iff is_leg_def)
  have mine: "conference a = conference c" if "a \<in> set t" "call_id a = call_id c" for a
    using r that by_call_id_Some [OF ok] calls_ok_unique [OF ok] by metis
  have cls: "x \<in> set t \<and> is_leg x \<and> conference x \<noteq> conference c
      \<or> call_id x = call_id c \<and> conference x = conference c"
    if "x \<in> set (fst (call_answer now c user t))" "is_leg x" for x
    using that free mine by (auto simp: call_answer_table set_update_rows)
  show ?thesis
    unfolding one_leg_def
  proof (intro ballI impI)
    fix a b assume "a \<in> set (fst (call_answer now c user t))" "b \<in> set (fst (call_answer now c user t))"
      "is_leg a" "is_leg b" "conference a = conference b"
    then show "call_id a = call_id b"
      using cls [of a] cls [of b] one by (auto simp: one_leg_def)
  qed
qed

lemma one_leg_step:
  assumes "calls_ok t" "one_leg t" "call_step t t'"
  shows "one_leg t'"
  using assms(3)
proof cases
  case (insert now c c')
  then obtain x where x: "t' = t @ [x]" "\<not> is_leg x"
    by (auto simp: call_insert_def Let_def call_row_def is_leg_def split: if_splits)
  have s: "set (t @ [x]) = insert x (set t)" by simp
  show ?thesis using assms(2) x(2) unfolding one_leg_def x(1) s by blast
next
  case (answer c r now user)
  show ?thesis unfolding answer(1) by (rule one_leg_answer [OF assms(1,2) answer(2,3)])
next
  case (move c r now)
  have "direction a = Outbound" if "a \<in> set t" "call_id a = call_id c" for a
    using move that by_call_id_Some [OF assms(1)] calls_ok_unique [OF assms(1)] by metis
  then show ?thesis
    unfolding move(1) call_transition_table
    by (intro one_leg_update [OF assms(2)]) (auto simp: is_leg_def)
next
  case (update c r now)
  have "a = r" if "a \<in> set t" "call_id a = call_id c" for a
    using update that by_call_id_Some [OF assms(1)] calls_ok_unique [OF assms(1)] by metis
  moreover have "c_state r \<noteq> Ended \<Longrightarrow> c_state r = Bridged" using update by (cases "c_state r") auto
  ultimately show ?thesis
    unfolding update(1) call_update_def fst_conv
    by (intro one_leg_update [OF assms(2)]) (use update(3) in \<open>auto simp: is_leg_def\<close>)
next
  case (finish now c)
  show ?thesis
    unfolding finish(1) call_end_by_id end_by_id_def Let_def fst_conv
    by (intro one_leg_update [OF assms(2)]) (auto simp: is_leg_def)
next
  case (restart now)
  show ?thesis
    unfolding restart(1) end_all_def fst_conv
    by (intro one_leg_update [OF assms(2)]) (auto simp: is_leg_def)
qed

lemma reachable_calls: "call_step\<^sup>*\<^sup>* [] t \<Longrightarrow> calls_ok t \<and> one_leg t"
  by (induction rule: rtranclp_induct)
     (auto simp: calls_ok_def [of "[]"] one_leg_def [of "[]"] intro: calls_ok_step one_leg_step)

subsection \<open>Properties\<close>

lemma length_le_one:
  assumes "distinct (map f xs)" "\<And>a b. a \<in> set xs \<Longrightarrow> b \<in> set xs \<Longrightarrow> f a = f b"
  shows "length xs \<le> 1"
proof (rule ccontr)
  assume "\<not> length xs \<le> 1"
  then have l: "0 < length xs" "1 < length xs" by linarith+
  then have "f (xs ! 0) = f (xs ! 1)" by (intro assms(2) nth_mem)
  then show False using nth_eq_iff_index_eq [OF assms(1), of 0 1] l by simp
qed


definition sample_call :: "string \<Rightarrow> string \<Rightarrow> call" where
  "sample_call i user =
     \<lparr>call_id = i, c_portal = ''line2-+15551234567'', c_room = ''!'' @ i, receiver = user,
      matrix_user = [], direction = Inbound, conference = ''sip-line2-+15551234567'', lk_room = ''r'',
      lk_identity = ''ghost'', lk_participant = [], c_state = Ringing, created_at = zero_time,
      updated_at = 0\<rparr>"

definition two_legs :: call_table where
  "two_legs = [call_row (sample_call ''1'' ''@a''\<lparr>created_at := 5, updated_at := 5\<rparr>),
               call_row (sample_call ''2'' ''@b''\<lparr>created_at := 6, updated_at := 6\<rparr>)]"

lemma two_legs_reachable: "call_step\<^sup>*\<^sup>* [] two_legs"
proof -
  have "call_step [] [call_row (sample_call ''1'' ''@a''\<lparr>created_at := 5, updated_at := 5\<rparr>)]"
    by (rule call_step.insert [where now = 5 and c = "sample_call ''1'' ''@a''"])
       (simp_all add: call_insert_def sample_call_def Let_def)
  moreover have "call_step [call_row (sample_call ''1'' ''@a''\<lparr>created_at := 5, updated_at := 5\<rparr>)] two_legs"
    by (rule call_step.insert [where now = 6 and c = "sample_call ''2'' ''@b''"])
       (simp_all add: call_insert_def sample_call_def two_legs_def call_row_def Let_def)
  ultimately show ?thesis by (meson rtranclp.simps)
qed




end
