(* ===== verification/Rtc.thy ===== *)
theory Rtc
  imports Call_Store
begin

section \<open>MatrixRTC events (\<open>rtc.go\<close>, \<open>notification.go\<close>, \<open>identity.go\<close>, \<open>membership.go\<close>)\<close>

text \<open>
  What the bridge reads from and writes into a room's RTC session: when a membership counts as
  active, the identity a call's ghost has in Matrix and in LiveKit, the state key and content
  of its membership, the ring notification, and the two caches of room state.  The JSON
  decoder and the MSC4195 hash are parameters.  Times are nanoseconds, \<open>created_ts\<close> and
  \<open>expires\<close> are milliseconds as \<open>int64\<close>.
\<close>

subsection \<open>Reading a membership\<close>

record call_membership =
  m_created_ts :: int
  m_expires_ms :: int

record call_member_content =
  application :: string
  m_call_id :: string
  device_id :: string
  created_ts :: int
  expires_ms :: int
  memberships :: "call_membership list"

definition expired :: "int \<Rightarrow> int \<Rightarrow> nanos \<Rightarrow> nanos \<Rightarrow> bool" where
  "expired created expires now origin =
     (if expires \<le> 0 then False
      else let base = (if created > 0 then created * 1000000 else origin) in
        if base = zero_time then False
        else base + i64 (expires * 1000000) < now)"

definition is_active :: "call_member_content \<Rightarrow> nanos \<Rightarrow> nanos \<Rightarrow> bool" where
  "is_active c now origin =
     (if memberships c \<noteq> []
      then list_ex (\<lambda>m. \<not> expired (m_created_ts m) (m_expires_ms m) now origin) (memberships c)
      else if device_id c = [] \<and> m_call_id c = [] \<and> application c = [] then False
      else \<not> expired (created_ts c) (expires_ms c) now origin)"

text \<open>\<open>ParseCallMember\<close>: \<open>None\<close> is the decoder's error.\<close>

definition parse_call_member ::
  "(string \<Rightarrow> call_member_content option) \<Rightarrow> string \<Rightarrow> nanos \<Rightarrow> nanos \<Rightarrow> bool option" where
  "parse_call_member decode raw now origin =
     (if raw = [] then Some False
      else case decode raw of None \<Rightarrow> None | Some c \<Rightarrow> Some (is_active c now origin))"

text \<open>\<open>declineTarget\<close>, given the decoded relation of a decline.\<close>

definition decline_target :: "(string \<Rightarrow> (string \<times> string) option) \<Rightarrow> string \<Rightarrow> string option" where
  "decline_target decode raw =
     (if raw = [] then None
      else case decode raw of
          None \<Rightarrow> None
        | Some (rel_type, event_id) \<Rightarrow>
            if rel_type \<noteq> ''m.reference'' \<or> event_id = [] then None else Some event_id)"

subsection \<open>Identities\<close>

datatype identity_scheme = UserDevice | Hashed

definition device_id_len :: nat where
  "device_id_len = 8"

definition device_id_for :: "string \<Rightarrow> string" where
  "device_id_for cid =
     ''SIP'' @ map ascii_upper (if length cid > device_id_len then take device_id_len cid else cid)"

definition member_id_for :: "identity_scheme \<Rightarrow> string \<Rightarrow> string \<Rightarrow> string \<Rightarrow> string" where
  "member_id_for scheme user dev opaque = (if scheme = Hashed then opaque else user @ '':'' @ dev)"

definition participant_identity_for ::
  "(string list \<Rightarrow> string) \<Rightarrow> identity_scheme \<Rightarrow> string \<Rightarrow> string \<Rightarrow> string \<Rightarrow> string" where
  "participant_identity_for hash scheme user dev member =
     (if scheme = Hashed then hash [user, dev, member] else member)"

record call_identity =
  i_user :: string
  i_device :: string
  i_membership :: string
  i_participant :: string

definition identity_for :: "(string list \<Rightarrow> string) \<Rightarrow> identity_scheme \<Rightarrow> string \<Rightarrow> string \<Rightarrow> call_identity" where
  "identity_for hash scheme user cid =
     (let dev = device_id_for cid; mid = member_id_for scheme user dev cid in
      \<lparr>i_user = user, i_device = dev, i_membership = mid,
       i_participant = participant_identity_for hash scheme user dev mid\<rparr>)"

subsection \<open>The state key and the caches\<close>

definition slot_room :: string where
  "slot_room = ''m.call#ROOM''"

definition rtc_state_key :: "string \<Rightarrow> string \<Rightarrow> string \<Rightarrow> bool \<Rightarrow> string" where
  "rtc_state_key user dev slot owned =
     (let key = user @ ''_'' @ dev @ ''_'' @ slot in if owned then key else ''_'' @ key)"

definition supports_owned_state_keys :: "string \<Rightarrow> bool" where
  "supports_owned_state_keys v = (has_prefix v ''org.matrix.msc3757.'' \<or> has_prefix v ''org.matrix.msc3779.'')"

text \<open>What reading \<open>m.room.create\<close> gives: no reader, an error, nothing, another content, a version.\<close>

datatype create_read = NoReader | ReadError | NoEvent | OtherContent | RoomVersion string

definition owned_state_keys ::
  "(string \<Rightarrow> bool option) \<Rightarrow> string \<Rightarrow> create_read \<Rightarrow> bool \<times> (string \<Rightarrow> bool option)" where
  "owned_state_keys cache room read =
     (case cache room of
        Some owned \<Rightarrow> (owned, cache)
      | None \<Rightarrow>
          (let owned = (case read of RoomVersion v \<Rightarrow> supports_owned_state_keys v | _ \<Rightarrow> False) in
           (owned, cache(room := Some owned))))"

definition state_key_for ::
  "(string \<Rightarrow> bool option) \<Rightarrow> string \<Rightarrow> create_read \<Rightarrow> string \<Rightarrow> string \<Rightarrow> string \<times> (string \<Rightarrow> bool option)" where
  "state_key_for cache room read user dev =
     (case owned_state_keys cache room read of
        (owned, cache') \<Rightarrow> (rtc_state_key user dev slot_room owned, cache'))"

text \<open>\<open>warnIfEncrypted\<close>: the second result is whether it warns.\<close>

datatype encryption_read = EncNoReader | EncError | EncNone | EncSet

definition warn_if_encrypted ::
  "(string \<Rightarrow> bool option) \<Rightarrow> string \<Rightarrow> encryption_read \<Rightarrow> (string \<Rightarrow> bool option) \<times> bool" where
  "warn_if_encrypted cache room read =
     (if cache room \<noteq> None then (cache, False)
      else case read of
          EncNoReader \<Rightarrow> (cache, False)
        | EncError \<Rightarrow> (cache, False)
        | EncNone \<Rightarrow> (cache(room := Some False), False)
        | EncSet \<Rightarrow> (cache(room := Some True), True))"

subsection \<open>What the bridge publishes\<close>

text \<open>The nested fields repeat the flat ones; both are in the record.\<close>

record ghost_content =
  g_member_user :: string
  g_member_device :: string
  g_member_id :: string
  g_application :: string
  g_call_id :: string
  g_device :: string
  g_membership_id :: string
  g_created_ts :: int
  g_expires :: int
  g_intent :: string
  g_focus :: "string \<times> string"
  g_foci :: "(string \<times> string \<times> string) list"

definition ghost_membership ::
  "nanos \<Rightarrow> string \<Rightarrow> string \<Rightarrow> string \<Rightarrow> string \<Rightarrow> string \<Rightarrow> nanos \<Rightarrow> ghost_content" where
  "ghost_membership now user room dev mid jwt expiry =
     \<lparr>g_member_user = user, g_member_device = dev, g_member_id = mid, g_application = ''m.call'',
      g_call_id = [], g_device = dev, g_membership_id = mid, g_created_ts = now div 1000000,
      g_expires = expiry div 1000000, g_intent = ''audio'',
      g_focus = (''livekit'', ''oldest_membership''), g_foci = [(''livekit'', room, jwt)]\<rparr>"

text \<open>How the bridge itself reads such a content, and the empty one that ends a membership.\<close>

definition ghost_as_member :: "ghost_content \<Rightarrow> call_member_content" where
  "ghost_as_member g =
     \<lparr>application = g_application g, m_call_id = g_call_id g, device_id = g_device g,
      created_ts = g_created_ts g, expires_ms = g_expires g, memberships = []\<rparr>"

definition leave_membership :: call_member_content where
  "leave_membership =
     \<lparr>application = [], m_call_id = [], device_id = [], created_ts = 0, expires_ms = 0, memberships = []\<rparr>"

record ring_content =
  r_sender_ts :: int
  r_lifetime :: int
  r_mentions :: "string list"
  r_relates_to :: "string option"

definition ring_notification :: "nanos \<Rightarrow> nanos \<Rightarrow> string \<Rightarrow> string list \<Rightarrow> ring_content" where
  "ring_notification now lifetime membership mention =
     \<lparr>r_sender_ts = now div 1000000, r_lifetime = lifetime div 1000000, r_mentions = mention,
      r_relates_to = (if membership = [] then None else Some membership)\<rparr>"

text \<open>\<open>humanMembers\<close> of the members of a room, each with whether it has joined.\<close>

definition human_members :: "string \<Rightarrow> (string \<Rightarrow> bool) \<Rightarrow> (string \<times> bool) list option \<Rightarrow> string list" where
  "human_members bot_mxid is_ghost members =
     (case members of
        None \<Rightarrow> []
      | Some ms \<Rightarrow> sort (map fst (filter (\<lambda>(u, joined). joined \<and> u \<noteq> bot_mxid \<and> \<not> is_ghost u) ms)))"

subsection \<open>Properties\<close>

lemma expires_fits: "0 \<le> x \<Longrightarrow> x \<le> 9223372036854 \<Longrightarrow> i64 (x * 1000000) = x * 1000000"
  by (intro i64_id) simp_all

text \<open>The membership the bridge publishes for a ghost reads as active from its creation to
  its expiry and as gone after it, and the leave content never reads as active.\<close>

theorem own_membership_reads_back:
  assumes "1000000 \<le> now" "now mod 1000000 = 0" "dev \<noteq> []"
    and "1000000 \<le> expiry" "expiry < 2 ^ 63" "expiry mod 1000000 = 0"
  shows "is_active (ghost_as_member (ghost_membership now user room dev mid jwt expiry)) t origin
           = (t \<le> now + expiry)
    \<and> \<not> is_active leave_membership t origin"
proof -
  have n: "now div 1000000 * 1000000 = now" "0 < now div 1000000"
    using assms(1,2) by (auto simp: pos_imp_zdiv_pos_iff)
  have e: "expiry div 1000000 * 1000000 = expiry" "0 < expiry div 1000000"
    using assms(4,6) by (auto simp: pos_imp_zdiv_pos_iff)
  have "i64 (expiry div 1000000 * 1000000) = expiry"
    unfolding e(1) using assms(4,5) by (intro i64_id) simp_all
  moreover have "now \<noteq> zero_time" using assms(1) by (simp add: zero_time_def)
  ultimately show ?thesis
    using n e assms(3)
    by (auto simp: is_active_def ghost_as_member_def ghost_membership_def leave_membership_def
        expired_def Let_def)
qed

theorem own_membership_reads_back_witness:
  "is_active (ghost_as_member (ghost_membership 1700000000000000000 ''@sip_1:e'' ''!r'' ''SIPAB'' ''m'' ''u''
     21600000000000)) 1700000001000000000 0"
  using own_membership_reads_back [where now = 1700000000000000000 and expiry = 21600000000000
      and dev = "''SIPAB''" and t = 1700000001000000000] by simp

text \<open>A membership counts as lapsed exactly once its lifetime has run from its creation, or
  from the event where it has no creation time; without a lifetime it never lapses.  This
  holds for every lifetime up to 292 years, the largest the arithmetic carries.\<close>

theorem expiry_is_a_duration:
  assumes "expires \<le> 9223372036854"
  shows "expired created expires now origin =
    (let base = if 0 < created then created * 1000000 else origin in
     0 < expires \<and> base \<noteq> zero_time \<and> base + expires * 1000000 < now)"
  using assms expires_fits [of expires] by (simp add: expired_def Let_def)

theorem expiry_is_a_duration_witness:
  "\<not> expired 1700000000000 14400000 1700000000500000000 0"
  using expiry_is_a_duration [of 14400000 1700000000000 1700000000500000000 0] by (simp add: Let_def)

text \<open>A longer lifetime overflows the duration: from 9223372036855 milliseconds on (up to
  the next wrap) a membership counts as lapsed the moment it is created, so the join of a
  client that sends such a lifetime is read as a leave.\<close>

theorem huge_expiry_is_a_leave:
  assumes "9223372036855 \<le> expires" "expires \<le> 18446744073709"
    and "0 < created" "created * 1000000 \<le> now"
  shows "expired created expires now origin"
proof -
  have "i64 (expires * 1000000) = expires * 1000000 - 2 ^ 64"
  proof -
    have "(expires * 1000000 + 2 ^ 63) mod 2 ^ 64 = (expires * 1000000 + 2 ^ 63 - 2 ^ 64) mod 2 ^ 64"
      by (simp only: minus_mod_self2)
    also have "\<dots> = expires * 1000000 + 2 ^ 63 - 2 ^ 64"
      using assms(1,2) by (intro mod_pos_pos_trivial) simp_all
    finally show ?thesis by (simp add: i64_def)
  qed
  moreover have "created * 1000000 \<noteq> zero_time" using assms(3) by (simp add: zero_time_def)
  ultimately show ?thesis using assms by (simp add: expired_def Let_def)
qed

theorem huge_expiry_is_a_leave_witness:
  "\<not> is_active \<lparr>application = ''m.call'', m_call_id = [], device_id = ''D'', created_ts = 1700000000000,
       expires_ms = 9300000000000, memberships = []\<rparr> 1700000000000000000 0"
  using huge_expiry_is_a_leave [of 9300000000000 1700000000000 1700000000000000000 0]
  by (simp add: is_active_def)

definition hex_digit :: "char \<Rightarrow> bool" where
  "hex_digit c = (let n = of_char c :: nat in 48 \<le> n \<and> n \<le> 57 \<or> 97 \<le> n \<and> n \<le> 102)"

lemma upper_hex_inj:
  assumes "hex_digit a" "hex_digit b" "ascii_upper a = ascii_upper b"
  shows "a = b"
proof -
  have *: "of_char (ascii_upper c) = (if 97 \<le> (of_char c :: nat) then of_char c - 32 else of_char c :: nat)"
    if "hex_digit c" for c
    using that by (auto simp: hex_digit_def ascii_upper_def Let_def)
  have "(if 97 \<le> (of_char a :: nat) then of_char a - 32 else of_char a :: nat)
      = (if 97 \<le> (of_char b :: nat) then of_char b - 32 else of_char b)"
    using * [OF assms(1)] * [OF assms(2)] assms(3) by simp
  moreover have "x = y" if "48 \<le> x \<and> x \<le> 57 \<or> 97 \<le> x \<and> x \<le> 102" "48 \<le> y \<and> y \<le> 57 \<or> 97 \<le> y \<and> y \<le> 102"
    "(if 97 \<le> x then x - 32 else x) = (if 97 \<le> y then y - 32 else y)" for x y :: nat
    using that by (auto split: if_splits)
  ultimately have "of_char a = (of_char b :: nat)"
    using assms(1,2) unfolding hex_digit_def Let_def by blast
  then show ?thesis by simp
qed

lemma upper_hex_list:
  assumes "\<forall>c \<in> set xs. hex_digit c" "\<forall>c \<in> set ys. hex_digit c"
    and "map ascii_upper xs = map ascii_upper ys"
  shows "xs = ys"
proof (rule map_inj_on [OF assms(3)])
  show "inj_on ascii_upper (set xs \<union> set ys)"
    by (rule inj_onI) (use assms(1,2) upper_hex_inj in blast)
qed

lemma device_id_for_hex:
  assumes "\<forall>c \<in> set i. hex_digit c" "\<forall>c \<in> set j. hex_digit c"
  shows "(device_id_for i = device_id_for j) = (take 8 i = take 8 j)"
proof -
  have d: "device_id_for x = ''SIP'' @ map ascii_upper (take 8 x)" for x
    by (simp add: device_id_for_def device_id_len_def)
  have "map ascii_upper (take 8 i) = map ascii_upper (take 8 j) \<Longrightarrow> take 8 i = take 8 j"
    by (rule upper_hex_list) (use assms in \<open>auto dest: in_set_takeD\<close>)
  then show ?thesis by (auto simp: d)
qed

text \<open>Two calls of one ghost share a membership state key in a room exactly when their IDs
  agree in the first eight hex digits; under the user-and-device scheme that is also when they
  share the member ID and the LiveKit identity.\<close>

theorem membership_keys_separate_calls:
  assumes "\<forall>c \<in> set i. hex_digit c" "\<forall>c \<in> set j. hex_digit c"
  shows "(rtc_state_key user (device_id_for i) slot_room owned = rtc_state_key user (device_id_for j) slot_room owned)
       = (take 8 i = take 8 j)
    \<and> (i_participant (identity_for hash UserDevice user i) = i_participant (identity_for hash UserDevice user j))
       = (take 8 i = take 8 j)"
proof -
  have len: "length (device_id_for x) = 3 + min 8 (length x)" for x
    by (simp add: device_id_for_def device_id_len_def)
  have "(rtc_state_key user (device_id_for i) slot_room owned = rtc_state_key user (device_id_for j) slot_room owned)
      = (device_id_for i = device_id_for j)"
    by (simp add: rtc_state_key_def Let_def)
  then show ?thesis
    using device_id_for_hex [OF assms]
    by (simp add: identity_for_def Let_def participant_identity_for_def member_id_for_def)
qed

theorem membership_keys_separate_calls_witness:
  "rtc_state_key ''@sip_1:e'' (device_id_for ''00ff12ab99'') slot_room False
     = ''_@sip_1:e_SIP00FF12AB_m.call#ROOM''
   \<and> rtc_state_key ''@sip_1:e'' (device_id_for ''00ff12ab99'') slot_room False
     \<noteq> rtc_state_key ''@sip_1:e'' (device_id_for ''00ff12ac99'') slot_room False"
proof
  show "rtc_state_key ''@sip_1:e'' (device_id_for ''00ff12ab99'') slot_room False
     = ''_@sip_1:e_SIP00FF12AB_m.call#ROOM''" by code_simp
  have "\<forall>c \<in> set ''00ff12ab99''. hex_digit c" "\<forall>c \<in> set ''00ff12ac99''. hex_digit c"
    by code_simp+
  from membership_keys_separate_calls [OF this, of "''@sip_1:e''" False]
  show "rtc_state_key ''@sip_1:e'' (device_id_for ''00ff12ab99'') slot_room False
     \<noteq> rtc_state_key ''@sip_1:e'' (device_id_for ''00ff12ac99'') slot_room False" by simp
qed

text \<open>The answer to whether a user owns its state keys in a room is fixed by the first time
  it is asked, a failed read included: a room whose version could not be read once is given
  the prefixed key for the life of the process, whereas the encryption warning forgets a
  failed read and asks again.\<close>

theorem failed_version_read_sticks:
  assumes "cache room = None"
  shows "fst (owned_state_keys (snd (owned_state_keys cache room ReadError)) room (RoomVersion v)) = False
    \<and> fst (owned_state_keys cache room (RoomVersion v)) = supports_owned_state_keys v
    \<and> snd (warn_if_encrypted (fst (warn_if_encrypted cache room EncError)) room EncSet)"
  using assms by (simp add: owned_state_keys_def warn_if_encrypted_def Let_def)

theorem failed_version_read_sticks_witness:
  "fst (owned_state_keys (snd (owned_state_keys (\<lambda>_. None) ''!r'' ReadError)) ''!r''
       (RoomVersion ''org.matrix.msc3757.10'')) = False
   \<and> supports_owned_state_keys ''org.matrix.msc3757.10''"
  using failed_version_read_sticks [of "\<lambda>_. None" "''!r''" "''org.matrix.msc3757.10''"]
  by (simp add: supports_owned_state_keys_def)

end
