(* ===== verification/Call_Record.thy ===== *)
theory Call_Record
  imports Call_Store
begin

section \<open>How a call ended (\<open>record.go\<close>, \<open>notices.go\<close>, \<open>recipients.go\<close>)\<close>

text \<open>
  The classification of a finished call, which both the counter and the timeline record are
  made from, the text of the record with its duration, the switches for the notices and the
  SIP status for a refused recipient.  The text is in UTF-8: \<open>dash\<close> is an em dash.
\<close>

record call_ending =
  end_declined :: bool
  end_failure :: string
  end_answered_by :: string
  end_quiet :: bool

definition plain_end :: call_ending where
  "plain_end = \<lparr>end_declined = False, end_failure = [], end_answered_by = [], end_quiet = False\<rparr>"

datatype call_outcome =
  OutcomeAnswered | OutcomeMissed | OutcomeDeclined | OutcomeFailed | OutcomeStale | OutcomeAnsweredElsewhere

definition call_outcome :: "call \<Rightarrow> call_ending \<Rightarrow> call_outcome" where
  "call_outcome c e =
     (if end_quiet e then OutcomeStale
      else if end_failure e \<noteq> [] then OutcomeFailed
      else if end_answered_by e \<noteq> [] then OutcomeAnsweredElsewhere
      else if c_state c = Bridged then OutcomeAnswered
      else if end_declined e then OutcomeDeclined
      else OutcomeMissed)"

datatype media_error = ErrNoTrunk | ErrMedia

definition media_failure_reason :: "media_error \<Rightarrow> string" where
  "media_failure_reason e = (if e = ErrNoTrunk then ''no route'' else ''could not connect'')"

subsection \<open>The length of a call\<close>

text \<open>\<open>Duration.Round(time.Second)\<close> of a duration that is not negative: half away from zero,
  saturating.\<close>

definition round_second :: "nanos \<Rightarrow> nanos" where
  "round_second d =
     (let r = d mod 1000000000 in
      if r + r < 1000000000 then d - r
      else let d1 = i64 (d + (1000000000 - r)) in if d1 > d then d1 else 2 ^ 63 - 1)"

definition call_seconds :: "nanos \<Rightarrow> int" where
  "call_seconds d0 =
     (let d = max d0 0; total = round_second d div 1000000000 in
      if total = 0 \<and> d > 0 then 1 else total)"

definition format_call_duration :: "nanos \<Rightarrow> string" where
  "format_call_duration d =
     (let total = call_seconds d; h = total div 3600; m = total div 60 mod 60; s = total mod 60 in
      if h > 0 then show_int h @ ''h '' @ show_int m @ ''m '' @ show_int s @ ''s''
      else if m > 0 then show_int m @ ''m '' @ show_int s @ ''s''
      else show_int s @ ''s'')"

subsection \<open>The record\<close>

definition dash :: string where
  "dash = '' '' @ [CHR 0xE2, CHR 0x80, CHR 0x94] @ '' ''"

definition call_record_body :: "call \<Rightarrow> call_ending \<Rightarrow> nanos \<Rightarrow> string" where
  "call_record_body c e now =
     (case call_outcome c e of
        OutcomeFailed \<Rightarrow> ''Call failed'' @ dash @ end_failure e
      | OutcomeAnswered \<Rightarrow>
          (if direction c = Outbound then ''Outgoing call'' else ''Incoming call'')
            @ dash @ format_call_duration (now - updated_at c)
      | OutcomeDeclined \<Rightarrow> ''Call declined''
      | OutcomeAnsweredElsewhere \<Rightarrow> ''Answered by '' @ end_answered_by e
      | _ \<Rightarrow> if direction c = Outbound then ''Outgoing call'' @ dash @ ''no answer'' else ''Missed call'')"

record notice_config =
  n_call_ended :: "bool option"
  n_call_failed :: "bool option"
  n_sip_down :: "bool option"
  n_trunk_missing :: "bool option"

definition on_unless_set :: "bool option \<Rightarrow> bool" where
  "on_unless_set v = (case v of None \<Rightarrow> True | Some b \<Rightarrow> b)"

text \<open>\<open>postCallRecord\<close>: the room and the text, unless the record is suppressed or the ghost's
  intent is not to be had.\<close>

definition post_call_record ::
  "notice_config \<Rightarrow> bool \<Rightarrow> call \<Rightarrow> call_ending \<Rightarrow> nanos \<Rightarrow> (string \<times> string) option" where
  "post_call_record n intent_ok c e now =
     (if end_quiet e \<or> \<not> on_unless_set (n_call_ended n) then None
      else if end_failure e \<noteq> [] \<and> \<not> on_unless_set (n_call_failed n) then None
      else if c_room c = [] then None
      else if \<not> intent_ok then None
      else Some (c_room c, call_record_body c e now))"

subsection \<open>Recipients\<close>

datatype login_error = ErrRecipientRefused | ErrUnknownRecipient | ErrOther

definition recipient_status :: "login_error \<Rightarrow> nat \<times> string" where
  "recipient_status e =
     (case e of
        ErrRecipientRefused \<Rightarrow> (403, ''Forbidden'')
      | ErrUnknownRecipient \<Rightarrow> (404, ''Not Found'')
      | ErrOther \<Rightarrow> (500, ''Server Internal Error''))"

subsection \<open>Properties\<close>

lemma call_seconds_parts:
  "t div 3600 * 3600 + t div 60 mod 60 * 60 + t mod 60 = (t :: int)"
proof -
  have "t div (60 * 60) = t div 60 div 60" by (rule zdiv_zmult2_eq) simp
  then have "t div 3600 = t div 60 div 60" by simp
  moreover have "t div 60 div 60 * 60 + t div 60 mod 60 = t div 60" "t div 60 * 60 + t mod 60 = t"
    by (rule div_mult_mod_eq)+
  ultimately show ?thesis by linarith
qed

lemma round_second_near:
  assumes "0 \<le> d" "d < 2 ^ 62"
  shows "round_second d mod 1000000000 = 0 \<and> 0 \<le> round_second d
    \<and> \<bar>round_second d - d\<bar> \<le> 500000000"
proof -
  let ?r = "d mod 1000000000"
  have r: "0 \<le> ?r" "?r < 1000000000" by simp_all
  have down: "(d - ?r) mod 1000000000 = 0" by (simp add: minus_mod_eq_mult_div)
  have "i64 (d + (1000000000 - ?r)) = d + (1000000000 - ?r)"
    using assms r by (intro i64_id) simp_all
  moreover have "(d + (1000000000 - ?r)) mod 1000000000 = 0"
  proof -
    have "d + (1000000000 - ?r) = (d - ?r) + 1000000000" by simp
    then show ?thesis using down by (metis mod_add_self2)
  qed
  moreover have "0 \<le> d - ?r" using assms(1) by (simp add: minus_mod_eq_mult_div)
  ultimately show ?thesis
    using r down assms(1) by (auto simp: round_second_def Let_def)
qed

text \<open>A call's duration is shown to the nearest second, never as zero for a call that
  happened, in hours below which minutes and seconds stay under sixty, and nothing of the
  seconds is lost in the split.\<close>

theorem duration_nearest_second:
  assumes "0 < d" "d < 2 ^ 62"
  shows "let t = call_seconds d; h = t div 3600; m = t div 60 mod 60; s = t mod 60 in
      1 \<le> t \<and> (\<bar>t * 1000000000 - d\<bar> \<le> 500000000 \<or> t = 1 \<and> d < 500000000)
      \<and> 0 \<le> m \<and> m < 60 \<and> 0 \<le> s \<and> s < 60 \<and> h * 3600 + m * 60 + s = t
      \<and> format_call_duration d =
          (if 0 < h then show_int h @ ''h '' else []) @ (if 0 < h \<or> 0 < m then show_int m @ ''m '' else [])
            @ show_int s @ ''s''"
proof -
  let ?t = "call_seconds d" and ?R = "round_second d"
  have R: "?R mod 1000000000 = 0" "0 \<le> ?R" "\<bar>?R - d\<bar> \<le> 500000000"
    using round_second_near assms by auto
  have q: "?R div 1000000000 * 1000000000 = ?R" using R(1) by (metis add.right_neutral div_mult_mod_eq)
  have t: "?t = (if ?R div 1000000000 = 0 then 1 else ?R div 1000000000)"
    using assms(1) by (simp add: call_seconds_def Let_def)
  have "0 \<le> ?R div 1000000000" using R(2) by (simp add: pos_imp_zdiv_nonneg_iff)
  then have one: "1 \<le> ?t" using t by auto
  have near: "\<bar>?t * 1000000000 - d\<bar> \<le> 500000000 \<or> ?t = 1 \<and> d < 500000000"
  proof (cases "?R div 1000000000 = 0")
    case True
    then have "?R = 0" "?t = 1" using q t by simp_all
    then show ?thesis using R(3) assms(1) by auto
  next
    case False
    then show ?thesis using t q R(3) by simp
  qed
  have parts: "?t div 3600 * 3600 + ?t div 60 mod 60 * 60 + ?t mod 60 = ?t"
    by (rule call_seconds_parts)
  show ?thesis
    using one near parts by (simp add: Let_def format_call_duration_def)
qed

theorem duration_nearest_second_witness:
  "format_call_duration 3725400000000 = ''1h 2m 5s'' \<and> 1 \<le> call_seconds 400000000"
proof
  show "format_call_duration 3725400000000 = ''1h 2m 5s''" by code_simp
  show "1 \<le> call_seconds 400000000" using duration_nearest_second [of 400000000] by (simp add: Let_def)
qed

text \<open>The record in the room and the counter never disagree: both are read off one outcome,
  a quiet end is neither shown nor counted as missed, and a text says "Missed call" only for
  an inbound call that nobody answered, declined or took elsewhere and that did not fail.\<close>

theorem record_agrees_with_outcome:
  "(call_outcome c e = OutcomeStale) = end_quiet e
   \<and> (post_call_record n i c e now = Some (c_room c, ''Missed call'')
        \<longleftrightarrow> call_outcome c e = OutcomeMissed \<and> direction c = Inbound
            \<and> on_unless_set (n_call_ended n) \<and> c_room c \<noteq> [] \<and> i)
   \<and> (call_outcome c e = OutcomeMissed \<longleftrightarrow>
        \<not> end_quiet e \<and> end_failure e = [] \<and> end_answered_by e = [] \<and> c_state c \<noteq> Bridged \<and> \<not> end_declined e)"
proof (intro conjI)
  show "(call_outcome c e = OutcomeStale) = end_quiet e" by (simp add: call_outcome_def)
  show "call_outcome c e = OutcomeMissed \<longleftrightarrow>
      \<not> end_quiet e \<and> end_failure e = [] \<and> end_answered_by e = [] \<and> c_state c \<noteq> Bridged \<and> \<not> end_declined e"
    by (simp add: call_outcome_def)
  show "post_call_record n i c e now = Some (c_room c, ''Missed call'')
      \<longleftrightarrow> call_outcome c e = OutcomeMissed \<and> direction c = Inbound
          \<and> on_unless_set (n_call_ended n) \<and> c_room c \<noteq> [] \<and> i"
    by (cases "call_outcome c e")
       (auto simp: post_call_record_def call_record_body_def call_outcome_def dash_def split: if_splits,
        (cases "direction c"; simp)+)
qed

end
