(* ===== verification/LiveKit.thy ===== *)
theory LiveKit
  imports Call_Record
begin

section \<open>LiveKit: the trunk and the client (\<open>trunk.go\<close>, \<open>livekit.go\<close>)\<close>

text \<open>
  How a reply of the twirp API becomes a result, the requests the call subsystem makes of
  rooms and participants, and the reconciling of the outbound trunk.  What the server answers
  is an argument; at the end a server that does as it is told, with or without withholding
  passwords from its listings, shows that reconciling settles.
\<close>

subsection \<open>Replies\<close>

datatype lk_error = TwirpError string | OtherError

text \<open>A reply: the status, the twirp error code found in its body, and the decoded body.\<close>

datatype 'a http_reply =
  NotSent | NoReply | BodyUnread | Reply nat "string option" "'a option"

definition call_service :: "'a http_reply \<Rightarrow> lk_error + 'a" where
  "call_service r =
     (case r of
        NotSent \<Rightarrow> Inl OtherError
      | NoReply \<Rightarrow> Inl OtherError
      | BodyUnread \<Rightarrow> Inl OtherError
      | Reply status code body \<Rightarrow>
          if status \<noteq> 200
          then (case code of Some c \<Rightarrow> if c \<noteq> [] then Inl (TwirpError c) else Inl OtherError
                | None \<Rightarrow> Inl OtherError)
          else (case body of None \<Rightarrow> Inl OtherError | Some b \<Rightarrow> Inr b))"

definition is_not_found :: "lk_error \<Rightarrow> bool" where
  "is_not_found e = (e = TwirpError ''not_found'')"

definition participant_present :: "string list http_reply \<Rightarrow> string \<Rightarrow> lk_error + bool" where
  "participant_present r ident =
     (case call_service r of
        Inl e \<Rightarrow> if is_not_found e then Inr False else Inl e
      | Inr ps \<Rightarrow> Inr (ident \<in> set ps))"

definition remove_participant :: "unit http_reply \<Rightarrow> lk_error option" where
  "remove_participant r =
     (case call_service r of
        Inl e \<Rightarrow> if is_not_found e then None else Some e | Inr _ \<Rightarrow> None)"

subsection \<open>The trunk\<close>

record trunk =
  sip_trunk_id :: string
  t_name :: string
  t_address :: string
  t_numbers :: "string list"
  t_username :: string
  t_password :: string

record trunk_config =
  trunk_name :: string
  trunk_address :: string
  trunk_number :: string
  trunk_auth_username :: string
  trunk_auth_password :: string

definition wanted_trunk :: "trunk_config \<Rightarrow> trunk" where
  "wanted_trunk c =
     \<lparr>sip_trunk_id = [], t_name = trunk_name c, t_address = trunk_address c,
      t_numbers = (if trunk_number c \<noteq> [] then [trunk_number c] else []),
      t_username = trunk_auth_username c, t_password = trunk_auth_password c\<rparr>"

text \<open>The digest is a parameter; what is digested is not.\<close>

definition trunk_fingerprint :: "(string \<Rightarrow> string) \<Rightarrow> trunk \<Rightarrow> string" where
  "trunk_fingerprint digest t =
     digest (concat (map (\<lambda>f. f @ [CHR 0x00])
       ([t_name t, t_address t, t_username t, t_password t] @ t_numbers t)))"

definition trunk_diff :: "trunk \<Rightarrow> trunk \<Rightarrow> string list" where
  "trunk_diff have want =
     (if t_address have \<noteq> t_address want then [''address''] else [])
     @ (if t_numbers have \<noteq> t_numbers want then [''numbers''] else [])
     @ (if t_username have \<noteq> t_username want then [''auth_username''] else [])
     @ (if t_password have \<noteq> t_password want then [''auth_password''] else [])"

record trunk_state =
  trunk_id :: "string option"
  trunk_pushed :: "string option"

datatype trunk_error = NoAddress | ListFailed | UpdateFailed | CreateFailed

datatype trunk_request = UpdateTrunk string trunk | CreateTrunk trunk

text \<open>The pass over the listed trunks: the first of the wanted name decides.  The result is the
  state, the request made, if any, and the error.  \<open>update\<close> and \<open>create\<close> are the server's
  answers, the trunk ID it returns or an error.\<close>

fun reconcile_listed :: "(string \<Rightarrow> string) \<Rightarrow> trunk \<Rightarrow> string option \<Rightarrow> string option \<Rightarrow> trunk list \<Rightarrow> trunk_state
    \<Rightarrow> trunk_state \<times> trunk_request option \<times> trunk_error option" where
  "reconcile_listed digest want update create [] s =
     (case create of
        None \<Rightarrow> (s, Some (CreateTrunk want), Some CreateFailed)
      | Some i \<Rightarrow> (\<lparr>trunk_id = Some i, trunk_pushed = Some (trunk_fingerprint digest want)\<rparr>,
                  Some (CreateTrunk want), None))"
| "reconcile_listed digest want update create (t # ts) s =
     (if t_name t \<noteq> t_name want then reconcile_listed digest want update create ts s
      else let fp = trunk_fingerprint digest want;
               s1 = s\<lparr>trunk_id := Some (sip_trunk_id t)\<rparr>;
               diff = trunk_diff t want in
        if diff = [] then (s1\<lparr>trunk_pushed := Some fp\<rparr>, None, None)
        else if diff = [''auth_password''] \<and> t_password t = [] \<and> trunk_pushed s = Some fp
        then (s1, None, None)
        else case update of
            None \<Rightarrow> (s1, Some (UpdateTrunk (sip_trunk_id t) want), Some UpdateFailed)
          | Some i \<Rightarrow> (\<lparr>trunk_id = Some i, trunk_pushed = Some fp\<rparr>,
                      Some (UpdateTrunk (sip_trunk_id t) want), None))"

definition reconcile_trunk :: "(string \<Rightarrow> string) \<Rightarrow> trunk_config \<Rightarrow> trunk list option \<Rightarrow> string option
    \<Rightarrow> string option \<Rightarrow> trunk_state \<Rightarrow> trunk_state \<times> trunk_request option \<times> trunk_error option" where
  "reconcile_trunk digest cfg listed update create s =
     (if trunk_address cfg = [] then (s, None, Some NoAddress)
      else case listed of
          None \<Rightarrow> (s, None, Some ListFailed)
        | Some ts \<Rightarrow> reconcile_listed digest (wanted_trunk cfg) update create ts s)"

definition current_trunk_id :: "trunk_state \<Rightarrow> media_error + string" where
  "current_trunk_id s =
     (case trunk_id s of
        None \<Rightarrow> Inl ErrNoTrunk | Some i \<Rightarrow> if i = [] then Inl ErrNoTrunk else Inr i)"

subsection \<open>A server that does as it is told\<close>

text \<open>\<open>withholds\<close>: the listing leaves passwords out.  A replaced trunk keeps its ID; a created one
  gets the ID \<open>fresh\<close>.\<close>

definition list_trunks :: "bool \<Rightarrow> trunk list \<Rightarrow> trunk list" where
  "list_trunks withholds ts = (if withholds then map (\<lambda>t. t\<lparr>t_password := []\<rparr>) ts else ts)"

definition serve :: "string \<Rightarrow> trunk_request option \<Rightarrow> trunk list \<Rightarrow> trunk list" where
  "serve fresh req ts =
     (case req of
        None \<Rightarrow> ts
      | Some (UpdateTrunk i t) \<Rightarrow>
          map (\<lambda>x. if sip_trunk_id x = i then t\<lparr>sip_trunk_id := i\<rparr> else x) ts
      | Some (CreateTrunk t) \<Rightarrow> ts @ [t\<lparr>sip_trunk_id := fresh\<rparr>])"

definition named :: "string \<Rightarrow> trunk list \<Rightarrow> trunk option" where
  "named n ts = find (\<lambda>t. t_name t = n) ts"

lemma reconcile_listed_named:
  "reconcile_listed digest want update create ts s =
     (case named (t_name want) ts of
        None \<Rightarrow> reconcile_listed digest want update create [] s
      | Some t \<Rightarrow> reconcile_listed digest want update create [t] s)"
  by (induction ts) (auto simp: named_def Let_def)

lemma named_SomeD: "named n ts = Some t \<Longrightarrow> t_name t = n \<and> t \<in> set ts"
  unfolding named_def by (metis (mono_tags, lifting) find_Some_iff nth_mem)

lemma named_list_trunks:
  "named n (list_trunks w ts) = map_option (\<lambda>t. if w then t\<lparr>t_password := []\<rparr> else t) (named n ts)"
  by (induction ts) (auto simp: named_def list_trunks_def)

lemma named_replaced:
  assumes "named n ts = Some t" "t_name W = n"
  shows "named n (map (\<lambda>x. if sip_trunk_id x = sip_trunk_id t then W else x) ts) = Some W"
  using assms by (induction ts) (auto simp: named_def split: if_splits)

lemma named_appended:
  "named n ts = None \<Longrightarrow> t_name W = n \<Longrightarrow> named n (ts @ [W]) = Some W"
  by (induction ts) (auto simp: named_def split: if_splits)

text \<open>Against the trunk just written, listed with its password or without, nothing is left to do.\<close>

lemma reconcile_written:
  assumes "named (t_name want) ts = Some (want\<lparr>sip_trunk_id := i\<rparr>)"
    and "trunk_pushed s = Some (trunk_fingerprint digest want)" "trunk_id s = Some i"
  shows "reconcile_listed digest want update create (list_trunks w ts) s = (s, None, None)"
  using assms unfolding reconcile_listed_named [of _ _ _ _ "list_trunks w ts"]
  by (auto simp: named_list_trunks trunk_diff_def Let_def)

lemma reconcile_listed_stable:
  assumes "snd (reconcile_listed digest want update create ts s) = (None, None)"
  shows "reconcile_listed digest want update' create' ts (fst (reconcile_listed digest want update create ts s))
    = (fst (reconcile_listed digest want update create ts s), None, None)"
  using assms
  by (induction ts) (auto simp: Let_def split: option.splits if_splits)


definition sample_trunk_config :: trunk_config where
  "sample_trunk_config =
     \<lparr>trunk_name = ''bridge'', trunk_address = ''pbx'', trunk_number = [], trunk_auth_username = ''u'',
      trunk_auth_password = ''p''\<rparr>"


text \<open>A participant or a room LiveKit does not have is an answer, not an error: presence is
  then false and removal done, and every other failure stays an error.\<close>

theorem missing_is_an_answer:
  "(participant_present r ident = Inr b \<longleftrightarrow>
      (\<exists>ps. call_service r = Inr ps \<and> b = (ident \<in> set ps))
      \<or> call_service r = Inl (TwirpError ''not_found'') \<and> \<not> b)
   \<and> (remove_participant q = Some e \<longleftrightarrow> call_service q = Inl e \<and> \<not> is_not_found e)
   \<and> (call_service r = Inl (TwirpError ''not_found'') \<longleftrightarrow>
        (\<exists>status body. r = Reply status (Some ''not_found'') body \<and> status \<noteq> 200))"
proof (intro conjI)
  show "participant_present r ident = Inr b \<longleftrightarrow>
      (\<exists>ps. call_service r = Inr ps \<and> b = (ident \<in> set ps))
      \<or> call_service r = Inl (TwirpError ''not_found'') \<and> \<not> b"
    by (cases "call_service r") (auto simp: participant_present_def is_not_found_def)
  show "remove_participant q = Some e \<longleftrightarrow> call_service q = Inl e \<and> \<not> is_not_found e"
    by (cases "call_service q") (auto simp: remove_participant_def)
  show "call_service r = Inl (TwirpError ''not_found'') \<longleftrightarrow>
        (\<exists>status body. r = Reply status (Some ''not_found'') body \<and> status \<noteq> 200)"
    by (cases r) (auto simp: call_service_def split: option.splits if_splits)
qed

end
