(* ===== verification/Subsystem.thy ===== *)
theory Subsystem
  imports Phonenum Rtc LiveKit
begin

section \<open>The call subsystem (\<open>pkg/calls/subsystem.go\<close>)\<close>

text \<open>
  The handlers of \<open>Subsystem\<close> as functions on its state: the table of calls, the channels a
  ringing call is released by, the ring notifications, the control legs, the participants
  seen, the trunk, and \<open>trace\<close>, the list of what has been done to the outside in order.  A
  handler takes a record of what the outside answers to the calls it makes.  Where a handler
  waits on the outside, a function of the record stands for what other goroutines do to the
  state meanwhile.  A state change is atomic where the code holds a lock or runs one statement.
  The SIP responses a handler sends on its own inbound leg are its second result.
\<close>

subsection \<open>Configuration and state\<close>

record call_config =
  cfg_enabled :: bool
  cfg_prefix :: string
  cfg_outbound_uri :: string
  cfg_expiry :: nanos
  cfg_ring_timeout :: nanos
  cfg_scheme :: identity_scheme
  cfg_notices :: notice_config
  cfg_hash :: "string list \<Rightarrow> string"

text \<open>\<open>New\<close>: the defaults for what the configuration leaves at zero.\<close>

definition with_defaults :: "call_config \<Rightarrow> call_config" where
  "with_defaults c =
     c\<lparr>cfg_expiry := if cfg_expiry c \<le> 0 then 21600000000000 else cfg_expiry c,
       cfg_ring_timeout := if cfg_ring_timeout c \<le> 0 then 45000000000 else cfg_ring_timeout c\<rparr>"

datatype effect =
    PublishMembership string string
  | RetractMembership string string
  | RingNotification string string
  | RedactNotification string
  | EnsureRoom string
  | CreateParticipant string string string string
  | RemoveParticipant string string
  | InviteSent string string string
  | HangupLeg string
  | CountCall call_direction call_outcome
  | CountSetup call_direction
  | PostRecord string string

record subsys =
  calls :: call_table
  answered :: "string \<Rightarrow> string list option"
  declined :: "string \<Rightarrow> bool option"
  ended :: "string \<Rightarrow> bool option"
  notifies :: "(string \<times> string) list"
  legs :: "string list"
  seen :: "string list"
  strunk :: trunk_state
  trace :: "effect list"

definition new_subsys :: subsys where
  "new_subsys =
     \<lparr>calls = [], answered = (\<lambda>_. None), declined = (\<lambda>_. None), ended = (\<lambda>_. None), notifies = [],
      legs = [], seen = [], strunk = \<lparr>trunk_id = None, trunk_pushed = None\<rparr>, trace = []\<rparr>"

definition emit :: "effect list \<Rightarrow> subsys \<Rightarrow> subsys" where
  "emit es st = st\<lparr>trace := trace st @ es\<rparr>"

subsection \<open>Conferences\<close>

definition conference_for :: "call_config \<Rightarrow> string \<Rightarrow> string" where
  "conference_for cfg pid = cfg_prefix cfg @ pid"

definition portal_id_from_conference :: "call_config \<Rightarrow> string \<Rightarrow> string option" where
  "portal_id_from_conference cfg conf =
     (let p = cfg_prefix cfg in
      if p = [] \<or> \<not> has_prefix conf p then None
      else let rest = trim_prefix conf p in if rest = [] then None else Some rest)"

subsection \<open>The channels of a ringing call\<close>

text \<open>\<open>answered\<close> holds a buffer of one joiner, \<open>declined\<close> and \<open>ended\<close> whether the channel is
  closed.\<close>

definition waiters_for :: "string \<Rightarrow> subsys \<Rightarrow> subsys" where
  "waiters_for cid st =
     st\<lparr>answered := (answered st)(cid := Some (case answered st cid of Some b \<Rightarrow> b | None \<Rightarrow> [])),
        declined := (declined st)(cid := Some (case declined st cid of Some b \<Rightarrow> b | None \<Rightarrow> False)),
        ended := (ended st)(cid := Some (case ended st cid of Some b \<Rightarrow> b | None \<Rightarrow> False))\<rparr>"

definition forget_waiters :: "string \<Rightarrow> subsys \<Rightarrow> subsys" where
  "forget_waiters cid st =
     st\<lparr>answered := (answered st)(cid := None), declined := (declined st)(cid := None),
        ended := (ended st)(cid := None)\<rparr>"

definition signal_ended :: "string \<Rightarrow> subsys \<Rightarrow> subsys" where
  "signal_ended cid st =
     (case ended st cid of None \<Rightarrow> st | Some _ \<Rightarrow> st\<lparr>ended := (ended st)(cid := Some True)\<rparr>)"

definition signal_answer :: "string \<Rightarrow> string \<Rightarrow> subsys \<Rightarrow> subsys" where
  "signal_answer cid joiner st =
     (case answered st cid of
        Some [] \<Rightarrow> st\<lparr>answered := (answered st)(cid := Some [joiner])\<rparr> | _ \<Rightarrow> st)"

definition remember_notification :: "string \<Rightarrow> string \<Rightarrow> subsys \<Rightarrow> subsys" where
  "remember_notification ev cid st =
     st\<lparr>notifies := (ev, cid) # filter (\<lambda>(e, _). e \<noteq> ev) (notifies st)\<rparr>"

definition take_notifications :: "string \<Rightarrow> subsys \<Rightarrow> string list \<times> subsys" where
  "take_notifications cid st =
     (map fst (filter (\<lambda>(_, c). c = cid) (notifies st)),
      st\<lparr>notifies := filter (\<lambda>(_, c). c \<noteq> cid) (notifies st)\<rparr>)"

definition signal_decline :: "string \<Rightarrow> subsys \<Rightarrow> (string \<times> bool) \<times> subsys" where
  "signal_decline ev st =
     (case map_of (notifies st) ev of
        None \<Rightarrow> (([], False), st)
      | Some cid \<Rightarrow>
          (case declined st cid of
             None \<Rightarrow> ((cid, False), st)
           | Some _ \<Rightarrow> ((cid, True), st\<lparr>declined := (declined st)(cid := Some True)\<rparr>)))"

definition keep_leg :: "string \<Rightarrow> subsys \<Rightarrow> subsys" where
  "keep_leg cid st = st\<lparr>legs := cid # removeAll cid (legs st)\<rparr>"

definition take_leg :: "string \<Rightarrow> subsys \<Rightarrow> bool \<times> subsys" where
  "take_leg cid st = (cid \<in> set (legs st), st\<lparr>legs := removeAll cid (legs st)\<rparr>)"

definition mark_seen :: "string \<Rightarrow> subsys \<Rightarrow> subsys" where
  "mark_seen cid st = st\<lparr>seen := cid # removeAll cid (seen st)\<rparr>"

definition forget_seen :: "string \<Rightarrow> subsys \<Rightarrow> subsys" where
  "forget_seen cid st = st\<lparr>seen := removeAll cid (seen st)\<rparr>"

subsection \<open>Ending a call\<close>

text \<open>What the outside answers to \<open>endCallAs\<close>.  \<open>e_display\<close> is the display name of a user in a
  room, empty where there is none or the members cannot be listed.\<close>

record end_env =
  e_now :: nanos
  e_db :: db_outcome
  e_elsewhere_ok :: bool
  e_display :: "string \<Rightarrow> string \<Rightarrow> string"
  e_ghost_ok :: bool
  e_retract_ok :: bool

definition ring_setup_grace :: nanos where
  "ring_setup_grace = 60000000000"

definition answered_by :: "call_config \<Rightarrow> end_env \<Rightarrow> call \<Rightarrow> subsys \<Rightarrow> string" where
  "answered_by cfg env c st =
     (if \<not> e_elsewhere_ok env then []
      else case answered_elsewhere c (i64 (cfg_ring_timeout cfg + ring_setup_grace)) (calls st) of
          None \<Rightarrow> []
        | Some w \<Rightarrow>
            (let name = e_display env (c_room w) (matrix_user w) in
             if name \<noteq> [] then name else matrix_user w))"

definition retract_ring_notification :: "end_env \<Rightarrow> call \<Rightarrow> subsys \<Rightarrow> subsys" where
  "retract_ring_notification env c st =
     (case take_notifications (call_id c) st of
        (evs, st') \<Rightarrow> if evs = [] \<or> \<not> e_ghost_ok env then st' else emit (map RedactNotification evs) st')"

definition remove_call_participant :: "call \<Rightarrow> subsys \<Rightarrow> subsys" where
  "remove_call_participant c st =
     (if lk_identity c = [] \<or> lk_room c = [] then st
      else emit [RemoveParticipant (lk_room c) (lk_identity c)] st)"

definition hangup_leg :: "string \<Rightarrow> subsys \<Rightarrow> subsys" where
  "hangup_leg cid st =
     (case take_leg cid st of (held, st') \<Rightarrow> if held then emit [HangupLeg cid] st' else st')"

definition post_record :: "call_config \<Rightarrow> end_env \<Rightarrow> call \<Rightarrow> call_ending \<Rightarrow> subsys \<Rightarrow> subsys" where
  "post_record cfg env c e st =
     (case post_call_record (cfg_notices cfg) (e_ghost_ok env) c e (e_now env) of
        None \<Rightarrow> st | Some (room, text) \<Rightarrow> emit [PostRecord room text] st)"

text \<open>What is done for the winner of the compare-and-swap, the steps in the code's order.\<close>

definition tear_down :: "call_config \<Rightarrow> end_env \<Rightarrow> call \<Rightarrow> call_ending \<Rightarrow> subsys \<Rightarrow> subsys" where
  "tear_down cfg env c e0 st0 =
     (let e = (if e0 = plain_end \<and> direction c = Inbound \<and> c_state c = Ringing
               then e0\<lparr>end_answered_by := answered_by cfg env c st0\<rparr> else e0);
          st1 = emit [CountCall (direction c) (call_outcome c e)] st0;
          st2 = signal_ended (call_id c) (forget_seen (call_id c) st1);
          st3 = retract_ring_notification env c st2;
          st4 = remove_call_participant c st3;
          st5 = hangup_leg (call_id c) st4;
          st6 = (if e_ghost_ok env then emit [RetractMembership (c_room c) (device_id_for (call_id c))] st5
                 else st5) in
      post_record cfg env c e st6)"

definition end_call_as :: "call_config \<Rightarrow> end_env \<Rightarrow> call \<Rightarrow> call_ending \<Rightarrow> subsys \<Rightarrow> subsys \<times> bool" where
  "end_call_as cfg env c e st =
     (case call_end (e_now env) c (calls st) of
        (t, won, _) \<Rightarrow>
          (let st1 = (if e_db env = DbErr then st else st\<lparr>calls := t\<rparr>) in
           if e_db env \<noteq> DbOk then (st1, False)
           else if \<not> won then (st1, True)
           else (tear_down cfg env c e st1, e_ghost_ok env \<and> e_retract_ok env)))"

definition end_call :: "call_config \<Rightarrow> end_env \<Rightarrow> call \<Rightarrow> subsys \<Rightarrow> subsys \<times> bool" where
  "end_call cfg env c = end_call_as cfg env c plain_end"

definition decline_call :: "call_config \<Rightarrow> end_env \<Rightarrow> call \<Rightarrow> subsys \<Rightarrow> subsys \<times> bool" where
  "decline_call cfg env c = end_call_as cfg env c (plain_end\<lparr>end_declined := True\<rparr>)"

definition fail_call :: "call_config \<Rightarrow> end_env \<Rightarrow> call \<Rightarrow> string \<Rightarrow> subsys \<Rightarrow> subsys \<times> bool" where
  "fail_call cfg env c reason = end_call_as cfg env c (plain_end\<lparr>end_failure := reason\<rparr>)"

subsection \<open>Calls that cannot be in progress\<close>

text \<open>\<open>Time.Sub\<close> saturates.\<close>

definition time_sub :: "nanos \<Rightarrow> nanos \<Rightarrow> nanos" where
  "time_sub a b = max (- (2 ^ 63)) (min (2 ^ 63 - 1) (a - b))"

definition call_is_stale :: "call_config \<Rightarrow> call \<Rightarrow> nanos \<Rightarrow> bool" where
  "call_is_stale cfg c now =
     (case c_state c of
        Ringing \<Rightarrow> time_sub now (created_at c) > i64 (cfg_ring_timeout cfg + ring_setup_grace)
      | Bridged \<Rightarrow> time_sub now (updated_at c) > cfg_expiry cfg
      | Ended \<Rightarrow> False)"

text \<open>The second result is whether the row was stale, the third whether ending it failed.\<close>

definition end_if_stale :: "call_config \<Rightarrow> end_env \<Rightarrow> call \<Rightarrow> subsys \<Rightarrow> subsys \<times> bool \<times> bool" where
  "end_if_stale cfg env c st =
     (if \<not> call_is_stale cfg c (e_now env) then (st, False, False)
      else case end_call_as cfg env c (plain_end\<lparr>end_quiet := True\<rparr>) st of
          (st', ok) \<Rightarrow> (st', True, \<not> ok))"

text \<open>A lookup of the call in progress, discarding a stale row: \<open>Inl\<close> is an error.\<close>

definition active_call ::
  "call_config \<Rightarrow> end_env \<Rightarrow> bool \<Rightarrow> call option \<Rightarrow> subsys \<Rightarrow> subsys \<times> (unit + call option)" where
  "active_call cfg env lookup_ok found st =
     (if \<not> lookup_ok then (st, Inl ())
      else case found of
          None \<Rightarrow> (st, Inr None)
        | Some c \<Rightarrow>
            (case end_if_stale cfg env c st of
               (st', stale, failed) \<Rightarrow>
                 (st', if failed then Inl () else if stale then Inr None else Inr (Some c))))"

subsection \<open>Media\<close>

text \<open>\<open>bridgeMedia\<close>.  \<open>md_meanwhile\<close> is what happens while livekit-sip dials the conference, which
  can take as long as the far end takes to answer.\<close>

record media_env =
  md_now :: nanos
  md_ensure_ok :: bool
  md_meanwhile :: "subsys \<Rightarrow> subsys"
  md_create :: "string option"
  md_update :: db_outcome

definition bridge_media :: "media_env \<Rightarrow> call \<Rightarrow> subsys \<Rightarrow> subsys \<times> call \<times> media_error option" where
  "bridge_media env c st =
     (case current_trunk_id (strunk st) of
        Inl e \<Rightarrow> (st, c, Some e)
      | Inr trunk \<Rightarrow>
          (let st1 = emit [EnsureRoom (lk_room c)] st in
           if \<not> md_ensure_ok env then (st1, c, Some ErrMedia)
           else let st2 = md_meanwhile env st1 in
             case md_create env of
               None \<Rightarrow> (st2, c, Some ErrMedia)
             | Some part \<Rightarrow>
                 (let c1 = c\<lparr>lk_participant := part\<rparr>;
                      st3 = mark_seen (call_id c) (emit [CreateParticipant trunk (conference c) (lk_room c) (lk_identity c)] st2);
                      u = call_update (md_now env) c1 (calls st3);
                      st4 = (if md_update env = DbErr then st3 else st3\<lparr>calls := fst u\<rparr>) in
                  (st4, snd u, if md_update env = DbOk then None else Some ErrMedia))))"

definition publish_membership :: "call \<Rightarrow> subsys \<Rightarrow> subsys" where
  "publish_membership c = emit [PublishMembership (c_room c) (device_id_for (call_id c))]"

subsection \<open>Inbound calls\<close>

text \<open>The calls a handler makes on the inbound control leg.\<close>

datatype leg_call = LegRinging bool | LegAnswer bool | LegReject nat string

text \<open>\<open>beginInboundCall\<close>.  \<open>b_portal\<close> is the room and its owner, \<open>b_ghost\<close> the ghost's MXID,
  \<open>b_member\<close> and \<open>b_notify\<close> the events sent, each \<open>None\<close> on an error.\<close>

record begin_env =
  b_now :: nanos
  b_lookup_ok :: bool
  b_portal :: "(string \<times> string) option"
  b_ghost :: "string option"
  b_insert :: db_outcome
  b_member :: "string option"
  b_notify :: "string option"
  b_end :: end_env

definition new_call :: "call_config \<Rightarrow> string \<Rightarrow> string \<Rightarrow> string \<times> string \<Rightarrow> string \<Rightarrow> call_direction
    \<Rightarrow> string \<Rightarrow> string \<Rightarrow> call" where
  "new_call cfg cid pid portal user dir conf ghost =
     \<lparr>call_id = cid, c_portal = pid, c_room = fst portal, receiver = snd portal, matrix_user = user,
      direction = dir, conference = conf, lk_room = cfg_hash cfg [fst portal, slot_room],
      lk_identity = i_participant (identity_for (cfg_hash cfg) (cfg_scheme cfg) ghost cid),
      lk_participant = [], c_state = Ringing, created_at = zero_time, updated_at = zero_time\<rparr>"

text \<open>\<open>db.Call.Insert\<close> with what the database answers: the state, and the call if it succeeds.\<close>

definition insert_call :: "db_outcome \<Rightarrow> nanos \<Rightarrow> call \<Rightarrow> subsys \<Rightarrow> subsys \<times> call option" where
  "insert_call db now c st =
     (case call_insert now c (calls st) of
        None \<Rightarrow> (st, None)
      | Some (t, c') \<Rightarrow>
          (if db = DbErr then st else st\<lparr>calls := t\<rparr>, if db = DbOk then Some c' else None))"

definition ring_matrix :: "string option \<Rightarrow> call \<Rightarrow> subsys \<Rightarrow> subsys" where
  "ring_matrix notify c st =
     (case notify of
        None \<Rightarrow> st
      | Some ev \<Rightarrow> remember_notification ev (call_id c) (emit [RingNotification (c_room c) ev] st))"

definition begin_inbound_call :: "call_config \<Rightarrow> begin_env \<Rightarrow> string \<Rightarrow> string \<Rightarrow> string \<Rightarrow> string \<Rightarrow> subsys
    \<Rightarrow> subsys \<times> call option" where
  "begin_inbound_call cfg env cid pid conf owner st =
     (case active_call cfg (b_end env) (b_lookup_ok env) (active_by_conference conf owner (calls st)) st of
        (st1, Inl _) \<Rightarrow> (st1, None)
      | (st1, Inr (Some _)) \<Rightarrow> (st1, None)
      | (st1, Inr None) \<Rightarrow>
          (case (b_portal env, b_ghost env) of
             (None, _) \<Rightarrow> (st1, None)
           | (Some portal, g) \<Rightarrow>
               if fst portal = [] then (st1, None)
               else (case g of
                   None \<Rightarrow> (st1, None)
                 | Some ghost \<Rightarrow>
                     (case insert_call (b_insert env) (b_now env)
                             (new_call cfg cid pid portal [] Inbound conf ghost) st1 of
                        (st2, None) \<Rightarrow> (st2, None)
                      | (st2, Some c) \<Rightarrow>
                          (case b_member env of
                             None \<Rightarrow> (fst (fail_call cfg (b_end env) c ''could not connect'' st2), None)
                           | Some _ \<Rightarrow> (ring_matrix (b_notify env) c (publish_membership c st2), Some c))))))"

datatype answer_outcome = AnswerWon | AnswerLost | AnswerOver

text \<open>\<open>answerInbound\<close>.  \<open>an_finished\<close> is whether the leg is gone when the media has failed.\<close>

record answer_env =
  an_now :: nanos
  an_db :: db_outcome
  an_lookup_ok :: bool
  an_media :: media_env
  an_finished :: bool
  an_ghost_ok :: bool
  an_answer_ok :: bool
  an_end :: end_env

definition answer_inbound :: "call_config \<Rightarrow> answer_env \<Rightarrow> call \<Rightarrow> string \<Rightarrow> subsys
    \<Rightarrow> subsys \<times> leg_call list \<times> answer_outcome" where
  "answer_inbound cfg env c joiner st =
     (case call_answer (an_now env) c joiner (calls st) of
        (t, won, c1) \<Rightarrow>
          (let st1 = (if an_db env = DbErr then st else st\<lparr>calls := t\<rparr>) in
           if an_db env \<noteq> DbOk
           then (fst (fail_call cfg (an_end env) c ''could not connect'' st1), [], AnswerOver)
           else if \<not> won
           then (st1, [],
                 if an_lookup_ok env \<and> map_option c_state (by_call_id (call_id c) (calls st1)) = Some Ringing
                 then AnswerLost else AnswerOver)
           else
             (case bridge_media (an_media env) c1 (emit [CountSetup (direction c1)] st1) of
                (st2, c2, Some e) \<Rightarrow>
                  if an_finished env then (fst (end_call cfg (an_end env) c2 st2), [], AnswerOver)
                  else (fst (fail_call cfg (an_end env) c2 (media_failure_reason e) st2),
                        [LegReject 503 ''Service Unavailable''], AnswerOver)
              | (st2, c2, None) \<Rightarrow>
                  (let st3 = (if an_ghost_ok env then publish_membership c2 st2 else st2) in
                   if an_answer_ok env then (st3, [LegAnswer True], AnswerWon)
                   else (fst (fail_call cfg (an_end env) c2 ''could not connect'' st3),
                         [LegAnswer False], AnswerOver)))))"

text \<open>What wakes \<open>waitForMatrix\<close>, with what the outside then answers.\<close>

datatype wake =
    WakeJoined answer_env
  | WakeEnded bool
  | WakeDeclined end_env
  | WakeLegDone end_env
  | WakeRing end_env
  | WakeCancelled bool end_env

datatype wait_result = StillWaiting | LegAnswered | LegOver

text \<open>The loop over the wake-ups, each after what other goroutines have done.  A channel that is
  not ready is not chosen; after a lost claim joins are not listened to.\<close>

fun wait_for_matrix :: "call_config \<Rightarrow> ((subsys \<Rightarrow> subsys) \<times> wake) list \<Rightarrow> bool \<Rightarrow> call \<Rightarrow> subsys
    \<Rightarrow> subsys \<times> leg_call list \<times> wait_result" where
  "wait_for_matrix cfg [] listen c st = (st, [], StillWaiting)"
| "wait_for_matrix cfg ((others, w) # ws) listen c st0 =
     (let st = others st0; cid = call_id c in
      case w of
        WakeJoined env \<Rightarrow>
          (case (listen, answered st cid) of
             (True, Some [joiner]) \<Rightarrow>
               (case answer_inbound cfg env c joiner (st\<lparr>answered := (answered st)(cid := Some [])\<rparr>) of
                  (st1, rs, AnswerWon) \<Rightarrow> (st1, rs, LegAnswered)
                | (st1, rs, AnswerOver) \<Rightarrow> (st1, rs, LegOver)
                | (st1, rs, AnswerLost) \<Rightarrow>
                    (case wait_for_matrix cfg ws False c st1 of (st2, rs', r) \<Rightarrow> (st2, rs @ rs', r)))
           | _ \<Rightarrow> wait_for_matrix cfg ws listen c st)
      | WakeEnded finished \<Rightarrow>
          if ended st cid = Some True
          then (st, if finished then [] else [LegReject 480 ''Temporarily Unavailable''], LegOver)
          else wait_for_matrix cfg ws listen c st
      | WakeDeclined env \<Rightarrow>
          if declined st cid = Some True
          then (fst (decline_call cfg env c st), [LegReject 486 ''Busy Here''], LegOver)
          else wait_for_matrix cfg ws listen c st
      | WakeLegDone env \<Rightarrow> (fst (end_call cfg env c st), [], LegOver)
      | WakeRing env \<Rightarrow> (fst (end_call cfg env c st), [LegReject 480 ''Temporarily Unavailable''], LegOver)
      | WakeCancelled finished env \<Rightarrow>
          if finished then (fst (end_call cfg env c st), [], LegOver)
          else (fst (fail_call cfg env c ''the bridge restarted'' st),
                [LegReject 503 ''Service Unavailable''], LegOver))"

record inbound_leg =
  l_conference :: string
  l_owner :: "login_error + string"
  l_ringing_ok :: bool
  l_call_id :: string

definition handle_inbound_call :: "call_config \<Rightarrow> inbound_leg \<Rightarrow> begin_env \<Rightarrow> ((subsys \<Rightarrow> subsys) \<times> wake) list
    \<Rightarrow> subsys \<Rightarrow> subsys \<times> leg_call list \<times> wait_result" where
  "handle_inbound_call cfg leg env wakes st =
     (if \<not> cfg_enabled cfg then (st, [LegReject 503 ''Service Unavailable''], LegOver)
      else case portal_id_from_conference cfg (l_conference leg) of
          None \<Rightarrow> (st, [LegReject 404 ''Not Found''], LegOver)
        | Some pid \<Rightarrow>
            if is_line_room_id pid then (st, [LegReject 404 ''Not Found''], LegOver)
            else if \<not> l_ringing_ok leg
            then (st, [LegRinging False, LegReject 500 ''Server Internal Error''], LegOver)
            else (case l_owner leg of
                Inl e \<Rightarrow> (st, [LegRinging True, LegReject (fst (recipient_status e)) (snd (recipient_status e))], LegOver)
              | Inr owner \<Rightarrow>
                  (case begin_inbound_call cfg env (l_call_id leg) pid (l_conference leg) owner
                          (waiters_for (l_call_id leg) st) of
                     (st1, None) \<Rightarrow>
                       (forget_waiters (l_call_id leg) st1,
                        [LegRinging True, LegReject 500 ''Server Internal Error''], LegOver)
                   | (st1, Some c) \<Rightarrow>
                       (case wait_for_matrix cfg wakes True c st1 of
                          (st2, rs, r) \<Rightarrow>
                            (if r = StillWaiting then st2 else forget_waiters (l_call_id leg) st2,
                             LegRinging True # rs, r)))))"

subsection \<open>Outbound calls\<close>

datatype dial_origin = OriginRtcJoin | OriginCommand

datatype dial_error =
    DialDisabled | DialLineRoom | DialNoRoom | DialNoUri | DialNoSip | DialNoGhost | DialInsert
  | DialMembership | DialInvite | DialRecord | DialEndedWhileRinging | DialMedia media_error | DialLookup

text \<open>\<open>dial\<close>.  \<open>d_announced\<close> is what happens between the call being announced in the room and the
  INVITE, \<open>d_meanwhile\<close> what happens while the phone rings.\<close>

record dial_env =
  d_call_id :: string
  d_sip_running :: bool
  d_ghost :: "string option"
  d_insert :: db_outcome
  d_now :: nanos
  d_member :: "string option"
  d_notify :: "string option"
  d_announced :: "subsys \<Rightarrow> subsys"
  d_meanwhile :: "subsys \<Rightarrow> subsys"
  d_invite_ok :: bool
  d_answered_at :: nanos
  d_move :: db_outcome
  d_media :: media_env
  d_republish_ok :: bool
  d_end :: end_env

text \<open>The phone rings: the context of the INVITE ends with the call, through its channel.\<close>

definition ring_phone :: "dial_env \<Rightarrow> string \<Rightarrow> string \<Rightarrow> string \<Rightarrow> string \<Rightarrow> subsys \<Rightarrow> subsys" where
  "ring_phone env cid uri conf caller st =
     (let st1 = st\<lparr>ended := (ended st)(cid := Some (case ended st cid of Some b \<Rightarrow> b | None \<Rightarrow> False))\<rparr>;
          st2 = d_meanwhile env (emit [InviteSent uri conf caller] st1) in
      st2\<lparr>ended := (ended st2)(cid := None)\<rparr>)"

text \<open>From the answer of the phone on.\<close>

definition dial_answered :: "call_config \<Rightarrow> dial_env \<Rightarrow> call \<Rightarrow> subsys \<Rightarrow> subsys \<times> (dial_error + call)" where
  "dial_answered cfg env c st0 =
     (let st = keep_leg (call_id c) st0 in
      case call_transition (d_answered_at env) c Ringing Bridged (calls st) of
        (t, won, c1) \<Rightarrow>
          (let st1 = (if d_move env = DbErr then st else st\<lparr>calls := t\<rparr>) in
           if d_move env \<noteq> DbOk
           then (fst (fail_call cfg (d_end env) c ''could not connect'' st1), Inl DialRecord)
           else if \<not> won then (hangup_leg (call_id c) st1, Inl DialEndedWhileRinging)
           else
             (case bridge_media (d_media env) c1 (emit [CountSetup (direction c1)] st1) of
                (st2, c2, Some e) \<Rightarrow>
                  (fst (fail_call cfg (d_end env) c2 (media_failure_reason e) st2), Inl (DialMedia e))
              | (st2, c2, None) \<Rightarrow>
                  (if d_republish_ok env then publish_membership c2 st2 else st2, Inr c2))))"

definition dial :: "call_config \<Rightarrow> dial_env \<Rightarrow> string \<Rightarrow> string \<times> string \<Rightarrow> string \<Rightarrow> dial_origin \<Rightarrow> subsys
    \<Rightarrow> subsys \<times> (dial_error + call)" where
  "dial cfg env pid portal caller origin st =
     (if \<not> cfg_enabled cfg then (st, Inl DialDisabled)
      else if is_line_room_id pid then (st, Inl DialLineRoom)
      else if fst portal = [] then (st, Inl DialNoRoom)
      else if cfg_outbound_uri cfg = [] then (st, Inl DialNoUri)
      else if \<not> d_sip_running env then (st, Inl DialNoSip)
      else case d_ghost env of
          None \<Rightarrow> (st, Inl DialNoGhost)
        | Some ghost \<Rightarrow>
            (let conf = conference_for cfg pid in
             case insert_call (d_insert env) (d_now env)
                    (new_call cfg (d_call_id env) pid portal caller Outbound conf ghost) st of
               (st1, None) \<Rightarrow> (st1, Inl DialInsert)
             | (st1, Some c) \<Rightarrow>
                 (case d_member env of
                    None \<Rightarrow> (fst (fail_call cfg (d_end env) c ''could not connect'' st1), Inl DialMembership)
                  | Some _ \<Rightarrow>
                      (let st2 = publish_membership c st1;
                           st3 = (if origin = OriginCommand then ring_matrix (d_notify env) c st2 else st2);
                           uri = replace_all (cfg_outbound_uri cfg) ''{number}'' (number_from_id pid);
                           st4 = ring_phone env (call_id c) uri conf caller (d_announced env st3) in
                       if \<not> d_invite_ok env
                       then (fst (fail_call cfg (d_end env) c ''no route'' st4), Inl DialInvite)
                       else dial_answered cfg env c st4))))"

text \<open>\<open>Dial\<close>: the command path.  An existing call is returned as it is.\<close>

definition dial_command :: "call_config \<Rightarrow> dial_env \<Rightarrow> bool \<Rightarrow> string \<Rightarrow> string \<times> string \<Rightarrow> string \<Rightarrow> subsys
    \<Rightarrow> subsys \<times> (dial_error + call)" where
  "dial_command cfg env lookup_ok pid portal caller st =
     (if \<not> cfg_enabled cfg then (st, Inl DialDisabled)
      else case active_call cfg (d_end env) lookup_ok (active_by_room (fst portal) (calls st)) st of
          (st1, Inl _) \<Rightarrow> (st1, Inl DialLookup)
        | (st1, Inr (Some c)) \<Rightarrow> (st1, Inr c)
        | (st1, Inr None) \<Rightarrow> dial cfg env pid portal caller OriginCommand st1)"

subsection \<open>Which portal a number dials\<close>

definition portal_id_for_number :: "string \<Rightarrow> string list \<Rightarrow> string list + string" where
  "portal_id_for_number e164 existing =
     (let on_lines = filter (\<lambda>p. \<not> is_line_room_id p \<and> number_from_id p = e164 \<and> line_from_id p \<noteq> []) existing in
      case on_lines of
        [] \<Rightarrow> Inr (to_id e164)
      | [p] \<Rightarrow> Inr p
      | _ \<Rightarrow> Inl (sort (map line_from_id on_lines)))"

datatype number_error = NumberInvalid phone_error | LookupFailed | Ambiguous "string list"

definition dial_portal_id :: "string \<Rightarrow> string \<Rightarrow> string list option \<Rightarrow> number_error + string" where
  "dial_portal_id number line existing =
     (if line \<noteq> [] then (case id_for line number of Inl e \<Rightarrow> Inl (NumberInvalid e) | Inr p \<Rightarrow> Inr p)
      else case normalize number of
          Inl e \<Rightarrow> Inl (NumberInvalid e)
        | Inr e164 \<Rightarrow>
            (case existing of
               None \<Rightarrow> Inl LookupFailed
             | Some ids \<Rightarrow>
                 (case portal_id_for_number e164 ids of Inl ls \<Rightarrow> Inl (Ambiguous ls) | Inr p \<Rightarrow> Inr p)))"

subsection \<open>Matrix events\<close>

record join_env =
  j_lookup_ok :: bool
  j_end :: end_env
  j_dial :: dial_env

record portal_room =
  p_id :: string
  p_mxid :: string
  p_owner :: string

text \<open>The result is what dialling out gave, where the join was a request to.\<close>

definition on_matrix_joined :: "call_config \<Rightarrow> join_env \<Rightarrow> portal_room \<Rightarrow> string \<Rightarrow> subsys
    \<Rightarrow> subsys \<times> (dial_error + call) option" where
  "on_matrix_joined cfg env p joiner st =
     (case active_call cfg (j_end env) (j_lookup_ok env) (active_by_room (p_mxid p) (calls st)) st of
        (st1, Inl _) \<Rightarrow> (st1, None)
      | (st1, Inr None) \<Rightarrow>
          (case dial cfg (j_dial env) (p_id p) (p_mxid p, p_owner p) joiner OriginRtcJoin st1 of
             (st2, r) \<Rightarrow> (st2, Some r))
      | (st1, Inr (Some c)) \<Rightarrow>
          if c_state c \<noteq> Ringing then (st1, None) else (signal_answer (call_id c) joiner st1, None))"

definition on_matrix_left :: "call_config \<Rightarrow> join_env \<Rightarrow> portal_room \<Rightarrow> string \<Rightarrow> subsys \<Rightarrow> subsys" where
  "on_matrix_left cfg env p sender st =
     (case active_call cfg (j_end env) (j_lookup_ok env) (active_by_room (p_mxid p) (calls st)) st of
        (st1, Inl _) \<Rightarrow> st1
      | (st1, Inr None) \<Rightarrow> st1
      | (st1, Inr (Some c)) \<Rightarrow>
          if matrix_user c \<noteq> [] \<and> sender \<noteq> matrix_user c then st1
          else fst (end_call cfg (j_end env) c st1))"

record member_event =
  ev_has_key :: bool
  ev_sender :: string
  ev_room :: string
  ev_raw :: string
  ev_time :: millis

record matrix_env =
  mx_ghost :: "string \<Rightarrow> bool"
  mx_bot :: string
  mx_portal :: "string \<Rightarrow> portal_room option"
  mx_decode :: "string \<Rightarrow> call_member_content option"
  mx_decline :: "string \<Rightarrow> (string \<times> string) option"
  mx_now :: nanos

definition handle_call_member :: "call_config \<Rightarrow> matrix_env \<Rightarrow> join_env \<Rightarrow> member_event \<Rightarrow> subsys \<Rightarrow> subsys" where
  "handle_call_member cfg mx env ev st =
     (if \<not> ev_has_key ev then st
      else if mx_ghost mx (ev_sender ev) then st
      else if ev_sender ev = mx_bot mx then st
      else case mx_portal mx (ev_room ev) of
          None \<Rightarrow> st
        | Some p \<Rightarrow>
            (case parse_call_member (mx_decode mx) (ev_raw ev) (mx_now mx) (ev_time ev * 1000000) of
               None \<Rightarrow> st
             | Some False \<Rightarrow> on_matrix_left cfg env p (ev_sender ev) st
             | Some True \<Rightarrow> fst (on_matrix_joined cfg env p (ev_sender ev) st)))"

definition decline_own_call :: "call_config \<Rightarrow> end_env \<Rightarrow> bool \<Rightarrow> string \<Rightarrow> subsys \<Rightarrow> subsys" where
  "decline_own_call cfg env lookup_ok cid st =
     (if \<not> lookup_ok then st
      else case by_call_id cid (calls st) of
          None \<Rightarrow> st
        | Some c \<Rightarrow> if c_state c \<noteq> Ringing then st else fst (decline_call cfg env c st))"

definition handle_rtc_decline :: "call_config \<Rightarrow> matrix_env \<Rightarrow> end_env \<Rightarrow> bool \<Rightarrow> string \<Rightarrow> string \<Rightarrow> subsys \<Rightarrow> subsys" where
  "handle_rtc_decline cfg mx env lookup_ok sender raw st =
     (if mx_ghost mx sender then st
      else if sender = mx_bot mx then st
      else case decline_target (mx_decline mx) raw of
          None \<Rightarrow> st
        | Some ev \<Rightarrow>
            (case signal_decline ev st of
               ((cid, signalled), st1) \<Rightarrow>
                 if cid = [] then st1
                 else if signalled then st1
                 else decline_own_call cfg env lookup_ok cid st1))"

subsection \<open>The watcher and the start\<close>

record check_env =
  k_end :: end_env
  k_reply :: "string list http_reply"

definition check_call :: "call_config \<Rightarrow> check_env \<Rightarrow> call \<Rightarrow> subsys \<Rightarrow> subsys" where
  "check_call cfg env c st =
     (case end_if_stale cfg (k_end env) c st of
        (st1, stale, failed) \<Rightarrow>
          if failed \<or> stale then st1
          else if c_state c \<noteq> Bridged \<or> lk_identity c = [] then st1
          else (case participant_present (k_reply env) (lk_identity c) of
              Inl _ \<Rightarrow> st1
            | Inr True \<Rightarrow> mark_seen (call_id c) st1
            | Inr False \<Rightarrow>
                if call_id c \<notin> set (seen st1) then st1
                else fst (end_call cfg (k_end env) c st1)))"

fun check_calls :: "call_config \<Rightarrow> (string \<Rightarrow> check_env) \<Rightarrow> call list \<Rightarrow> subsys \<Rightarrow> subsys" where
  "check_calls cfg env [] st = st"
| "check_calls cfg env (c # cs) st = check_calls cfg env cs (check_call cfg (env (call_id c)) c st)"

definition check_participants :: "call_config \<Rightarrow> bool \<Rightarrow> (string \<Rightarrow> check_env) \<Rightarrow> subsys \<Rightarrow> subsys" where
  "check_participants cfg list_ok env st =
     (if \<not> list_ok then st else check_calls cfg env (all_active (calls st)) st)"

text \<open>\<open>Start\<close>: what the last run left is ended and its memberships and participants swept.
  \<open>ghosts\<close> says whose intents are to be had; \<open>False\<close> is an error.\<close>

definition sweep_call :: "(string \<Rightarrow> bool) \<Rightarrow> call \<Rightarrow> subsys \<Rightarrow> subsys" where
  "sweep_call ghosts c st =
     (let st1 = remove_call_participant c st in
      if ghosts (c_portal c) then emit [RetractMembership (c_room c) (device_id_for (call_id c))] st1 else st1)"

definition start_subsystem :: "call_config \<Rightarrow> bool \<Rightarrow> bool \<Rightarrow> db_outcome \<Rightarrow> nanos \<Rightarrow> (string \<Rightarrow> bool) \<Rightarrow> subsys
    \<Rightarrow> subsys \<times> bool" where
  "start_subsystem cfg upgrade_ok list_ok db now ghosts st =
     (if \<not> cfg_enabled cfg then (st, True)
      else if \<not> upgrade_ok then (st, False)
      else if \<not> list_ok then (st, False)
      else let stale = all_active (calls st);
               st1 = (if db = DbErr then st else st\<lparr>calls := fst (end_all now (calls st))\<rparr>) in
        if db \<noteq> DbOk then (st1, False)
        else (foldl (\<lambda>s c. sweep_call ghosts c s) st1 stale, True))"

subsection \<open>What the helpers leave alone\<close>

lemma emit_simps [simp]:
  "calls (emit es st) = calls st" "trace (emit es st) = trace st @ es" "legs (emit es st) = legs st"
  "notifies (emit es st) = notifies st" "answered (emit es st) = answered st"
  "declined (emit es st) = declined st" "ended (emit es st) = ended st" "seen (emit es st) = seen st"
  "strunk (emit es st) = strunk st"
  by (simp_all add: emit_def)

lemma calls_frame [simp]:
  "calls (waiters_for i st) = calls st" "calls (forget_waiters i st) = calls st"
  "calls (signal_ended i st) = calls st" "calls (signal_answer i u st) = calls st"
  "calls (remember_notification ev i st) = calls st" "calls (snd (take_notifications i st)) = calls st"
  "calls (snd (signal_decline ev st)) = calls st" "calls (keep_leg i st) = calls st"
  "calls (snd (take_leg i st)) = calls st" "calls (mark_seen i st) = calls st"
  "calls (forget_seen i st) = calls st" "calls (retract_ring_notification env c st) = calls st"
  "calls (remove_call_participant c st) = calls st" "calls (hangup_leg i st) = calls st"
  "calls (post_record cfg env c e st) = calls st" "calls (publish_membership c st) = calls st"
  "calls (ring_matrix n c st) = calls st"
  by (simp_all add: waiters_for_def forget_waiters_def signal_ended_def signal_answer_def
      remember_notification_def take_notifications_def signal_decline_def keep_leg_def take_leg_def
      mark_seen_def forget_seen_def retract_ring_notification_def remove_call_participant_def
      hangup_leg_def post_record_def publish_membership_def ring_matrix_def
      split: option.split list.split prod.split)

lemma calls_tear_down [simp]: "calls (tear_down cfg env c e st) = calls st"
  by (simp add: tear_down_def Let_def)

lemma legs_frame [simp]:
  "legs (waiters_for i st) = legs st" "legs (forget_waiters i st) = legs st"
  "legs (signal_ended i st) = legs st" "legs (mark_seen i st) = legs st" "legs (forget_seen i st) = legs st"
  "legs (retract_ring_notification env c st) = legs st" "legs (remove_call_participant c st) = legs st"
  "legs (post_record cfg env c e st) = legs st" "legs (publish_membership c st) = legs st"
  "legs (ring_matrix n c st) = legs st" "legs (hangup_leg i st) = removeAll i (legs st)"
  by (simp_all add: waiters_for_def forget_waiters_def signal_ended_def mark_seen_def forget_seen_def
      retract_ring_notification_def remove_call_participant_def post_record_def publish_membership_def
      ring_matrix_def hangup_leg_def take_leg_def take_notifications_def remember_notification_def
      split: option.split prod.split)

lemma legs_tear_down [simp]: "legs (tear_down cfg env c e st) = removeAll (call_id c) (legs st)"
  by (simp add: tear_down_def Let_def)

text \<open>The trace only grows, and a teardown adds exactly one count of the call.\<close>

definition grows :: "subsys \<Rightarrow> subsys \<Rightarrow> bool" where
  "grows st st' = (\<exists>es. trace st' = trace st @ es)"

lemma grows_refl [simp]: "grows st st"
  by (simp add: grows_def)

lemma grows_trans: "grows a b \<Longrightarrow> grows b c \<Longrightarrow> grows a c"
  by (auto simp: grows_def)

lemma trace_frame [simp]:
  "trace (waiters_for i st) = trace st" "trace (forget_waiters i st) = trace st"
  "trace (signal_ended i st) = trace st" "trace (mark_seen i st) = trace st" "trace (forget_seen i st) = trace st"
  "trace (signal_answer i u st) = trace st" "trace (remember_notification ev i st) = trace st"
  "trace (keep_leg i st) = trace st"
  by (simp_all add: waiters_for_def forget_waiters_def signal_ended_def mark_seen_def forget_seen_def
      signal_answer_def remember_notification_def keep_leg_def split: option.split list.split)

definition teardown_effects :: "call_config \<Rightarrow> end_env \<Rightarrow> call \<Rightarrow> call_ending \<Rightarrow> subsys \<Rightarrow> effect list" where
  "teardown_effects cfg env c e0 st =
     (let e = (if e0 = plain_end \<and> direction c = Inbound \<and> c_state c = Ringing
               then e0\<lparr>end_answered_by := answered_by cfg env c st\<rparr> else e0) in
      [CountCall (direction c) (call_outcome c e)]
      @ (if e_ghost_ok env then map RedactNotification (map fst (filter (\<lambda>(_, i). i = call_id c) (notifies st))) else [])
      @ (if lk_identity c = [] \<or> lk_room c = [] then [] else [RemoveParticipant (lk_room c) (lk_identity c)])
      @ (if call_id c \<in> set (legs st) then [HangupLeg (call_id c)] else [])
      @ (if e_ghost_ok env then [RetractMembership (c_room c) (device_id_for (call_id c))] else [])
      @ (case post_call_record (cfg_notices cfg) (e_ghost_ok env) c e (e_now env) of
           None \<Rightarrow> [] | Some (room, text) \<Rightarrow> [PostRecord room text]))"

lemma trace_tear_down:
  "trace (tear_down cfg env c e st) = trace st @ teardown_effects cfg env c e st"
proof -
  let ?e = "if e = plain_end \<and> direction c = Inbound \<and> c_state c = Ringing
               then e\<lparr>end_answered_by := answered_by cfg env c st\<rparr> else e"
  have 1: "trace (retract_ring_notification env c s) = trace s @
      (if e_ghost_ok env then map RedactNotification (map fst (filter (\<lambda>(_, i). i = call_id c) (notifies s))) else [])" for s
    by (simp add: retract_ring_notification_def take_notifications_def emit_def)
  have 2: "trace (remove_call_participant c s) = trace s @
      (if lk_identity c = [] \<or> lk_room c = [] then [] else [RemoveParticipant (lk_room c) (lk_identity c)])" for s
    by (simp add: remove_call_participant_def)
  have 3: "trace (hangup_leg (call_id c) s) = trace s @ (if call_id c \<in> set (legs s) then [HangupLeg (call_id c)] else [])" for s
    by (simp add: hangup_leg_def take_leg_def emit_def)
  have 4: "trace (post_record cfg env c ?e s) = trace s @
      (case post_call_record (cfg_notices cfg) (e_ghost_ok env) c ?e (e_now env) of
           None \<Rightarrow> [] | Some (room, text) \<Rightarrow> [PostRecord room text])" for s
    by (simp add: post_record_def split: option.split prod.split)
  have n: "notifies (signal_ended i (forget_seen j s)) = notifies s" for i j s
    by (simp add: signal_ended_def forget_seen_def split: option.split)
  show ?thesis
    unfolding tear_down_def Let_def 4 teardown_effects_def by (simp add: 1 2 3 n)
qed

subsection \<open>Ending, in terms of the table\<close>

lemma end_call_as_cases:
  "end_call_as cfg env c e st =
     (let won = snd (end_by_id (e_now env) (call_id c) (calls st));
          st1 = st\<lparr>calls := fst (end_by_id (e_now env) (call_id c) (calls st))\<rparr> in
      case e_db env of
        DbErr \<Rightarrow> (st, False)
      | DbErrCommitted \<Rightarrow> (st1, False)
      | DbOk \<Rightarrow> if won then (tear_down cfg env c e st1, e_ghost_ok env \<and> e_retract_ok env) else (st1, True))"
  by (simp add: end_call_as_def call_end_by_id Let_def split: db_outcome.split)

lemma calls_end_call_as:
  "calls (fst (end_call_as cfg env c e st)) =
     (if e_db env = DbErr then calls st else fst (end_by_id (e_now env) (call_id c) (calls st)))"
  by (simp add: end_call_as_cases Let_def split: db_outcome.split)

lemma end_step: "call_step t (fst (end_by_id now i t))"
proof -
  have "fst (end_by_id now i t) = fst (call_end now (undefined\<lparr>call_id := i\<rparr>) t)"
    by (simp add: call_end_by_id)
  then show ?thesis using call_step.finish by metis
qed

lemma end_call_as_steps: "call_step\<^sup>*\<^sup>* (calls st) (calls (fst (end_call_as cfg env c e st)))"
  by (auto simp: calls_end_call_as intro: r_into_rtranclp end_step)

lemma end_call_as_ends:
  assumes "calls_ok (calls st)" "e_db env \<noteq> DbErr"
  shows "state_in (calls (fst (end_call_as cfg env c e st))) (call_id c) \<in> {None, Some Ended}"
proof (cases "state_in (calls st) (call_id c)")
  case None
  then have "by_call_id (call_id c) (calls st) = None" by (simp add: state_in_def)
  then show ?thesis using assms(2)
    by (simp add: calls_end_call_as end_by_id_def Let_def state_in_def by_call_id_update)
next
  case (Some s)
  then show ?thesis
    using calls.end_leaves_ended [OF assms(1), of "call_id c" "e_now env"] assms(2)
    by (simp add: calls_end_call_as)
qed

subsection \<open>Properties\<close>

text \<open>The conference named after a portal leads back to that portal, only conferences with the
  prefix lead anywhere, and no two portals share one.\<close>

theorem conference_roundtrip:
  "(portal_id_from_conference cfg conf = Some pid)
     = (cfg_prefix cfg \<noteq> [] \<and> pid \<noteq> [] \<and> conf = conference_for cfg pid)
   \<and> (conference_for cfg a = conference_for cfg b \<longleftrightarrow> a = b)"
  by (auto simp: portal_id_from_conference_def conference_for_def Let_def has_prefix_iff)

text \<open>C1: Teardown happens once: ending a call that is in progress does each step of the teardown
  once, and after it, whatever other statements run on the table, ending that call again from
  anywhere does nothing to the outside.\<close>

theorem teardown_once:
  assumes "calls_ok (calls st)" "e_db env = DbOk"
    and "state_in (calls st) (call_id c) = Some s" "s \<noteq> Ended"
    and "call_step\<^sup>*\<^sup>* (calls (fst (end_call_as cfg env c e st))) (calls st2)" "call_id c' = call_id c"
  shows "trace (fst (end_call_as cfg env c e st))
      = trace st @ teardown_effects cfg env c e
          (st\<lparr>calls := fst (end_by_id (e_now env) (call_id c) (calls st))\<rparr>)
    \<and> trace (fst (end_call_as cfg' env' c' e' st2)) = trace st2
    \<and> calls (fst (end_call_as cfg' env' c' e' st2)) = calls st2"
proof -
  let ?i = "call_id c"
  have won: "snd (end_by_id (e_now env) ?i (calls st))"
    using calls.end_wins [OF assms(1)] assms(3,4) by simp
  have first: "end_call_as cfg env c e st =
      (tear_down cfg env c e (st\<lparr>calls := fst (end_by_id (e_now env) ?i (calls st))\<rparr>),
       e_ghost_ok env \<and> e_retract_ok env)"
    using won assms(2) by (simp add: end_call_as_cases Let_def)
  have "\<not> snd (end_by_id now ?i (calls st2))" for now
    using calls.ended_forever [OF assms(5)] calls.end_ends [OF assms(1) won] assms(1)
      calls_ok_step [OF assms(1) end_step] calls.end_wins [of "calls st2" now ?i] first by auto
  then have lost: "\<not> snd (end_by_id now (call_id c') (calls st2))" for now using assms(6) by simp
  then have same: "fst (end_by_id now (call_id c') (calls st2)) = calls st2" for now
    by (simp add: end_by_id_def Let_def update_rows_none)
  show ?thesis
    using first lost same by (simp add: end_call_as_cases Let_def trace_tear_down split: db_outcome.split)
qed

text \<open>Responses.\<close>

lemma answer_inbound_responses:
  assumes "answer_inbound cfg env c joiner st = (st', rs, r)"
  shows "(r = AnswerWon \<longrightarrow> rs = [LegAnswer True])
    \<and> (r = AnswerLost \<longrightarrow> rs = [])
    \<and> (r = AnswerOver \<longrightarrow> rs \<in> {[], [LegAnswer False], [LegReject 503 ''Service Unavailable'']})"
  using assms by (auto simp: answer_inbound_def Let_def split: prod.splits option.splits if_splits)

text \<open>A wake-up by a join, decided: not listened to or nothing in the buffer, or a claim.\<close>

lemma wait_joined:
  obtains (skip) "wait_for_matrix cfg ((others, WakeJoined env) # ws) listen c st0
      = wait_for_matrix cfg ws listen c (others st0)"
    | (claim) joiner st1 rs1 r1 where "listen" "answered (others st0) (call_id c) = Some [joiner]"
      "answer_inbound cfg env c joiner
         ((others st0)\<lparr>answered := (answered (others st0))(call_id c := Some [])\<rparr>) = (st1, rs1, r1)"
      "wait_for_matrix cfg ((others, WakeJoined env) # ws) listen c st0 =
         (case r1 of AnswerWon \<Rightarrow> (st1, rs1, LegAnswered) | AnswerOver \<Rightarrow> (st1, rs1, LegOver)
          | AnswerLost \<Rightarrow> (case wait_for_matrix cfg ws False c st1 of (st2, rs', r) \<Rightarrow> (st2, rs1 @ rs', r)))"
proof (cases "\<exists>joiner. listen \<and> answered (others st0) (call_id c) = Some [joiner]")
  case True
  then obtain joiner where j: "listen" "answered (others st0) (call_id c) = Some [joiner]" by blast
  obtain st1 rs1 r1 where a: "answer_inbound cfg env c joiner
      ((others st0)\<lparr>answered := (answered (others st0))(call_id c := Some [])\<rparr>) = (st1, rs1, r1)"
    by (metis prod_cases3)
  show thesis using j a by (intro claim [OF j a]) (simp add: Let_def split: answer_outcome.split)
next
  case False
  then show thesis
    by (intro skip) (auto simp: Let_def split: option.splits list.splits bool.splits)
qed

lemma wait_for_matrix_responses:
  assumes "wait_for_matrix cfg ws listen c st = (st', rs, r)"
  shows "(r = StillWaiting \<longrightarrow> rs = []) \<and> (r = LegAnswered \<longrightarrow> rs = [LegAnswer True])
    \<and> (r = LegOver \<longrightarrow> rs = [] \<or> rs = [LegAnswer False] \<or> (\<exists>code reason. rs = [LegReject code reason]))"
  using assms
proof (induction ws arbitrary: listen st st' rs r)
  case (Cons x ws)
  obtain others w where x: "x = (others, w)" by (cases x)
  show ?case
  proof (cases w)
    case (WakeJoined env)
    show ?thesis
    proof (cases rule: wait_joined [of cfg others env ws listen c st])
      case skip
      then show ?thesis using Cons x WakeJoined by simp
    next
      case (claim joiner st1 rs1 r1)
      note R = answer_inbound_responses [OF claim(3)]
      obtain st2 rs2 r2 where w2: "wait_for_matrix cfg ws False c st1 = (st2, rs2, r2)" by (metis prod_cases3)
      show ?thesis
        using Cons.prems Cons.IH [OF w2] R claim(4) w2 x WakeJoined
        by (cases r1) auto
    qed
  qed (use Cons x in \<open>auto simp: Let_def split: if_splits\<close>)
qed simp


definition sample_config :: call_config where
  "sample_config =
     \<lparr>cfg_enabled = True, cfg_prefix = ''sip-'', cfg_outbound_uri = ''sip:{number}@pbx'', cfg_expiry = 21600000000000,
      cfg_ring_timeout = 45000000000, cfg_scheme = UserDevice,
      cfg_notices = \<lparr>n_call_ended = None, n_call_failed = None, n_sip_down = None, n_trunk_missing = None\<rparr>,
      cfg_hash = (\<lambda>parts. join ''|'' parts)\<rparr>"

definition sample_end :: end_env where
  "sample_end =
     \<lparr>e_now = 9000000, e_db = DbOk, e_elsewhere_ok = True, e_display = (\<lambda>_ u. u), e_ghost_ok = True,
      e_retract_ok = True\<rparr>"

definition sample_media :: media_env where
  "sample_media =
     \<lparr>md_now = 8000000, md_ensure_ok = True, md_meanwhile = (\<lambda>s. s), md_create = Some ''PA_1'', md_update = DbOk\<rparr>"

definition sample_answer :: answer_env where
  "sample_answer =
     \<lparr>an_now = 7000000, an_db = DbOk, an_lookup_ok = True, an_media = sample_media, an_finished = False,
      an_ghost_ok = True, an_answer_ok = True, an_end = sample_end\<rparr>"

definition sample_begin :: begin_env where
  "sample_begin =
     \<lparr>b_now = 5000000, b_lookup_ok = True, b_portal = Some (''!room'', ''@alice''), b_ghost = Some ''@sip_1:e'',
      b_insert = DbOk, b_member = Some ''$m'', b_notify = Some ''$n'', b_end = sample_end\<rparr>"

definition sample_leg :: inbound_leg where
  "sample_leg =
     \<lparr>l_conference = ''sip-line2-+15551234567'', l_owner = Inr ''@alice'', l_ringing_ok = True, l_call_id = ''00ff''\<rparr>"

definition trunk_known :: subsys where
  "trunk_known = new_subsys\<lparr>strunk := \<lparr>trunk_id = Some ''ST_1'', trunk_pushed = None\<rparr>\<rparr>"

definition joined_wakes :: "((subsys \<Rightarrow> subsys) \<times> wake) list" where
  "joined_wakes = [(signal_answer ''00ff'' ''@alice'', WakeJoined sample_answer)]"



definition ringing_subsys :: subsys where
  "ringing_subsys = fst (begin_inbound_call sample_config sample_begin ''00ff'' ''line2-+15551234567''
     ''sip-line2-+15551234567'' ''@alice'' trunk_known)"

definition ringing_call :: call where
  "ringing_call = (case snd (begin_inbound_call sample_config sample_begin ''00ff'' ''line2-+15551234567''
     ''sip-line2-+15551234567'' ''@alice'' trunk_known) of Some c \<Rightarrow> c | None \<Rightarrow> sample_call [] [])"


theorem teardown_once_witness:
  "let r1 = end_call sample_config sample_end ringing_call ringing_subsys;
       r2 = decline_call sample_config sample_end ringing_call (fst r1) in
   trace (fst r2) = trace (fst r1)
   \<and> RemoveParticipant (lk_room ringing_call) (lk_identity ringing_call) \<in> set (trace (fst r1))"
proof -
  have ok: "calls_ok (calls ringing_subsys)" and s: "state_in (calls ringing_subsys) (call_id ringing_call) = Some Ringing"
    and db: "e_db sample_end = DbOk" by code_simp+
  have "trace (fst (decline_call sample_config sample_end ringing_call
        (fst (end_call sample_config sample_end ringing_call ringing_subsys))))
      = trace (fst (end_call sample_config sample_end ringing_call ringing_subsys))"
    unfolding end_call_def decline_call_def
    using teardown_once [OF ok db s _ rtranclp.rtrancl_refl refl] by blast
  moreover have "RemoveParticipant (lk_room ringing_call) (lk_identity ringing_call)
      \<in> set (trace (fst (end_call sample_config sample_end ringing_call ringing_subsys)))" by code_simp
  ultimately show ?thesis by (simp only: Let_def)
qed

subsection \<open>No call is left ringing\<close>

text \<open>What other goroutines may do to call \<open>i\<close> while its handler waits: run statements on the
  table, not bridge it, close its channel only once it has ended, and hold no control leg of
  it once they have ended it.\<close>

definition respects_call :: "string \<Rightarrow> (subsys \<Rightarrow> subsys) \<Rightarrow> bool" where
  "respects_call i others =
     (\<forall>st. call_step\<^sup>*\<^sup>* (calls st) (calls (others st))
        \<and> (state_in (calls (others st)) i = Some Bridged \<longrightarrow> state_in (calls st) i = Some Bridged)
        \<and> (i \<in> set (legs (others st)) \<longrightarrow> i \<in> set (legs st) \<and>
             (state_in (calls (others st)) i = Some Ended \<longrightarrow> state_in (calls st) i = Some Ended))
        \<and> (ended (others st) i = Some True \<longrightarrow>
             ended st i = Some True \<or> state_in (calls (others st)) i = Some Ended))"

lemma step_keeps_row:
  assumes "call_step t t'" "state_in t i \<noteq> None"
  shows "state_in t' i \<noteq> None"
proof -
  have "i \<in> call_id ` set t" using assms(2) by_call_id_None [of i t] by (auto simp: state_in_def)
  moreover have "call_id ` set t \<subseteq> call_id ` set t'"
    using call_step_shape [OF assms(1)]
  proof
    assume "live_update t t'"
    then have "map call_id t' = map call_id t"
      unfolding live_update_def using map_update_rows [of _ call_id _ t] by metis
    then show ?thesis by (metis list.set_map subset_refl)
  qed auto
  ultimately show ?thesis using by_call_id_None [of i t'] by (auto simp: state_in_def)
qed

lemma steps_keep:
  "call_step\<^sup>*\<^sup>* t t' \<Longrightarrow> calls_ok t \<Longrightarrow>
   calls_ok t' \<and> (state_in t i \<noteq> None \<longrightarrow> state_in t' i \<noteq> None)
   \<and> (state_in t i = Some Ended \<longrightarrow> state_in t' i = Some Ended)"
  by (induction rule: rtranclp_induct) (auto intro: calls_ok_step step_keeps_row state_in_ended_stays dest: step_keeps_row)

definition open_or_ended :: "subsys \<Rightarrow> string \<Rightarrow> call_state \<Rightarrow> bool" where
  "open_or_ended st i s = (calls_ok (calls st) \<and> (state_in (calls st) i = Some s \<or> state_in (calls st) i = Some Ended))"

lemma respects_ringing:
  assumes "respects_call i others" "open_or_ended st i Ringing"
  shows "open_or_ended (others st) i Ringing"
proof -
  have s: "call_step\<^sup>*\<^sup>* (calls st) (calls (others st))"
    "state_in (calls (others st)) i = Some Bridged \<longrightarrow> state_in (calls st) i = Some Bridged"
    using assms(1) by (auto simp: respects_call_def)
  have k: "calls_ok (calls (others st))" "state_in (calls (others st)) i \<noteq> None"
    using steps_keep [OF s(1), of i] assms(2) by (auto simp: open_or_ended_def)
  then obtain x where "state_in (calls (others st)) i = Some x" by auto
  then show ?thesis using k s(2) assms(2) by (cases x) (auto simp: open_or_ended_def)
qed

lemma end_call_as_closes:
  assumes "calls_ok (calls st)" "e_db env = DbOk" "i = call_id c"
  shows "state_in (calls (fst (end_call_as cfg env c e st))) i \<in> {None, Some Ended}"
  using end_call_as_ends [OF assms(1)] assms(2,3) by simp

lemma closed_fst:
  assumes "open_or_ended st (call_id c) s" "e_db env = DbOk"
  shows "state_in (calls (fst (end_call_as cfg env c e st))) (call_id c) = Some Ended"
proof -
  have "state_in (calls st) (call_id c) \<noteq> None" using assms(1) by (auto simp: open_or_ended_def)
  then show ?thesis
    using calls.end_leaves_ended [of "calls st" "call_id c" "e_now env"] assms
    by (simp add: calls_end_call_as open_or_ended_def)
qed

lemma swap_struct:
  "call_answer now c u t = (t', won, c') \<Longrightarrow> call_id c' = call_id c"
  "call_transition now c a b t = (t', won, c') \<Longrightarrow> call_id c' = call_id c"
  by (auto simp: call_answer_def call_transition_def call_swap_def split: if_splits prod.splits)

text \<open>Writing a call back keeps it open or ended, the state of the struct being the row's.\<close>

lemma update_open:
  assumes "open_or_ended st (call_id c) Bridged" "c_state c = Bridged"
  shows "open_or_ended (st\<lparr>calls := fst (call_update now c (calls st))\<rparr>) (call_id c) Bridged"
proof -
  have ok: "calls_ok (fst (call_update now c (calls st)))"
    using assms(1) by (simp add: open_or_ended_def call_update_def calls_ok_update_rows)
  obtain row where row: "by_call_id (call_id c) (calls st) = Some row" "c_state row \<in> {Bridged, Ended}"
    using assms(1) by (auto simp: open_or_ended_def state_in_def)
  then have "call_id row = call_id c"
    using assms(1) by_call_id_Some [of "calls st"] by (simp add: open_or_ended_def)
  then have "state_in (fst (call_update now c (calls st))) (call_id c) \<in> {Some Bridged, Some Ended}"
    using row assms(2) by (auto simp: call_update_def state_in_def by_call_id_update)
  with ok show ?thesis by (auto simp: open_or_ended_def)
qed

lemma bridge_media_keeps:
  assumes "P st" "\<And>es s. P (emit es s) = P s" "\<And>s. P (mark_seen (call_id c) s) = P s"
    and "\<And>s. P s \<Longrightarrow> P (md_meanwhile env s)"
    and "\<And>s part. P s \<Longrightarrow> P (s\<lparr>calls := fst (call_update (md_now env) (c\<lparr>lk_participant := part\<rparr>) (calls s))\<rparr>)"
    and "bridge_media env c st = (st', c', r)"
  shows "P st' \<and> call_id c' = call_id c"
proof (cases "current_trunk_id (strunk st)")
  case (Inl e)
  then show ?thesis using assms(1,6) by (simp add: bridge_media_def)
next
  case (Inr trunk)
  have up: "call_id (snd (call_update now d t)) = call_id d" for now d t by (simp add: call_update_def)
  let ?m = "md_meanwhile env (emit [EnsureRoom (lk_room c)] st)"
  have m: "P ?m" using assms(1,2,4) by blast
  show ?thesis
  proof (cases "md_ensure_ok env \<and> md_create env \<noteq> None")
    case False
    then have "st' = emit [EnsureRoom (lk_room c)] st \<or> st' = ?m" "c' = c"
      using assms(6) Inr by (auto simp: bridge_media_def Let_def split: if_splits option.splits)
    then show ?thesis using m assms(1,2) by auto
  next
    case True
    then obtain part where p: "md_create env = Some part" by auto
    let ?s = "mark_seen (call_id c) (emit [CreateParticipant trunk (conference c) (lk_room c) (lk_identity c)] ?m)"
    have s: "P ?s" using m assms(2,3) by simp
    have "st' = ?s \<or> st' = ?s\<lparr>calls := fst (call_update (md_now env) (c\<lparr>lk_participant := part\<rparr>) (calls ?s))\<rparr>"
      "call_id c' = call_id c"
      using assms(6) Inr True p up by (auto simp: bridge_media_def Let_def)
    then show ?thesis using s assms(5) [OF s, of part] by auto
  qed
qed

lemma bridge_media_open:
  assumes "open_or_ended st i Bridged" "i = call_id c" "c_state c = Bridged"
    and "\<And>s. open_or_ended s i Bridged \<Longrightarrow> open_or_ended (md_meanwhile env s) i Bridged"
    and "bridge_media env c st = (st', c', r)"
  shows "open_or_ended st' i Bridged \<and> call_id c' = i"
proof -
  have "open_or_ended st' i Bridged \<and> call_id c' = call_id c"
    by (rule bridge_media_keeps [of "\<lambda>s. open_or_ended s i Bridged", OF assms(1) _ _ assms(4) _ assms(5)])
      (use update_open [of _ "c\<lparr>lk_participant := part\<rparr>" for part] assms(2,3) in \<open>auto simp: open_or_ended_def\<close>)
  then show ?thesis using assms(2) by simp
qed

text \<open>No statement takes a call that is up back to ringing.\<close>

lemma bridged_update:
  assumes "\<And>r. P r \<Longrightarrow> call_id (f r) = call_id r" "\<And>r. P r \<Longrightarrow> c_state (f r) \<noteq> Ringing"
    and "state_in t i = Some Bridged"
  shows "state_in (update_rows P f t) i = Some Bridged \<or> state_in (update_rows P f t) i = Some Ended"
proof -
  obtain r where r: "by_call_id i t = Some r" "c_state r = Bridged" using assms(3) by (auto simp: state_in_def)
  then have "state_in (update_rows P f t) i = Some (c_state (if P r then f r else r))"
    using assms(1) by (simp add: state_in_def by_call_id_update)
  then show ?thesis using assms(2) [of r] r(2) by (cases "c_state (f r)") auto
qed

lemma bridged_step:
  assumes "call_step t t'" "state_in t i = Some Bridged"
  shows "state_in t' i = Some Bridged \<or> state_in t' i = Some Ended"
  using assms(1)
proof cases
  case (insert now c c')
  then obtain x where "t' = t @ [x]" by (auto simp: call_insert_def Let_def split: if_splits)
  moreover have "by_call_id i (t @ [x]) = by_call_id i t" if "by_call_id i t \<noteq> None"
    using that by (induction t) (auto simp: by_call_id_def)
  ultimately show ?thesis using assms(2) by (auto simp: state_in_def)
next
  case (answer c r now user)
  show ?thesis unfolding answer(1) call_answer_table by (rule bridged_update [OF _ _ assms(2)]) auto
next
  case (move c r now)
  show ?thesis unfolding move(1) call_transition_table by (rule bridged_update [OF _ _ assms(2)]) auto
next
  case (update c r now)
  show ?thesis unfolding update(1) call_update_def fst_conv
    by (rule bridged_update [OF _ _ assms(2)]) (use update(4) in auto)
next
  case (finish now c)
  show ?thesis unfolding finish(1) call_end_by_id end_by_id_def Let_def fst_conv
    by (rule bridged_update [OF _ _ assms(2)]) auto
next
  case (restart now)
  show ?thesis unfolding restart(1) end_all_def fst_conv by (rule bridged_update [OF _ _ assms(2)]) auto
qed

lemma bridged_steps:
  "call_step\<^sup>*\<^sup>* t t' \<Longrightarrow> state_in t i = Some Bridged \<or> state_in t i = Some Ended
   \<Longrightarrow> state_in t' i = Some Bridged \<or> state_in t' i = Some Ended"
  by (induction rule: rtranclp_induct) (auto dest: bridged_step state_in_ended_stays)

lemma respects_bridged:
  assumes "respects_call i others" "open_or_ended st i Bridged"
  shows "open_or_ended (others st) i Bridged"
proof -
  have s: "call_step\<^sup>*\<^sup>* (calls st) (calls (others st))" using assms(1) by (auto simp: respects_call_def)
  then show ?thesis
    using steps_keep [OF s, of i] bridged_steps [OF s, of i] assms(2) by (auto simp: open_or_ended_def)
qed

lemma open_frame [simp]:
  "open_or_ended (emit es st) i s = open_or_ended st i s"
  "open_or_ended (publish_membership c st) i s = open_or_ended st i s"
  "open_or_ended (st\<lparr>answered := a\<rparr>) i s = open_or_ended st i s"
  "open_or_ended (st\<lparr>ended := b\<rparr>) i s = open_or_ended st i s"
  "open_or_ended (ring_matrix n c st) i s = open_or_ended st i s"
  "open_or_ended (keep_leg j st) i s = open_or_ended st i s"
  by (simp_all add: open_or_ended_def)

text \<open>After a compare-and-swap of a ringing or ended call: won, it is up; lost, nothing changed.\<close>

lemma answer_table_open:
  assumes "open_or_ended st (call_id c) Ringing" "call_answer now c u (calls st) = (t, won, c')"
  shows "(won \<longrightarrow> open_or_ended (st\<lparr>calls := t\<rparr>) (call_id c) Bridged \<and> state_in t (call_id c) = Some Bridged
      \<and> c_state c' = Bridged)
    \<and> (\<not> won \<longrightarrow> t = calls st)
    \<and> (open_or_ended (st\<lparr>calls := t\<rparr>) (call_id c) Ringing \<or> open_or_ended (st\<lparr>calls := t\<rparr>) (call_id c) Bridged)"
proof -
  let ?P = "\<lambda>r. call_id r = call_id c \<and> c_state r = Ringing \<and> \<not> conference_taken (conference c) (calls st)"
  have t: "t = update_rows ?P (\<lambda>r. r\<lparr>matrix_user := u, c_state := Bridged, updated_at := millis_only now\<rparr>) (calls st)"
    and won: "won = (\<exists>r \<in> set (calls st). ?P r)"
    using call_answer_table [of now c u "calls st"] assms(2) by simp_all
  have ok: "calls_ok (calls st)" "calls_ok t"
    using assms(1) by (simp_all add: open_or_ended_def t calls_ok_update_rows)
  obtain row where row: "by_call_id (call_id c) (calls st) = Some row" "c_state row \<in> {Ringing, Ended}"
    using assms(1) by (auto simp: open_or_ended_def state_in_def)
  have uniq: "r = row" if "r \<in> set (calls st)" "call_id r = call_id c" for r
    using that row(1) by_call_id_Some [OF ok(1)] by (metis option.inject)
  have s: "state_in t (call_id c) = Some (if ?P row then Bridged else c_state row)"
    using row(1) by (auto simp: state_in_def t by_call_id_update)
  have "won = ?P row" using won uniq row(1) by_call_id_Some [OF ok(1)] by metis
  moreover have "\<not> won \<Longrightarrow> t = calls st" using won unfolding t by (intro update_rows_none) (auto simp: filter_empty_conv)
  moreover have "won \<Longrightarrow> c_state c' = Bridged"
    using assms(2) by (auto simp: call_answer_def call_swap_def split: if_splits prod.splits)
  ultimately show ?thesis using s ok(2) row(2) by (auto simp: open_or_ended_def)
qed

definition answer_env_ok :: "string \<Rightarrow> answer_env \<Rightarrow> bool" where
  "answer_env_ok i env =
     (an_db env = DbOk \<and> an_lookup_ok env \<and> e_db (an_end env) = DbOk \<and> respects_call i (md_meanwhile (an_media env)))"

lemma answer_inbound_closes:
  assumes "open_or_ended st (call_id c) Ringing" "answer_env_ok (call_id c) env"
    and "answer_inbound cfg env c joiner st = (st', rs, r)"
  shows "(r = AnswerOver \<longrightarrow> state_in (calls st') (call_id c) = Some Ended)
    \<and> (r = AnswerLost \<longrightarrow> st' = st)"
proof -
  obtain t won c1 where a: "call_answer (an_now env) c joiner (calls st) = (t, won, c1)" by (metis prod_cases3)
  note A = answer_table_open [OF assms(1) a] and id1 = swap_struct(1) [OF a]
  have env: "an_db env = DbOk" "an_lookup_ok env" "e_db (an_end env) = DbOk"
    "respects_call (call_id c) (md_meanwhile (an_media env))" using assms(2) by (simp_all add: answer_env_ok_def)
  show ?thesis
  proof (cases won)
    case False
    then have "t = calls st" "st' = st"
      "r = (if map_option c_state (by_call_id (call_id c) (calls st)) = Some Ringing then AnswerLost else AnswerOver)"
      using assms(3) a env A by (auto simp: answer_inbound_def Let_def)
    then show ?thesis using assms(1) by (auto simp: open_or_ended_def state_in_def)
  next
    case True
    let ?s = "emit [CountSetup (direction c1)] (st\<lparr>calls := t\<rparr>)"
    have s: "open_or_ended ?s (call_id c) Bridged" "c_state c1 = Bridged" using A True by simp_all
    obtain st2 c2 m where m: "bridge_media (an_media env) c1 ?s = (st2, c2, m)" by (metis prod_cases3)
    have o: "open_or_ended st2 (call_id c) Bridged" "call_id c2 = call_id c"
      using bridge_media_open [OF s(1) _ s(2) _ m] id1 respects_bridged [OF env(4)] by auto
    have "open_or_ended (publish_membership c2 st2) (call_id c) Bridged" using o by simp
    then have closed: "state_in (calls (fst (end_call_as cfg (an_end env) c2 e st2))) (call_id c) = Some Ended"
      "state_in (calls (fst (end_call_as cfg (an_end env) c2 e (publish_membership c2 st2)))) (call_id c) = Some Ended" for e
      using closed_fst [of _ c2 Bridged "an_end env" cfg e] o env(3) by auto
    show ?thesis
      using assms(3) a env(1) True m closed
      by (auto simp: answer_inbound_def Let_def end_call_def fail_call_def split: option.splits if_splits)
  qed
qed

fun wake_ok :: "string \<Rightarrow> (subsys \<Rightarrow> subsys) \<times> wake \<Rightarrow> bool" where
  "wake_ok i (others, WakeJoined env) = (respects_call i others \<and> answer_env_ok i env)"
| "wake_ok i (others, WakeEnded f) = respects_call i others"
| "wake_ok i (others, WakeDeclined env) = (respects_call i others \<and> e_db env = DbOk)"
| "wake_ok i (others, WakeLegDone env) = (respects_call i others \<and> e_db env = DbOk)"
| "wake_ok i (others, WakeRing env) = (respects_call i others \<and> e_db env = DbOk)"
| "wake_ok i (others, WakeCancelled f env) = (respects_call i others \<and> e_db env = DbOk)"

definition waiting_ok :: "string \<Rightarrow> subsys \<Rightarrow> bool" where
  "waiting_ok i st =
     (open_or_ended st i Ringing \<and> (ended st i = Some True \<longrightarrow> state_in (calls st) i = Some Ended))"

lemma respects_waiting:
  assumes "respects_call i others" "waiting_ok i st"
  shows "waiting_ok i (others st)"
proof -
  have "call_step\<^sup>*\<^sup>* (calls st) (calls (others st))"
    "ended (others st) i = Some True \<longrightarrow> ended st i = Some True \<or> state_in (calls (others st)) i = Some Ended"
    using assms(1) by (auto simp: respects_call_def)
  then show ?thesis
    using respects_ringing [OF assms(1)] assms(2) steps_keep [of "calls st" "calls (others st)" i]
    by (auto simp: waiting_ok_def open_or_ended_def)
qed

lemma wait_for_matrix_closes:
  assumes "waiting_ok (call_id c) st" "\<forall>w \<in> set ws. wake_ok (call_id c) w"
    and "wait_for_matrix cfg ws listen c st = (st', rs, r)" "r = LegOver"
  shows "state_in (calls st') (call_id c) = Some Ended"
  using assms
proof (induction ws arbitrary: listen st st' rs r)
  case (Cons x ws)
  obtain others w where x: "x = (others, w)" by (cases x)
  have resp: "respects_call (call_id c) others" using Cons.prems(2) x by (cases w) auto
  have wo: "waiting_ok (call_id c) (others st)" by (rule respects_waiting [OF resp Cons.prems(1)])
  then have open': "open_or_ended (others st) (call_id c) Ringing" by (simp add: waiting_ok_def)
  have rest: "\<forall>w \<in> set ws. wake_ok (call_id c) w" using Cons.prems(2) by simp
  note IH = Cons.IH [OF wo rest]
  have closed: "e_db env = DbOk \<Longrightarrow>
      state_in (calls (fst (end_call_as cfg env c e (others st)))) (call_id c) = Some Ended" for env e
    using closed_fst [OF open'] .
  show ?case
  proof (cases w)
    case (WakeJoined env)
    show ?thesis
    proof (cases rule: wait_joined [of cfg others env ws listen c st])
      case skip
      then show ?thesis using Cons.prems(3,4) x WakeJoined IH by simp
    next
      case (claim joiner st1 rs1 r1)
      let ?s = "(others st)\<lparr>answered := (answered (others st))(call_id c := Some [])\<rparr>"
      have "open_or_ended ?s (call_id c) Ringing" "answer_env_ok (call_id c) env"
        using open' Cons.prems(2) x WakeJoined by auto
      note A = answer_inbound_closes [OF this claim(3)]
      show ?thesis
      proof (cases r1)
        case AnswerLost
        then have "waiting_ok (call_id c) st1" using A wo by (simp add: waiting_ok_def open_or_ended_def)
        note IH2 = Cons.IH [OF this rest]
        obtain st2 rs2 r2 where w2: "wait_for_matrix cfg ws False c st1 = (st2, rs2, r2)" by (metis prod_cases3)
        then show ?thesis using Cons.prems(3,4) x WakeJoined claim(4) AnswerLost IH2 [OF w2] by auto
      qed (use Cons.prems(3,4) x WakeJoined claim(4) A in auto)
    qed
  next
    case (WakeEnded f)
    then show ?thesis using Cons.prems(3,4) x IH wo by (auto simp: Let_def waiting_ok_def split: if_splits)
  next
    case (WakeDeclined env)
    then show ?thesis using Cons.prems x IH closed by (auto simp: Let_def decline_call_def split: if_splits)
  next
    case (WakeLegDone env)
    then show ?thesis using Cons.prems x closed by (auto simp: Let_def end_call_def)
  next
    case (WakeRing env)
    then show ?thesis using Cons.prems x closed by (auto simp: Let_def end_call_def)
  next
    case (WakeCancelled f env)
    then show ?thesis
      using Cons.prems x closed by (auto simp: Let_def end_call_def fail_call_def split: if_splits)
  qed
qed simp

lemma insert_call_open:
  assumes "calls_ok (calls st)" "state_in (calls st) (call_id c) = None" "c_state c = Ringing" "db = DbOk"
    and "insert_call db now c st = (st', Some c')"
  shows "open_or_ended st' (call_id c) Ringing \<and> call_id c' = call_id c \<and> ended st' = ended st
    \<and> c_state c' = Ringing \<and> legs st' = legs st"
proof -
  have "by_call_id (call_id c) (calls st) = None" using assms(2) by (simp add: state_in_def)
  then have n: "call_id c \<notin> set (map call_id (calls st))" by (simp add: by_call_id_None)
  then have st': "\<exists>r. st' = st\<lparr>calls := calls st @ [r]\<rparr> \<and> call_id r = call_id c \<and> c_state r = Ringing"
    "call_id c' = call_id c" "c_state c' = Ringing"
    using assms(3-5) by (auto simp: insert_call_def call_insert_def Let_def call_row_def split: if_splits)
  then obtain r where r: "st' = st\<lparr>calls := calls st @ [r]\<rparr>" "call_id r = call_id c" "c_state r = Ringing" by blast
  have "by_call_id (call_id c) [r] = Some r" using r(2) by (simp add: by_call_id_def)
  then have "by_call_id (call_id c) (calls st @ [r]) = Some r"
    using \<open>by_call_id (call_id c) (calls st) = None\<close> by (simp add: by_call_id_append)
  then show ?thesis
    using r st'(2,3) assms(1) n by (auto simp: open_or_ended_def calls_ok_def state_in_def)
qed

text \<open>A lookup of the call in progress may end another call, and changes nothing else of \<open>i\<close>.\<close>

lemma end_call_as_fresh:
  assumes "calls_ok (calls st)" "state_in (calls st) i = None"
  shows "calls_ok (calls (fst (end_call_as cfg env c e st))) \<and> state_in (calls (fst (end_call_as cfg env c e st))) i = None"
  using assms
  by (simp add: calls_end_call_as end_by_id_def Let_def calls_ok_update_rows state_in_def by_call_id_update)

lemma ended_frame [simp]:
  "ended (retract_ring_notification env c st) = ended st" "ended (remove_call_participant c st) = ended st"
  "ended (hangup_leg i st) = ended st" "ended (post_record cfg env c e st) = ended st"
  "ended (forget_seen i st) = ended st" "ended (mark_seen i st) = ended st" "ended (keep_leg i st) = ended st"
  by (simp_all add: retract_ring_notification_def remove_call_participant_def hangup_leg_def post_record_def
      forget_seen_def mark_seen_def keep_leg_def take_leg_def take_notifications_def
      split: option.split prod.split)

lemma ended_tear_down [simp]:
  "ended (tear_down cfg env c e st) = ended (signal_ended (call_id c) st)"
  by (simp add: tear_down_def Let_def signal_ended_def split: option.split)

lemma ended_end_call_as:
  "ended (fst (end_call_as cfg env c e st)) i = ended st i
   \<or> i = call_id c \<and> ended st i \<noteq> None \<and> ended (fst (end_call_as cfg env c e st)) i = Some True"
  by (simp add: end_call_as_cases Let_def signal_ended_def split: db_outcome.split option.split)

lemma active_call_fresh:
  assumes "active_call cfg env ok found st = (st', r)" "calls_ok (calls st)" "state_in (calls st) i = None"
    and "\<And>c. found = Some c \<Longrightarrow> c \<in> set (calls st)" "ended st i = Some False"
  shows "calls_ok (calls st') \<and> state_in (calls st') i = None \<and> ended st' i = Some False"
proof -
  have other: "i \<noteq> call_id c" if "found = Some c" for c
    using assms(4) [OF that] assms(3) by_call_id_None [of i "calls st"] by (auto simp: state_in_def)
  show ?thesis
    using assms(1-3,5) other end_call_as_fresh [OF assms(2,3)] ended_end_call_as [of cfg env _ _ st i]
    by (auto simp: active_call_def end_if_stale_def split: if_splits option.splits prod.splits)
      (metis fst_conv)+
qed

lemma active_by_set:
  "active_by_conference conf rcv t = Some c \<Longrightarrow> c \<in> set t \<and> conference c = conf \<and> receiver c = rcv \<and> c_state c \<noteq> Ended"
  "active_by_room room t = Some c \<Longrightarrow> c \<in> set t \<and> c_room c = room \<and> c_state c \<noteq> Ended"
  unfolding active_by_conference_def active_by_room_def by (drule latest_set; simp)+

lemma ended_ring_matrix [simp]:
  "ended (ring_matrix n c st) = ended st" "ended (publish_membership c st) = ended st"
  by (simp_all add: ring_matrix_def publish_membership_def remember_notification_def split: option.split)

lemma begin_inbound_call_open:
  assumes "begin_inbound_call cfg env i pid conf owner st = (st', r)"
    and "calls_ok (calls st)" "state_in (calls st) i = None" "ended st i = Some False"
    and "b_insert env = DbOk" "e_db (b_end env) = DbOk"
  shows "(\<forall>c. r = Some c \<longrightarrow> call_id c = i \<and> waiting_ok i st')
    \<and> (r = None \<longrightarrow> state_in (calls st') i \<in> {None, Some Ended})"
proof -
  obtain st1 l where a: "active_call cfg (b_end env) (b_lookup_ok env)
      (active_by_conference conf owner (calls st)) st = (st1, l)" by (metis prod.exhaust)
  have f: "calls_ok (calls st1)" "state_in (calls st1) i = None" "ended st1 i = Some False"
    using active_call_fresh [OF a assms(2,3) _ assms(4)] active_by_set by auto
  show ?thesis
  proof (cases "l = Inr None \<and> (\<exists>portal ghost. b_portal env = Some portal \<and> fst portal \<noteq> [] \<and> b_ghost env = Some ghost)")
    case False
    then have "(st', r) = (st1, None)"
      using assms(1) a by (auto simp: begin_inbound_call_def split: sum.splits option.splits if_splits)
    then show ?thesis using f by simp
  next
    case True
    then obtain portal ghost where p: "l = Inr None" "b_portal env = Some portal" "fst portal \<noteq> []" "b_ghost env = Some ghost"
      by blast
    let ?c = "new_call cfg i pid portal [] Inbound conf ghost"
    have c: "call_id ?c = i" "c_state ?c = Ringing" by (simp_all add: new_call_def)
    obtain st2 m where ins: "insert_call (b_insert env) (b_now env) ?c st1 = (st2, m)" by (metis prod.exhaust)
    show ?thesis
    proof (cases m)
      case None
      then have "st2 = st1" using ins assms(5) by (auto simp: insert_call_def split: option.splits prod.splits if_splits)
      moreover have "(st', r) = (st2, None)"
        using assms(1) a p ins None by (simp add: begin_inbound_call_def)
      ultimately show ?thesis using f by simp
    next
      case (Some c')
      have o: "open_or_ended st2 i Ringing" "call_id c' = i" "ended st2 i = Some False"
        using insert_call_open [OF f(1) _ c(2) assms(5) ins [unfolded Some]] f c by auto
      show ?thesis
      proof (cases "b_member env")
        case None
        then have "(st', r) = (fst (fail_call cfg (b_end env) c' ''could not connect'' st2), None)"
          using assms(1) a p ins Some by (simp add: begin_inbound_call_def)
        then show ?thesis using closed_fst [of st2 c' Ringing "b_end env"] o assms(6) by (simp add: fail_call_def)
      next
        case (Some ev)
        then have "(st', r) = (ring_matrix (b_notify env) c' (publish_membership c' st2), Some c')"
          using assms(1) a p ins \<open>m = Some c'\<close> by (simp add: begin_inbound_call_def)
        then show ?thesis using o by (simp add: waiting_ok_def)
      qed
    qed
  qed
qed

text \<open>C10: Once the handler of an inbound call is done with a leg it did not answer, the call's row
  has ended or was never written, if the database works, however other goroutines interleave:
  no half-built call is left in progress to refuse the next one.\<close>

theorem no_ringing_row_left:
  assumes "handle_inbound_call cfg leg env wakes st = (st', rs, LegOver)"
    and "calls_ok (calls st)" "state_in (calls st) (l_call_id leg) = None" "ended st (l_call_id leg) = None"
    and "b_insert env = DbOk" "e_db (b_end env) = DbOk"
    and "\<forall>w \<in> set wakes. wake_ok (l_call_id leg) w"
  shows "state_in (calls st') (l_call_id leg) \<in> {None, Some Ended}"
proof -
  let ?i = "l_call_id leg"
  let ?st0 = "waiters_for ?i st"
  have st0: "calls ?st0 = calls st" "ended ?st0 ?i = Some False"
    using assms(4) by (simp_all add: waiters_for_def)
  consider (turned) "calls st' = calls st"
    | (begun) pid owner st1 m where "begin_inbound_call cfg env ?i pid (l_conference leg) owner ?st0 = (st1, m)"
      "case m of None \<Rightarrow> st' = forget_waiters ?i st1
       | Some c \<Rightarrow> \<exists>st2 rs2. wait_for_matrix cfg wakes True c st1 = (st2, rs2, LegOver) \<and> st' = forget_waiters ?i st2"
    using assms(1)
    by (auto simp: handle_inbound_call_def split: if_splits option.splits sum.splits prod.splits)
  then show ?thesis
  proof cases
    case turned
    then show ?thesis using assms(3) by simp
  next
    case begun
    note B = begin_inbound_call_open [OF begun(1) _ _ st0(2) assms(5,6)]
    show ?thesis
    proof (cases m)
      case None
      then show ?thesis using B begun(2) st0 assms(2,3) by simp
    next
      case (Some c)
      then obtain st2 rs2 where w: "wait_for_matrix cfg wakes True c st1 = (st2, rs2, LegOver)" "st' = forget_waiters ?i st2"
        using begun(2) by auto
      have "call_id c = ?i" "waiting_ok ?i st1" using B Some st0 assms(2,3) by auto
      then have "state_in (calls st2) ?i = Some Ended"
        using wait_for_matrix_closes [of c st1 wakes cfg True st2 rs2 LegOver] w(1) assms(7) by simp
      then show ?thesis using w(2) by simp
    qed
  qed
qed

definition ringing_out_wakes :: "((subsys \<Rightarrow> subsys) \<times> wake) list" where
  "ringing_out_wakes =
     [(\<lambda>s. s, WakeDeclined sample_end), (signal_answer ''00ff'' ''@alice'', WakeEnded False), (\<lambda>s. s, WakeRing sample_end)]"

lemma respects_same: "calls (f st) = calls st \<Longrightarrow> legs (f st) = legs st \<Longrightarrow> ended (f st) = ended st \<Longrightarrow>
   call_step\<^sup>*\<^sup>* (calls st) (calls (f st))
   \<and> (state_in (calls (f st)) i = Some Bridged \<longrightarrow> state_in (calls st) i = Some Bridged)
   \<and> (i \<in> set (legs (f st)) \<longrightarrow> i \<in> set (legs st) \<and>
        (state_in (calls (f st)) i = Some Ended \<longrightarrow> state_in (calls st) i = Some Ended))
   \<and> (ended (f st) i = Some True \<longrightarrow> ended st i = Some True \<or> state_in (calls (f st)) i = Some Ended)"
  by simp

lemma respects_simps [simp]:
  "respects_call i (\<lambda>s. s)" "respects_call i id" "respects_call i (signal_answer j u)"
  unfolding respects_call_def
  by (intro allI respects_same; simp add: signal_answer_def split: option.split list.split)+

theorem no_ringing_row_left_witness:
  "let h = handle_inbound_call sample_config sample_leg sample_begin ringing_out_wakes trunk_known in
   state_in (calls (fst h)) ''00ff'' = Some Ended \<and> snd (snd h) = LegOver"
proof -
  let ?h = "handle_inbound_call sample_config sample_leg sample_begin ringing_out_wakes trunk_known"
  have r: "snd (snd ?h) = LegOver" and s: "state_in (calls (fst ?h)) ''00ff'' \<noteq> None" by code_simp+
  have h: "?h = (fst ?h, fst (snd ?h), LegOver)" using r by (metis prod.collapse)
  have "state_in (calls (fst ?h)) (l_call_id sample_leg) \<in> {None, Some Ended}"
    by (rule no_ringing_row_left [OF h])
      (simp_all add: trunk_known_def new_subsys_def calls_ok_def state_in_def by_call_id_def sample_begin_def
        sample_end_def ringing_out_wakes_def)
  moreover have "l_call_id sample_leg = ''00ff''" by (simp add: sample_leg_def)
  ultimately show ?thesis using r s unfolding Let_def by auto
qed

subsection \<open>Dialling out leaves nothing behind\<close>

text \<open>A call that is up, with a control leg held only while it is.\<close>

definition leg_ok :: "string \<Rightarrow> subsys \<Rightarrow> bool" where
  "leg_ok i st =
     (open_or_ended st i Bridged \<and> (state_in (calls st) i = Some Ended \<longrightarrow> i \<notin> set (legs st)))"

lemma leg_ok_frame [simp]:
  "leg_ok i (emit es st) = leg_ok i st" "leg_ok i (mark_seen j st) = leg_ok i st"
  "leg_ok i (publish_membership c st) = leg_ok i st"
  by (simp_all add: leg_ok_def open_or_ended_def)

lemma respects_leg_ok:
  assumes "respects_call i others" "leg_ok i st"
  shows "leg_ok i (others st)"
  using respects_bridged [OF assms(1)] assms by (auto simp: leg_ok_def respects_call_def)

lemma update_ended:
  assumes "state_in t i = Some Bridged" "c_state d = Bridged" "calls_ok t" "i = call_id d"
  shows "state_in (fst (call_update now d t)) i = Some Bridged"
proof -
  obtain row where "by_call_id i t = Some row" "c_state row = Bridged" using assms(1) by (auto simp: state_in_def)
  moreover have "call_id row = i" using calculation by_call_id_Some [OF assms(3)] by simp
  ultimately show ?thesis using assms(2,4) by (auto simp: call_update_def state_in_def by_call_id_update)
qed

lemma bridge_media_leg_ok:
  assumes "leg_ok (call_id c) st" "c_state c = Bridged" "respects_call (call_id c) (md_meanwhile env)"
    and "bridge_media env c st = (st', c', r)"
  shows "leg_ok (call_id c) st' \<and> call_id c' = call_id c"
proof (rule bridge_media_keeps [of "leg_ok (call_id c)", OF assms(1) _ _ _ _ assms(4)])
  fix s part
  assume s: "leg_ok (call_id c) s"
  have "state_in (calls s) (call_id c) = Some Bridged \<Longrightarrow>
      state_in (fst (call_update (md_now env) (c\<lparr>lk_participant := part\<rparr>) (calls s))) (call_id c) = Some Bridged"
    using s assms(2) by (intro update_ended) (auto simp: leg_ok_def open_or_ended_def)
  then show "leg_ok (call_id c) (s\<lparr>calls := fst (call_update (md_now env) (c\<lparr>lk_participant := part\<rparr>) (calls s))\<rparr>)"
    using s update_open [of s "c\<lparr>lk_participant := part\<rparr>" "md_now env"] assms(2)
    by (auto simp: leg_ok_def open_or_ended_def)
qed (use respects_leg_ok [OF assms(3)] in auto)

text \<open>Ending such a call leaves its row ended and no leg of it.\<close>

lemma end_call_as_no_leg:
  assumes "leg_ok (call_id c) st" "e_db env = DbOk"
  shows "state_in (calls (fst (end_call_as cfg env c e st))) (call_id c) = Some Ended
    \<and> call_id c \<notin> set (legs (fst (end_call_as cfg env c e st)))"
proof -
  have ok: "calls_ok (calls st)" "state_in (calls st) (call_id c) \<in> {Some Bridged, Some Ended}"
    using assms(1) by (auto simp: leg_ok_def open_or_ended_def)
  have won: "snd (end_by_id (e_now env) (call_id c) (calls st)) = (state_in (calls st) (call_id c) = Some Bridged)"
    using calls.end_wins [OF ok(1), of "e_now env" "call_id c"] ok(2) by auto
  have "call_id c \<notin> set (legs (fst (end_call_as cfg env c e st)))"
    using won ok(2) assms by (auto simp: end_call_as_cases Let_def leg_ok_def)
  then show ?thesis using closed_fst [of st c Bridged env cfg e] assms by (simp add: leg_ok_def)
qed

lemma transition_table_open:
  assumes "open_or_ended st (call_id c) Ringing" "call_transition now c Ringing Bridged (calls st) = (t, won, c')"
  shows "(won \<longrightarrow> state_in t (call_id c) = Some Bridged \<and> calls_ok t \<and> c_state c' = Bridged)
    \<and> (\<not> won \<longrightarrow> t = calls st \<and> state_in t (call_id c) = Some Ended)
    \<and> (open_or_ended (st\<lparr>calls := t\<rparr>) (call_id c) Ringing \<or> open_or_ended (st\<lparr>calls := t\<rparr>) (call_id c) Bridged)"
proof -
  let ?P = "\<lambda>r. call_id r = call_id c \<and> c_state r = Ringing"
  have t: "t = update_rows ?P (\<lambda>r. r\<lparr>c_state := Bridged, updated_at := millis_only now\<rparr>) (calls st)"
    and won: "won = (\<exists>r \<in> set (calls st). ?P r)"
    using call_transition_table [of now c Ringing Bridged "calls st"] assms(2) by simp_all
  have ok: "calls_ok (calls st)" "calls_ok t"
    using assms(1) by (simp_all add: open_or_ended_def t calls_ok_update_rows)
  obtain row where row: "by_call_id (call_id c) (calls st) = Some row" "c_state row \<in> {Ringing, Ended}"
    using assms(1) by (auto simp: open_or_ended_def state_in_def)
  have "call_id row = call_id c" "row \<in> set (calls st)" using row(1) by_call_id_Some [OF ok(1)] by auto
  moreover have "r = row" if "r \<in> set (calls st)" "call_id r = call_id c" for r
    using that row(1) by_call_id_Some [OF ok(1)] by (metis option.inject)
  ultimately have w: "won = (c_state row = Ringing)" using won by metis
  have "state_in t (call_id c) = Some (if ?P row then Bridged else c_state row)"
    using row(1) by (auto simp: state_in_def t by_call_id_update)
  moreover have "\<not> won \<Longrightarrow> t = calls st" using won unfolding t by (intro update_rows_none) (auto simp: filter_empty_conv)
  moreover have "won \<Longrightarrow> c_state c' = Bridged"
    using assms(2) by (auto simp: call_transition_def call_swap_def split: if_splits prod.splits)
  ultimately show ?thesis using w ok(2) row(2) \<open>call_id row = call_id c\<close> by (auto simp: open_or_ended_def)
qed

definition dial_env_ok :: "dial_env \<Rightarrow> bool" where
  "dial_env_ok env =
     (d_insert env = DbOk \<and> d_move env = DbOk \<and> e_db (d_end env) = DbOk
      \<and> respects_call (d_call_id env) (d_announced env) \<and> respects_call (d_call_id env) (d_meanwhile env)
      \<and> respects_call (d_call_id env) (md_meanwhile (d_media env)))"

lemma trace_bridge_media:
  assumes "bridge_media env c st = (st', c', None)"
  shows "\<exists>before trunk. trace st' = before @ [CreateParticipant trunk (conference c) (lk_room c) (lk_identity c)]"
  using assms by (auto simp: bridge_media_def Let_def split: sum.splits option.splits if_splits)

definition over_or_up :: "string \<Rightarrow> subsys \<Rightarrow> dial_error + call \<Rightarrow> bool" where
  "over_or_up i st res =
     (case res of
        Inl e \<Rightarrow> state_in (calls st) i \<in> {None, Some Ended} \<and> i \<notin> set (legs st)
      | Inr c \<Rightarrow> call_id c = i \<and> leg_ok i st
          \<and> (\<exists>trunk conf room who. CreateParticipant trunk conf room who \<in> set (trace st)))"

lemma dial_answered_over_or_up:
  assumes "open_or_ended st (call_id c) Ringing" "d_call_id env = call_id c" "dial_env_ok env"
    and "call_id c \<notin> set (legs st)"
    and "dial_answered cfg env c st = (st', res)"
  shows "over_or_up (call_id c) st' res"
proof -
  obtain t won c1 where a: "call_transition (d_answered_at env) c Ringing Bridged (calls st) = (t, won, c1)"
    by (metis prod_cases3)
  note T = transition_table_open [OF assms(1) a] and id1 = swap_struct(2) [OF a]
  have env: "d_move env = DbOk" "e_db (d_end env) = DbOk" "respects_call (call_id c) (md_meanwhile (d_media env))"
    using assms(2,3) by (auto simp: dial_env_ok_def)
  show ?thesis
  proof (cases won)
    case False
    then have "(st', res) = (hangup_leg (call_id c) ((keep_leg (call_id c) st)\<lparr>calls := t\<rparr>), Inl DialEndedWhileRinging)"
      using assms(5) a env by (simp add: dial_answered_def Let_def)
    then show ?thesis using T False by (auto simp: over_or_up_def)
  next
    case True
    let ?s = "emit [CountSetup (direction c1)] ((keep_leg (call_id c) st)\<lparr>calls := t\<rparr>)"
    have s: "leg_ok (call_id c1) ?s" "c_state c1 = Bridged"
      using T True id1 by (auto simp: leg_ok_def open_or_ended_def)
    obtain st2 c2 m where m: "bridge_media (d_media env) c1 ?s = (st2, c2, m)" by (metis prod_cases3)
    have o: "leg_ok (call_id c) st2" "call_id c2 = call_id c"
      using bridge_media_leg_ok [OF s _ m] id1 env(3) by simp_all
    show ?thesis
    proof (cases m)
      case None
      then have "st' = (if d_republish_ok env then publish_membership c2 st2 else st2)" "res = Inr c2"
        using assms(5) a env(1) True m by (auto simp: dial_answered_def Let_def)
      moreover obtain before trunk where
        "trace st2 = before @ [CreateParticipant trunk (conference c1) (lk_room c1) (lk_identity c1)]"
        using trace_bridge_media [OF m [unfolded None]] by blast
      then have "CreateParticipant trunk (conference c1) (lk_room c1) (lk_identity c1) \<in> set (trace st2)" by simp
      then have "\<exists>trunk conf room who. CreateParticipant trunk conf room who
          \<in> set (trace (if d_republish_ok env then publish_membership c2 st2 else st2))"
        by (auto simp: publish_membership_def)
      ultimately show ?thesis using o by (simp add: over_or_up_def)
    next
      case (Some e)
      then have "(st', res) = (fst (fail_call cfg (d_end env) c2 (media_failure_reason e) st2), Inl (DialMedia e))"
        using assms(5) a env(1) True m by (simp add: dial_answered_def Let_def)
      then show ?thesis
        using end_call_as_no_leg [of c2 st2 "d_end env"] o env(2) by (simp add: over_or_up_def fail_call_def)
    qed
  qed
qed

lemma ring_phone_keeps:
  assumes "respects_call i (d_meanwhile env)" "open_or_ended st i Ringing" "i \<notin> set (legs st)"
  shows "open_or_ended (ring_phone env i uri conf caller st) i Ringing
    \<and> i \<notin> set (legs (ring_phone env i uri conf caller st))"
proof -
  let ?s = "emit [InviteSent uri conf caller]
      (st\<lparr>ended := (ended st)(i := Some (case ended st i of Some b \<Rightarrow> b | None \<Rightarrow> False))\<rparr>)"
  have s: "open_or_ended ?s i Ringing" "i \<notin> set (legs ?s)" using assms(2,3) by simp_all
  then have "open_or_ended (d_meanwhile env ?s) i Ringing" "i \<notin> set (legs (d_meanwhile env ?s))"
    using respects_ringing [OF assms(1) s(1)] assms(1) by (auto simp: respects_call_def)
  then show ?thesis by (simp add: ring_phone_def Let_def)
qed

lemma no_leg_end_call_as:
  "i \<notin> set (legs st) \<Longrightarrow> i \<notin> set (legs (fst (end_call_as cfg env c e st)))"
  by (auto simp: end_call_as_cases Let_def split: db_outcome.split)

lemma placed_over_or_up:
  assumes "open_or_ended st i Ringing" "i \<notin> set (legs st)" "d_call_id env = i" "call_id c = i" "dial_env_ok env"
    and "(if \<not> d_invite_ok env
          then (fst (fail_call cfg (d_end env) c reason (ring_phone env i uri conf caller st)), Inl e)
          else dial_answered cfg env c (ring_phone env i uri conf caller st)) = (st', res)"
  shows "over_or_up i st' res"
proof -
  let ?s = "ring_phone env i uri conf caller st"
  have env: "e_db (d_end env) = DbOk" "respects_call i (d_meanwhile env)"
    using assms(3,5) by (auto simp: dial_env_ok_def)
  have R: "open_or_ended ?s (call_id c) Ringing" "call_id c \<notin> set (legs ?s)"
    using ring_phone_keeps [OF env(2) assms(1,2)] assms(4) by simp_all
  show ?thesis
  proof (cases "d_invite_ok env")
    case False
    then have "st' = fst (fail_call cfg (d_end env) c reason ?s)" "res = Inl e" using assms(6) by simp_all
    then show ?thesis
      using closed_fst [OF R(1) env(1)] no_leg_end_call_as [OF R(2)] assms(4)
      by (simp add: over_or_up_def fail_call_def)
  next
    case True
    then show ?thesis using dial_answered_over_or_up [OF R(1) _ assms(5) R(2)] assms(3,4,6) by simp
  qed
qed


text \<open>What other goroutines do to a call is what is asked of them: each ends calls, or signals.\<close>

lemma by_call_id_id: "by_call_id i t = Some r \<Longrightarrow> call_id r = i \<and> r \<in> set t"
  unfolding by_call_id_def by (auto simp: find_Some_iff)

lemma state_in_end_by_id:
  "state_in (fst (end_by_id now j t)) i
     = (if i = j \<and> state_in t i \<noteq> None then Some Ended else state_in t i)"
  by (cases "by_call_id i t")
    (auto simp: end_by_id_def Let_def state_in_def by_call_id_update dest: by_call_id_id)

lemma end_by_id_won: "snd (end_by_id now j t) \<Longrightarrow> state_in t j \<noteq> None"
  "state_in t j = Some x \<Longrightarrow> x \<noteq> Ended \<Longrightarrow> snd (end_by_id now j t)"
  using by_call_id_None [of j t] by_call_id_id [of j t]
  by (auto simp: end_by_id_def Let_def state_in_def filter_empty_conv)

lemma respects_end_call_as:
  assumes "e_db env = DbOk"
  shows "respects_call i (\<lambda>s. fst (end_call_as cfg env c e s))"
proof -
  have s: "state_in (calls (fst (end_call_as cfg env c e st))) i =
      (if i = call_id c \<and> state_in (calls st) i \<noteq> None then Some Ended else state_in (calls st) i)" for st
    using assms by (simp add: calls_end_call_as state_in_end_by_id)
  have l: "set (legs (fst (end_call_as cfg env c e st))) \<subseteq> set (legs st)" for st
    using assms by (auto simp: end_call_as_cases Let_def)
  have l2: "call_id c \<notin> set (legs (fst (end_call_as cfg env c e st)))"
    if "state_in (calls st) (call_id c) = Some x" "x \<noteq> Ended" for st x
    using end_by_id_won(2) [OF that] assms by (simp add: end_call_as_cases Let_def)
  have e: "ended (fst (end_call_as cfg env c e st)) i = ended st i
      \<or> i = call_id c \<and> state_in (calls st) i \<noteq> None" for st
    using assms end_by_id_won(1) [of "e_now env" "call_id c" "calls st"]
    by (auto simp: end_call_as_cases Let_def signal_ended_def split: option.split)
  show ?thesis
    unfolding respects_call_def
  proof (intro allI conjI impI)
    fix st
    let ?s = "fst (end_call_as cfg env c e st)"
    show "call_step\<^sup>*\<^sup>* (calls st) (calls ?s)" by (rule end_call_as_steps)
    show "state_in (calls st) i = Some Bridged" if "state_in (calls ?s) i = Some Bridged"
      using that s [of st] by (auto split: if_splits)
    show "i \<in> set (legs st)" if "i \<in> set (legs ?s)" using that l by blast
    show "state_in (calls st) i = Some Ended" if "i \<in> set (legs ?s)" "state_in (calls ?s) i = Some Ended"
    proof (rule ccontr)
      assume n: "state_in (calls st) i \<noteq> Some Ended"
      then have "i = call_id c" "state_in (calls st) i \<noteq> None" using that(2) s [of st] by (auto split: if_splits)
      then show False using l2 n that(1) by auto
    qed
    show "ended st i = Some True \<or> state_in (calls ?s) i = Some Ended" if "ended ?s i = Some True"
      using that e [of st] s [of st] by auto
  qed
qed

lemma respects_more [simp]:
  "respects_call i (mark_seen j)" "respects_call i (\<lambda>s. snd (signal_decline ev s))"
  "e_db env = DbOk \<Longrightarrow> respects_call i (\<lambda>s. fst (decline_call cfg env c s))"
  "e_db env = DbOk \<Longrightarrow> respects_call i (\<lambda>s. fst (end_call cfg env c s))"
proof -
  show "respects_call i (mark_seen j)" "respects_call i (\<lambda>s. snd (signal_decline ev s))"
    unfolding respects_call_def
    by (intro allI respects_same; simp add: mark_seen_def signal_decline_def split: option.split)+
qed (simp_all add: decline_call_def end_call_def respects_end_call_as)

definition sample_dial :: "(subsys \<Rightarrow> subsys) \<Rightarrow> (subsys \<Rightarrow> subsys) \<Rightarrow> dial_env" where
  "sample_dial ringing bridging =
     \<lparr>d_call_id = ''00ff'', d_sip_running = True, d_ghost = Some ''@sip_1:e'', d_insert = DbOk, d_now = 5000000,
      d_member = Some ''$m'', d_notify = Some ''$n'', d_announced = id, d_meanwhile = ringing, d_invite_ok = True,
      d_answered_at = 6000000, d_move = DbOk, d_media = sample_media\<lparr>md_meanwhile := bridging\<rparr>,
      d_republish_ok = True, d_end = sample_end\<rparr>"

definition sample_portal :: "string \<times> string" where
  "sample_portal = (''!room'', ''@alice'')"

definition quiet :: "subsys \<Rightarrow> subsys" where
  "quiet s = s"

lemma respects_quiet [simp]: "respects_call i quiet"
proof -
  have "quiet = (\<lambda>s. s)" by (simp add: quiet_def fun_eq_iff)
  then show ?thesis using respects_simps(1) by metis
qed

definition answered_dial :: "subsys \<times> (dial_error + call)" where
  "answered_dial = dial sample_config (sample_dial quiet quiet)
     ''line2-+15551234567'' sample_portal ''@alice'' OriginCommand trunk_known"


subsection \<open>A call that ends while its media is being bridged\<close>

lemma strunk_end_call_as [simp]: "strunk (fst (end_call_as cfg env c e st)) = strunk st"
proof -
  have f: "strunk (retract_ring_notification env c st) = strunk st" "strunk (remove_call_participant c st) = strunk st"
    "strunk (hangup_leg i st) = strunk st" "strunk (post_record cfg env c e st) = strunk st"
    "strunk (forget_seen i st) = strunk st" "strunk (signal_ended i st) = strunk st" for st e i
    by (simp_all add: retract_ring_notification_def remove_call_participant_def hangup_leg_def post_record_def
        forget_seen_def signal_ended_def take_leg_def take_notifications_def split: option.split prod.split)
  have "strunk (tear_down cfg env c e st) = strunk st" for st by (simp add: tear_down_def Let_def f)
  then show ?thesis by (simp add: end_call_as_cases Let_def split: db_outcome.split)
qed

lemma state_in_update_ended:
  assumes "state_in t i = Some Ended" shows "state_in (fst (call_update now d t)) i = Some Ended"
proof -
  obtain row where "by_call_id i t = Some row" "c_state row = Ended" using assms by (auto simp: state_in_def)
  then show ?thesis by (auto simp: call_update_def state_in_def by_call_id_update)
qed

lemma remove_in_teardown:
  "lk_identity c \<noteq> [] \<Longrightarrow> lk_room c \<noteq> [] \<Longrightarrow>
   RemoveParticipant (lk_room c) (lk_identity c) \<in> set (teardown_effects cfg env c e st)"
  by (simp add: teardown_effects_def Let_def)

text \<open>A call that ends while livekit-sip is dialling its conference is answered nevertheless: the
  200 is sent for a call whose row has ended, its participant is created and its membership
  published after they were removed, and ending the call again does not undo either, since the
  teardown has been done.\<close>

theorem ended_while_bridging_is_answered:
  assumes "calls_ok (calls st)" "state_in (calls st) (call_id c) = Some Ringing"
    and "\<not> conference_taken (conference c) (calls st)" "an_db env = DbOk" "an_ghost_ok env" "an_answer_ok env"
    and "current_trunk_id (strunk st) = Inr trunk" "md_ensure_ok (an_media env)" "md_update (an_media env) = DbOk"
    and "md_create (an_media env) = Some part" "md_meanwhile (an_media env) = (\<lambda>s. fst (end_call cfg left c s))"
    and "e_db left = DbOk" "lk_identity c \<noteq> []" "lk_room c \<noteq> []"
    and "answer_inbound cfg env c joiner st = (st', rs, r)"
  shows "rs = [LegAnswer True] \<and> r = AnswerWon \<and> state_in (calls st') (call_id c) = Some Ended
    \<and> (\<exists>before. RemoveParticipant (lk_room c) (lk_identity c) \<in> set before \<and> trace st' = before
        @ [CreateParticipant trunk (conference c) (lk_room c) (lk_identity c),
           PublishMembership (c_room c) (device_id_for (call_id c))])
    \<and> trace (fst (end_call cfg later c st')) = trace st'"
proof -
  let ?i = "call_id c"
  obtain t won c1 where a: "call_answer (an_now env) c joiner (calls st) = (t, won, c1)" by (metis prod_cases3)
  obtain row where row: "row \<in> set (calls st)" "call_id row = ?i" "c_state row = Ringing"
    using assms(1,2) by_call_id_id by (fastforce simp: state_in_def)
  have won: "won" using call_answer_table(2) [of "an_now env" c joiner "calls st"] a row assms(3) by auto
  have c1: "call_id c1 = ?i" "conference c1 = conference c" "lk_room c1 = lk_room c" "lk_identity c1 = lk_identity c"
    "c_room c1 = c_room c"
    using a by (auto simp: call_answer_def call_swap_def split: if_splits prod.splits)
  have up: "open_or_ended (st\<lparr>calls := t\<rparr>) ?i Bridged"
    using answer_table_open [OF _ a] won assms(1,2) by (simp add: open_or_ended_def)
  define s1 where "s1 = emit [EnsureRoom (lk_room c)] (emit [CountSetup (direction c1)] (st\<lparr>calls := t\<rparr>))"
  define s2 where "s2 = fst (end_call cfg left c s1)"
  have s1: "open_or_ended s1 ?i Bridged" "call_id c = ?i" using up by (simp_all add: s1_def)
  have x: "state_in (calls s1) ?i = Some Bridged" "Bridged \<noteq> Ended"
    using answer_table_open [OF _ a] won assms(1,2) by (auto simp: open_or_ended_def s1_def)
  have s2: "state_in (calls s2) ?i = Some Ended" unfolding s2_def end_call_def
    using closed_fst [OF s1(1) assms(12)] .
  have removed: "RemoveParticipant (lk_room c) (lk_identity c) \<in> set (trace s2)"
    unfolding s2_def end_call_def using end_by_id_won(2) [OF x] assms(12,13,14)
    by (simp add: end_call_as_cases Let_def trace_tear_down remove_in_teardown)
  define s3 where "s3 = mark_seen ?i (emit [CreateParticipant trunk (conference c) (lk_room c) (lk_identity c)] s2)"
  define u where "u = call_update (md_now (an_media env)) (c1\<lparr>lk_participant := part\<rparr>) (calls s3)"
  have "bridge_media (an_media env) c1 (emit [CountSetup (direction c1)] (st\<lparr>calls := t\<rparr>))
      = (s3\<lparr>calls := fst u\<rparr>, snd u, None)"
    using assms(7-11) c1 by (simp add: bridge_media_def Let_def s1_def s2_def s3_def u_def)
  moreover have "call_id (snd u) = ?i" "c_room (snd u) = c_room c" using c1 by (simp_all add: u_def call_update_def)
  ultimately have st': "st' = publish_membership (snd u) (s3\<lparr>calls := fst u\<rparr>)" "rs = [LegAnswer True]" "r = AnswerWon"
    using assms(4-6,15) a won by (simp_all add: answer_inbound_def Let_def)
  have over: "state_in (calls st') ?i = Some Ended"
    using state_in_update_ended [of "calls s3" ?i] s2 by (simp add: st'(1) u_def s3_def)
  have tr: "trace st' = trace s2 @ [CreateParticipant trunk (conference c) (lk_room c) (lk_identity c),
      PublishMembership (c_room c) (device_id_for ?i)]"
    using \<open>call_id (snd u) = ?i\<close> \<open>c_room (snd u) = c_room c\<close> by (simp add: st'(1) s3_def publish_membership_def)
  have "calls_ok (calls s2)"
    using steps_keep [OF end_call_as_steps, of s1] s1(1) by (auto simp: s2_def end_call_def open_or_ended_def)
  then have "calls_ok (calls st')" by (simp add: st'(1) u_def s3_def call_update_def calls_ok_update_rows)
  then have "\<not> snd (end_by_id (e_now later) ?i (calls st'))" using calls.end_wins over by auto
  then have again: "trace (fst (end_call cfg later c st')) = trace st'"
    unfolding end_call_def by (auto simp: end_call_as_cases Let_def split: db_outcome.split)
  show ?thesis using st'(2,3) over removed tr again by blast
qed

definition left_meanwhile :: "subsys \<Rightarrow> subsys" where
  "left_meanwhile s = fst (end_call sample_config sample_end ringing_call s)"

definition left_answer :: answer_env where
  "left_answer = sample_answer\<lparr>an_media := sample_media\<lparr>md_meanwhile := left_meanwhile\<rparr>\<rparr>"

theorem ended_while_bridging_is_answered_witness:
  "case answer_inbound sample_config left_answer ringing_call ''@alice'' ringing_subsys of
     (st', rs, r) \<Rightarrow> rs = [LegAnswer True] \<and> state_in (calls st') (call_id ringing_call) = Some Ended"
proof -
  let ?a = "answer_inbound sample_config left_answer ringing_call ''@alice'' ringing_subsys"
  have m: "md_meanwhile (an_media left_answer) = (\<lambda>s. fst (end_call sample_config sample_end ringing_call s))"
    by (simp add: left_answer_def left_meanwhile_def fun_eq_iff)
  have s: "calls_ok (calls ringing_subsys)" "state_in (calls ringing_subsys) (call_id ringing_call) = Some Ringing"
    "\<not> conference_taken (conference ringing_call) (calls ringing_subsys)"
    "current_trunk_id (strunk ringing_subsys) = Inr ''ST_1''" "lk_identity ringing_call \<noteq> []" "lk_room ringing_call \<noteq> []"
    by code_simp+
  have e: "an_db left_answer = DbOk" "an_ghost_ok left_answer" "an_answer_ok left_answer" "md_ensure_ok (an_media left_answer)"
    "md_update (an_media left_answer) = DbOk" "md_create (an_media left_answer) = Some ''PA_1''" "e_db sample_end = DbOk"
    by (simp_all add: left_answer_def sample_answer_def sample_media_def sample_end_def)
  have a: "?a = (fst ?a, fst (snd ?a), snd (snd ?a))" by simp
  show ?thesis
    using ended_while_bridging_is_answered [OF s(1-3) e(1-3) s(4) e(4,5,6) m e(7) s(5,6) a]
    by (simp add: split_beta)
qed

subsection \<open>Which portal is dialled\<close>

lemma e164_portal:
  assumes "e164_digits d"
  shows "number_from_id d = CHR ''+'' # d" "line_from_id d = []" "\<not> is_line_room_id d"
proof -
  have ds: "list_all is_digit d" "d \<noteq> []" "is_digit (last d)"
    using assms e164_digits_last [OF assms] by (simp_all add: e164_digits_def)
  then have p: "portal_id_line d = None" by (simp add: portal_id_line_digits)
  then show "number_from_id d = CHR ''+'' # d" "line_from_id d = []"
    using assms by (simp_all add: number_from_id_def line_from_id_def split_id_def e164_digits_def)
  show "\<not> is_line_room_id d"
    using not_room_if_digit [OF ds(2,3)] by (simp add: is_line_room_id_def is_space_id_def)
qed

text \<open>C21: What is dialled is the number asked for: the portal chosen has its number, is a
  conversation, and is on the line asked for; without a line it is the one line-scoped
  portal the caller has of that number, or the line-less one if there is none, and never one
  minted because the portals could not be listed.\<close>

theorem number_dials_its_portal:
  assumes "dial_portal_id number line existing = Inr pid"
  shows "normalize number = Inr (number_from_id pid) \<and> \<not> is_line_room_id pid
    \<and> (if line \<noteq> [] then line_from_id pid = line
       else \<exists>ids. existing = Some ids
         \<and> (let lined = filter (\<lambda>p. \<not> is_line_room_id p \<and> number_from_id p = number_from_id pid
                                  \<and> line_from_id p \<noteq> []) ids in
            lined = [pid] \<or> lined = [] \<and> line_from_id pid = []))"
proof (cases "line = []")
  case False
  then have "id_for line number = Inr pid" using assms by (simp add: dial_portal_id_def split: sum.splits)
  then obtain d where d: "e164_digits d" "normalize number = Inr (CHR ''+'' # d)" "line_name line"
    "pid = line @ ''-'' @ CHR ''+'' # d" using False id_for_shape by (metis line_name_nonempty)
  have "split_id pid = (line, CHR ''+'' # d)" "portal_id_line pid = Some (line, CHR ''+'' # d)"
    unfolding d(4) append_Cons append_Nil
    using split_id_make portal_id_line_make e164_is_number [OF d(1)] line_name_no_newline [OF d(3)] by blast+
  moreover have "is_digit (last pid)" "pid \<noteq> []" using d e164_digits_last [OF d(1)] by auto
  then have "\<not> is_line_room_id pid" by (simp add: is_line_room_id_def is_space_id_def not_room_if_digit)
  ultimately show ?thesis using d(2) False by (simp add: number_from_id_def line_from_id_def)
next
  case True
  then obtain n ids where n: "normalize number = Inr n" "existing = Some ids" "portal_id_for_number n ids = Inr pid"
    using assms by (auto simp: dial_portal_id_def split: sum.splits option.splits)
  obtain d where d: "n = CHR ''+'' # d" "e164_digits d" using normalize_Inr_shape [OF n(1)] .
  let ?lined = "filter (\<lambda>p. \<not> is_line_room_id p \<and> number_from_id p = n \<and> line_from_id p \<noteq> []) ids"
  consider "?lined = []" "pid = d" | "?lined = [pid]"
    using n(3) d by (auto simp: portal_id_for_number_def Let_def split: list.splits)
  then show ?thesis
  proof cases
    case 1
    then show ?thesis using n d True e164_portal [OF d(2)] by (simp add: Let_def)
  next
    case 2
    then have "pid \<in> set ?lined" by (metis list.set_intros(1))
    then have "n = number_from_id pid" "\<not> is_line_room_id pid" by auto
    then show ?thesis using 2 n True by (simp add: Let_def)
  qed
qed

theorem number_dials_its_portal_witness:
  "dial_portal_id ''0015551234567'' [] (Some [''15551234567'', ''line2-space'', ''line2-+15551234567''])
     = Inr ''line2-+15551234567''
   \<and> normalize ''0015551234567'' = Inr (number_from_id ''line2-+15551234567'')"
proof -
  have d: "dial_portal_id ''0015551234567'' [] (Some [''15551234567'', ''line2-space'', ''line2-+15551234567''])
     = Inr ''line2-+15551234567''" by code_simp
  from number_dials_its_portal [OF d] d show ?thesis by blast
qed

subsection \<open>The watcher, hangups and the start\<close>

text \<open>C14: The watcher ends a call only on evidence: the row is stale, or the call is up, its
  participant was seen, and LiveKit answered that the room or the participant in it is gone.
  A request that failed, a participant not seen yet, and a call that rings leave the table
  as it is.\<close>

theorem watcher_needs_evidence:
  assumes "calls (check_call cfg env c st) \<noteq> calls st"
  shows "call_is_stale cfg c (e_now (k_end env))
    \<or> c_state c = Bridged \<and> call_id c \<in> set (seen st)
      \<and> (call_service (k_reply env) = Inl (TwirpError ''not_found'')
         \<or> (\<exists>present. call_service (k_reply env) = Inr present \<and> lk_identity c \<notin> set present))"
proof (rule ccontr)
  assume n: "\<not> ?thesis"
  have p: "participant_present (k_reply env) (lk_identity c) = Inr False \<Longrightarrow>
      call_service (k_reply env) = Inl (TwirpError ''not_found'')
      \<or> (\<exists>present. call_service (k_reply env) = Inr present \<and> lk_identity c \<notin> set present)"
    by (auto simp: participant_present_def is_not_found_def split: sum.splits if_splits)
  have "calls (check_call cfg env c st) = calls st"
    using n p by (auto simp: check_call_def end_if_stale_def split: sum.split bool.split)
  with assms show False ..
qed

definition sample_check :: check_env where
  "sample_check = \<lparr>k_end = sample_end, k_reply = Reply 200 None (Some [''someone''])\<rparr>"

theorem watcher_needs_evidence_witness:
  "let st = fst answered_dial; c = hd (calls st) in
   calls (check_call sample_config sample_check c st) \<noteq> calls st
   \<and> c_state c = Bridged \<and> call_id c \<in> set (seen st)"
proof -
  have n: "calls (check_call sample_config sample_check (hd (calls (fst answered_dial))) (fst answered_dial))
      \<noteq> calls (fst answered_dial)" by code_simp
  have "\<not> call_is_stale sample_config (hd (calls (fst answered_dial))) (e_now (k_end sample_check))" by code_simp
  with watcher_needs_evidence [OF n] n show ?thesis by (simp add: Let_def)
qed

lemma sweep_frame [simp]: "calls (sweep_call ghosts c st) = calls st"
  by (simp add: sweep_call_def Let_def)

lemma trace_sweep_call:
  "trace (sweep_call ghosts c st) = trace st
     @ (if lk_identity c = [] \<or> lk_room c = [] then [] else [RemoveParticipant (lk_room c) (lk_identity c)])
     @ (if ghosts (c_portal c) then [RetractMembership (c_room c) (device_id_for (call_id c))] else [])"
  by (simp add: sweep_call_def Let_def remove_call_participant_def)

lemma sweep_all:
  "calls (foldl (\<lambda>s c. sweep_call ghosts c s) st cs) = calls st
   \<and> (\<exists>es. trace (foldl (\<lambda>s c. sweep_call ghosts c s) st cs) = trace st @ es \<and>
        (c \<in> set cs \<longrightarrow>
           (lk_identity c \<noteq> [] \<and> lk_room c \<noteq> [] \<longrightarrow> RemoveParticipant (lk_room c) (lk_identity c) \<in> set es)
           \<and> (ghosts (c_portal c) \<longrightarrow> RetractMembership (c_room c) (device_id_for (call_id c)) \<in> set es)))"
proof (induction cs arbitrary: st)
  case (Cons x xs)
  obtain es1 where x: "trace (sweep_call ghosts x st) = trace st @ es1"
    "lk_identity x \<noteq> [] \<and> lk_room x \<noteq> [] \<longrightarrow> RemoveParticipant (lk_room x) (lk_identity x) \<in> set es1"
    "ghosts (c_portal x) \<longrightarrow> RetractMembership (c_room x) (device_id_for (call_id x)) \<in> set es1"
    by (rule that [OF trace_sweep_call]) simp_all
  obtain es2 where "trace (foldl (\<lambda>s c. sweep_call ghosts c s) (sweep_call ghosts x st) xs)
      = trace (sweep_call ghosts x st) @ es2"
    "c \<in> set xs \<longrightarrow>
       (lk_identity c \<noteq> [] \<and> lk_room c \<noteq> [] \<longrightarrow> RemoveParticipant (lk_room c) (lk_identity c) \<in> set es2)
       \<and> (ghosts (c_portal c) \<longrightarrow> RetractMembership (c_room c) (device_id_for (call_id c)) \<in> set es2)"
    using Cons.IH [of "sweep_call ghosts x st"] by blast
  then show ?case
    using Cons.IH [of "sweep_call ghosts x st"] x by (intro conjI exI [of _ "es1 @ es2"]) auto
qed simp

text \<open>C15: A start that succeeds leaves no call of the last run in progress, and takes the participant
  and, where the ghost can be had, the membership of each of them back.\<close>

theorem start_sweeps_the_last_run:
  assumes "start_subsystem cfg upgrade_ok list_ok db now ghosts st = (st', True)" "cfg_enabled cfg"
    and "c \<in> set (calls st)" "c_state c \<noteq> Ended"
  shows "all_active (calls st') = []
    \<and> (RemoveParticipant (lk_room c) (lk_identity c) \<in> set (trace st') \<or> lk_identity c = [] \<or> lk_room c = [])
    \<and> (RetractMembership (c_room c) (device_id_for (call_id c)) \<in> set (trace st') \<or> \<not> ghosts (c_portal c))"
proof -
  let ?st1 = "st\<lparr>calls := fst (end_all now (calls st))\<rparr>"
  have st': "st' = foldl (\<lambda>s c. sweep_call ghosts c s) ?st1 (all_active (calls st))"
    using assms(1,2) by (auto simp: start_subsystem_def Let_def split: if_splits)
  have "c \<in> set (all_active (calls st))" using assms(3,4) by (auto simp: all_active_def)
  then obtain es where "calls st' = fst (end_all now (calls st))" "trace st' = trace ?st1 @ es"
    "lk_identity c \<noteq> [] \<and> lk_room c \<noteq> [] \<longrightarrow> RemoveParticipant (lk_room c) (lk_identity c) \<in> set es"
    "ghosts (c_portal c) \<longrightarrow> RetractMembership (c_room c) (device_id_for (call_id c)) \<in> set es"
    using sweep_all [of ghosts ?st1 "all_active (calls st)" c] st' by auto
  moreover have "all_active (fst (end_all now (calls st))) = []"
    by (auto simp: all_active_def end_all_def update_rows_def filter_empty_conv)
  ultimately show ?thesis by auto
qed

theorem start_sweeps_the_last_run_witness:
  "let st = fst (start_subsystem sample_config True True DbOk 9000000 (\<lambda>_. True) (fst answered_dial)) in
   all_active (calls st) = []
   \<and> RemoveParticipant (lk_room (hd (calls (fst answered_dial)))) (lk_identity (hd (calls (fst answered_dial)))) \<in> set (trace st)"
proof -
  let ?s = "start_subsystem sample_config True True DbOk 9000000 (\<lambda>_. True) (fst answered_dial)"
  let ?c = "hd (calls (fst answered_dial))"
  have s: "?s = (fst ?s, True)" by (simp add: start_subsystem_def sample_config_def)
  have e: "cfg_enabled sample_config" by (simp add: sample_config_def)
  have c: "?c \<in> set (calls (fst answered_dial))" "c_state ?c \<noteq> Ended" "lk_identity ?c \<noteq> []" "lk_room ?c \<noteq> []"
    by code_simp+
  from start_sweeps_the_last_run [OF s e c(1,2)] c(3,4) show ?thesis by (simp add: Let_def)
qed

subsection \<open>Two races of a call that ends\<close>

text \<open>A ringing call that ended is told to its leg or not, by which channel is read first: woken by
  the end, the leg is rejected with 480; woken by a join that is still buffered, the handler is
  done with the leg and has sent it nothing.\<close>

theorem ended_call_may_leave_the_leg_ringing:
  assumes "calls_ok (calls st)" "state_in (calls st) (call_id c) = Some Ended"
    and "ended st (call_id c) = Some True" "answered st (call_id c) = Some [joiner]"
  shows "snd (wait_for_matrix cfg [(id, WakeEnded False)] True c st)
      = ([LegReject 480 ''Temporarily Unavailable''], LegOver)
    \<and> snd (wait_for_matrix cfg [(id, WakeJoined env)] True c st) = ([], LegOver)"
proof -
  obtain t won c1 where a: "call_answer (an_now env) c joiner (calls st) = (t, won, c1)" by (metis prod_cases3)
  have o: "open_or_ended st (call_id c) Ringing" using assms(1,2) by (simp add: open_or_ended_def)
  have "\<not> won"
  proof
    assume "won"
    then obtain r where "r \<in> set (calls st)" "call_id r = call_id c" "c_state r = Ringing"
      using call_answer_table(2) [of "an_now env" c joiner "calls st"] a by auto
    then have "state_in (calls st) (call_id c) = Some Ringing"
      using by_call_id_Some [OF assms(1), of "call_id c" r] by (auto simp: state_in_def)
    then show False using assms(2) by simp
  qed
  then have t: "t = calls st" using answer_table_open [OF o a] by blast
  let ?st = "st\<lparr>answered := (answered st)(call_id c := Some [])\<rparr>"
  have "snd (answer_inbound cfg env c joiner ?st) = ([], AnswerOver)"
    using a t \<open>\<not> won\<close> assms(2) by (auto simp: answer_inbound_def Let_def state_in_def)
  then obtain st1 where "answer_inbound cfg env c joiner ?st = (st1, [], AnswerOver)"
    by (cases "answer_inbound cfg env c joiner ?st") auto
  then show ?thesis using assms(3,4) by (simp add: Let_def)
qed

definition left_after_joining :: subsys where
  "left_after_joining = fst (end_call sample_config sample_end ringing_call
     (signal_answer ''00ff'' ''@alice'' (waiters_for ''00ff'' ringing_subsys)))"

theorem ended_call_may_leave_the_leg_ringing_witness:
  "snd (wait_for_matrix sample_config [(id, WakeJoined sample_answer)] True ringing_call left_after_joining)
     = ([], LegOver)"
proof -
  have "calls_ok (calls left_after_joining)" "state_in (calls left_after_joining) (call_id ringing_call) = Some Ended"
    "ended left_after_joining (call_id ringing_call) = Some True"
    "answered left_after_joining (call_id ringing_call) = Some [''@alice'']" by code_simp+
  from ended_call_may_leave_the_leg_ringing [OF this] show ?thesis by blast
qed

text \<open>A call ended after it is announced and before the INVITE has no channel to close: the phone
  rings for a call whose row has ended, on a channel that nothing will close.\<close>

lemma ended_before_the_invite:
  assumes "open_or_ended st (call_id c) Ringing" "ended st (call_id c) = None" "e_db left = DbOk"
  shows "\<exists>s. ring_phone env (call_id c) uri conf caller (fst (end_call cfg left c st))
      = (d_meanwhile env s)\<lparr>ended := (ended (d_meanwhile env s))(call_id c := None)\<rparr>
    \<and> state_in (calls s) (call_id c) = Some Ended \<and> ended s (call_id c) = Some False
    \<and> last (trace s) = InviteSent uri conf caller"
proof -
  let ?e = "fst (end_call cfg left c st)"
  have "ended ?e (call_id c) = None" "state_in (calls ?e) (call_id c) = Some Ended"
    using ended_end_call_as [of cfg left c plain_end st "call_id c"] closed_fst [OF assms(1,3)] assms(2)
    by (auto simp: end_call_def)
  then show ?thesis
    by (intro exI [of _ "emit [InviteSent uri conf caller] (?e\<lparr>ended := (ended ?e)(call_id c := Some False)\<rparr>)"])
      (simp add: ring_phone_def Let_def)
qed

end
