(* ===== verification/Sip_Config.thy ===== *)
theory Sip_Config
  imports Prelude
begin

section \<open>The configuration of the SIP endpoint (\<open>pkg/siptransport/config.go\<close>, \<open>transport.go\<close>)\<close>

text \<open>
  Defaults, validation, and the addresses derived from the configuration.  \<open>net.SplitHostPort\<close>
  and \<open>strconv.Atoi\<close> are written out; whether a host is an IP literal and what a name resolves
  to are parameters.  Durations are \<open>int64\<close> nanoseconds.
\<close>

subsection \<open>Host and port\<close>

text \<open>The parts before and after the last byte \<open>d\<close>.\<close>

definition cut_last :: "char \<Rightarrow> string \<Rightarrow> (string \<times> string) option" where
  "cut_last d s =
     (if d \<notin> set s then None
      else let t = takeWhile (\<lambda>c. c \<noteq> d) (rev s) in Some (rev (drop (Suc (length t)) (rev s)), rev t))"

datatype addr_error = MissingPort | MissingBracket | TooManyColons | UnexpectedBracket | BadPort

definition split_addr :: "string \<Rightarrow> addr_error + string \<times> string" where
  "split_addr s =
     (case cut_last CHR '':'' s of
        None \<Rightarrow> Inl MissingPort
      | Some (h, p) \<Rightarrow>
          (let finish = (\<lambda>host j k.
                 if CHR ''['' \<in> set (drop j s) then Inl UnexpectedBracket
                 else if CHR '']'' \<in> set (drop k s) then Inl UnexpectedBracket
                 else Inr (host, p)) in
           if has_prefix s ''['' then
             (let e = length (takeWhile (\<lambda>c. c \<noteq> CHR '']'') s) in
              if e = length s then Inl MissingBracket
              else if e + 1 = length s then Inl MissingPort
              else if e + 1 = length h then finish (drop 1 (take e s)) 1 (e + 1)
              else if s ! (e + 1) = CHR '':'' then Inl TooManyColons else Inl MissingPort)
           else if CHR '':'' \<in> set h then Inl TooManyColons
           else finish h 0 0))"

definition split_host_port :: "string \<Rightarrow> addr_error + string \<times> int" where
  "split_host_port addr =
     (case split_addr addr of
        Inl e \<Rightarrow> Inl e
      | Inr (host, p) \<Rightarrow>
          (case atoi p of
             None \<Rightarrow> Inl BadPort
           | Some n \<Rightarrow> if n \<le> 0 \<or> n > 65535 then Inl BadPort else Inr (host, n)))"

subsection \<open>The configuration\<close>

record register_config =
  r_enabled :: bool
  r_server :: string
  r_password :: string
  r_expiry :: nanos

record sip_config =
  sc_listen :: string
  sc_transport :: string
  sc_public_address :: string
  sc_username :: string
  sc_domain :: string
  sc_register :: register_config
  sc_media_address :: string
  sc_media_port :: int
  sc_conference_header :: string
  sc_caller_header :: string
  sc_recipient_header :: string

definition or_else :: "string \<Rightarrow> string \<Rightarrow> string" where
  "or_else s d = (if s = [] then d else s)"

definition apply_defaults :: "sip_config \<Rightarrow> sip_config" where
  "apply_defaults c =
     (let listen = or_else (sc_listen c) ''0.0.0.0:5060'' in
      c\<lparr>sc_listen := listen,
        sc_transport := or_else (sc_transport c) ''tcp'',
        sc_public_address := or_else (sc_public_address c) listen,
        sc_username := or_else (sc_username c) ''matrix-sip-bridge'',
        sc_conference_header := or_else (sc_conference_header c) ''X-Conference'',
        sc_recipient_header := or_else (sc_recipient_header c) ''X-Matrix-Recipient'',
        sc_media_port := if sc_media_port c \<le> 0 then 40000 else sc_media_port c,
        sc_register := (sc_register c)\<lparr>r_expiry :=
          if r_expiry (sc_register c) \<le> 0 then 300000000000 else r_expiry (sc_register c)\<rparr>\<rparr>)"

datatype config_error =
    BadListen addr_error | BadPublicAddress addr_error | BadTransport | BadMediaPort | NoDomain
  | NoRegisterServer

text \<open>No rune outside ASCII is lower-cased to a letter of \<open>tcp\<close> or \<open>udp\<close>.\<close>

definition validate :: "sip_config \<Rightarrow> config_error option" where
  "validate c =
     (case split_host_port (sc_listen c) of
        Inl e \<Rightarrow> Some (BadListen e)
      | Inr _ \<Rightarrow>
          (case split_host_port (sc_public_address c) of
             Inl e \<Rightarrow> Some (BadPublicAddress e)
           | Inr _ \<Rightarrow>
               if map ascii_lower (sc_transport c) \<notin> {''tcp'', ''udp''} then Some BadTransport
               else if sc_media_port c \<le> 0 \<or> sc_media_port c > 65535 then Some BadMediaPort
               else if sc_domain c = [] then Some NoDomain
               else if r_enabled (sc_register c) \<and> r_server (sc_register c) = [] then Some NoRegisterServer
               else None))"

definition public_host_port :: "sip_config \<Rightarrow> string \<times> int" where
  "public_host_port c =
     (case split_host_port (sc_public_address c) of Inl _ \<Rightarrow> ([], 0) | Inr hp \<Rightarrow> hp)"

definition media_host :: "sip_config \<Rightarrow> string" where
  "media_host c =
     (if sc_media_address c \<noteq> [] then sc_media_address c else fst (public_host_port c))"

datatype transport_error = ConfigError config_error | NoMediaAddress | LookupError

text \<open>\<open>lookup\<close> gives the addresses of a name, each with whether it is an IPv4 one.\<close>

definition resolve_host :: "(string \<Rightarrow> bool) \<Rightarrow> (string \<Rightarrow> (bool \<times> string) list option) \<Rightarrow> string
    \<Rightarrow> transport_error + string" where
  "resolve_host is_ip lookup host =
     (if host = [] then Inl NoMediaAddress
      else if is_ip host then Inr host
      else case lookup host of
          None \<Rightarrow> Inl LookupError
        | Some ips \<Rightarrow>
            (case find fst ips of
               Some (_, v4) \<Rightarrow> Inr v4
             | None \<Rightarrow> (case ips of [] \<Rightarrow> Inl NoMediaAddress | (_, ip) # _ \<Rightarrow> Inr ip)))"

text \<open>What \<open>New\<close> makes of a configuration: the completed one and the address for SDP.\<close>

definition new_transport :: "(string \<Rightarrow> bool) \<Rightarrow> (string \<Rightarrow> (bool \<times> string) list option) \<Rightarrow> sip_config
    \<Rightarrow> transport_error + sip_config \<times> string" where
  "new_transport is_ip lookup cfg =
     (let c = apply_defaults cfg in
      case validate c of
        Some e \<Rightarrow> Inl (ConfigError e)
      | None \<Rightarrow>
          (case resolve_host is_ip lookup (media_host c) of Inl e \<Rightarrow> Inl e | Inr host \<Rightarrow> Inr (c, host)))"

subsection \<open>Registration\<close>

definition default_register_refresh :: nanos where
  "default_register_refresh = 150000000000"

definition register_refresh :: "sip_config \<Rightarrow> nanos" where
  "register_refresh c =
     (let r = r_expiry (sc_register c) div 2 in if r \<le> 0 then default_register_refresh else r)"

text \<open>The \<open>Expires\<close> header, in seconds.\<close>

definition expires_header :: "nanos \<Rightarrow> int" where
  "expires_header expiry = expiry div 1000000000"

end
