(* ===== verification/Sdp.thy ===== *)
theory Sdp
  imports Sip_Config
begin

section \<open>Session descriptions (\<open>pkg/siptransport/sdp.go\<close>)\<close>

text \<open>
  The offers and answers the bridge writes, byte for byte, and the reader it applies to the
  offers it gets.  The lemmas show that the reader reads back what the writer wrote.
\<close>

definition payload_pcmu :: string where "payload_pcmu = ''0''"
definition payload_pcma :: string where "payload_pcma = ''8''"

definition crlf :: string where "crlf = [CHR 0x0D, CHR 0x0A]"

definition rtpmap_name :: "string \<Rightarrow> string" where
  "rtpmap_name pt = (if pt = payload_pcma then ''PCMA'' else ''PCMU'')"

subsection \<open>Reading an offer\<close>

definition sdp_lines :: "string \<Rightarrow> string list" where
  "sdp_lines sdp = split_on (CHR 0x0A) (replace_all sdp crlf [CHR 0x0A])"

definition offered_payloads :: "string \<Rightarrow> string list" where
  "offered_payloads sdp =
     (case find (\<lambda>l. has_prefix l ''m=audio '') (sdp_lines sdp) of
        None \<Rightarrow> []
      | Some l \<Rightarrow> (let fs = fields_of l in if length fs < 4 then [] else drop 3 fs))"

fun pick_from :: "bool \<Rightarrow> string list \<Rightarrow> string option" where
  "pick_from pcma [] = (if pcma then Some payload_pcma else None)"
| "pick_from pcma (pt # pts) =
     (if pt = payload_pcmu then Some payload_pcmu else pick_from (pcma \<or> pt = payload_pcma) pts)"

text \<open>\<open>None\<close> is \<open>ErrNoCommonCodec\<close>.\<close>

definition pick_payload :: "string list \<Rightarrow> string option" where
  "pick_payload offered = pick_from False offered"

subsection \<open>Writing a description\<close>

definition addr_type :: "string \<Rightarrow> string" where
  "addr_type host = (if CHR '':'' \<in> set host then ''IP6'' else ''IP4'')"

definition session_lines :: "int \<Rightarrow> string \<Rightarrow> int \<Rightarrow> string list \<Rightarrow> string list" where
  "session_lines now host port pts =
     [''v=0'',
      ''o=- '' @ show_int now @ '' '' @ show_int now @ '' IN '' @ addr_type host @ '' '' @ host,
      ''s=matrix-sip-bridge'',
      ''c=IN '' @ addr_type host @ '' '' @ host,
      ''t=0 0'',
      ''m=audio '' @ show_int port @ '' RTP/AVP '' @ join '' '' pts]
     @ map (\<lambda>pt. ''a=rtpmap:'' @ pt @ '' '' @ rtpmap_name pt @ ''/8000'') pts
     @ [''a=sendrecv'', ''a=ptime:20'']"

definition session_sdp :: "int \<Rightarrow> string \<Rightarrow> int \<Rightarrow> string list \<Rightarrow> string" where
  "session_sdp now host port pts = concat (map (\<lambda>l. l @ crlf) (session_lines now host port pts))"

definition answer_sdp :: "int \<Rightarrow> string \<Rightarrow> string \<Rightarrow> int \<Rightarrow> string option" where
  "answer_sdp now offer host port =
     (case pick_payload (offered_payloads offer) of
        None \<Rightarrow> None | Some pt \<Rightarrow> Some (session_sdp now host port [pt]))"

definition offer_sdp :: "int \<Rightarrow> string \<Rightarrow> int \<Rightarrow> string" where
  "offer_sdp now host port = session_sdp now host port [payload_pcmu, payload_pcma]"

subsection \<open>Reading back\<close>

definition one_line :: "string \<Rightarrow> bool" where
  "one_line l = (CHR 0x0D \<notin> set l \<and> CHR 0x0A \<notin> set l)"

lemma replace_crlf:
  "CHR 0x0D \<notin> set l \<Longrightarrow> replace_from 0 (l @ crlf @ s) crlf [CHR 0x0A] = l @ CHR 0x0A # replace_from 0 s crlf [CHR 0x0A]"
  by (induction l) (auto simp: crlf_def)

lemma split_on_line: "d \<notin> set l \<Longrightarrow> split_on d (l @ d # s) = l # split_on d s"
  by (induction l) auto

lemma sdp_lines_concat: "list_all one_line ls \<Longrightarrow> sdp_lines (concat (map (\<lambda>l. l @ crlf) ls)) = ls @ [[]]"
  unfolding sdp_lines_def replace_all_def
proof (induction ls)
  case (Cons l ls)
  then show ?case using replace_crlf [of l "concat (map (\<lambda>l. l @ crlf) ls)"]
    by (simp add: one_line_def split_on_line)
qed simp

lemma one_line_append [simp]: "one_line (a @ b) = (one_line a \<and> one_line b)"
  by (auto simp: one_line_def)

lemma one_line_literal [simp]: "one_line []" "one_line (c # cs) = (c \<noteq> CHR 0x0D \<and> c \<noteq> CHR 0x0A \<and> one_line cs)"
  by (auto simp: one_line_def)

lemma digits_one_line: "list_all is_digit s \<Longrightarrow> one_line s"
  by (induction s) (auto simp: is_digit_def)

lemma one_line_show_int [simp]: "one_line (show_int x)"
  using dec_digits by (simp add: show_int_def digits_one_line)

lemma word_show_int: "word (show_int x)"
proof -
  have "set s \<inter> space_bytes = {}" if "list_all is_digit s" for s
    using that by (auto simp: list_all_iff is_digit_def space_bytes_def space_runes_def)
  then have "set (dec n) \<inter> space_bytes = {}" for n using dec_digits by blast
  then show ?thesis using dec_digits by (simp add: show_int_def word_def space_bytes_def space_runes_def)
qed

lemma one_line_join: "list_all one_line pts \<Longrightarrow> one_line (join '' '' pts)"
proof (induction pts)
  case (Cons p pts)
  then show ?case by (cases pts) simp_all
qed simp

definition payloads_ok :: "string list \<Rightarrow> bool" where
  "payloads_ok pts = (pts \<noteq> [] \<and> set pts \<subseteq> {payload_pcmu, payload_pcma})"

lemma session_one_line:
  assumes "one_line host" "payloads_ok pts" shows "list_all one_line (session_lines now host port pts)"
proof -
  have "list_all one_line pts" using assms(2) by (auto simp: payloads_ok_def list_all_iff payload_pcmu_def payload_pcma_def)
  then show ?thesis using assms(1) one_line_join [of pts]
    by (auto simp: session_lines_def addr_type_def rtpmap_name_def list_all_iff)
qed

lemma offered_session:
  assumes "one_line host" "payloads_ok pts"
  shows "offered_payloads (session_sdp now host port pts) = pts"
proof -
  have w: "list_all word ([''m=audio'', show_int port, ''RTP/AVP''] @ pts)"
    using assms(2) word_show_int
    by (auto simp: payloads_ok_def list_all_iff payload_pcmu_def payload_pcma_def word_def space_bytes_def space_runes_def)
  obtain p ps where "pts = p # ps" using assms(2) by (cases pts) (auto simp: payloads_ok_def)
  then have m: "''m=audio '' @ show_int port @ '' RTP/AVP '' @ join '' '' pts
      = join '' '' ([''m=audio'', show_int port, ''RTP/AVP''] @ pts)" by simp
  have "find (\<lambda>l. has_prefix l ''m=audio '') (session_lines now host port pts @ [[]])
      = Some (''m=audio '' @ show_int port @ '' RTP/AVP '' @ join '' '' pts)"
    by (simp add: session_lines_def)
  then show ?thesis
    using fields_join [OF w] assms(2) unfolding m
    by (simp add: offered_payloads_def session_sdp_def sdp_lines_concat [OF session_one_line [OF assms]]
        payloads_ok_def Let_def)
qed

lemma pick_from_Some:
  "pick_from b pts = Some pt \<longleftrightarrow>
     (payload_pcmu \<in> set pts \<and> pt = payload_pcmu)
     \<or> (payload_pcmu \<notin> set pts \<and> (b \<or> payload_pcma \<in> set pts) \<and> pt = payload_pcma)"
  by (induction b pts rule: pick_from.induct) auto

lemma pick_from_None: "pick_from b pts = None \<longleftrightarrow> \<not> b \<and> payload_pcmu \<notin> set pts \<and> payload_pcma \<notin> set pts"
  by (induction b pts rule: pick_from.induct) auto

lemma pick_payload_Some:
  "pick_payload pts = Some pt \<longleftrightarrow>
     pt \<in> set pts \<and> (pt = payload_pcmu \<or> pt = payload_pcma \<and> payload_pcmu \<notin> set pts)"
  unfolding pick_payload_def pick_from_Some by auto

subsection \<open>Properties\<close>

text \<open>C34: An answer names exactly one codec, one the offer had, PCMU if it had that, and the bridge's
  own reader reads it back; it is the only error that the offer had neither; and the offer
  the bridge sends is one it would answer.\<close>

theorem answer_reads_back:
  assumes "one_line host"
  shows "(case answer_sdp now offer host port of
       None \<Rightarrow> set (offered_payloads offer) \<inter> {payload_pcmu, payload_pcma} = {}
     | Some sdp \<Rightarrow> \<exists>pt. offered_payloads sdp = [pt] \<and> pt \<in> set (offered_payloads offer)
         \<and> (pt = payload_pcmu \<or> pt = payload_pcma \<and> payload_pcmu \<notin> set (offered_payloads offer)))
    \<and> answer_sdp now (offer_sdp now host port) host' port' = Some (session_sdp now host' port' [payload_pcmu])"
proof -
  have own: "offered_payloads (offer_sdp now host port) = [payload_pcmu, payload_pcma]"
    unfolding offer_sdp_def by (rule offered_session [OF assms]) (simp add: payloads_ok_def)
  have reads: "offered_payloads (session_sdp now host port [pt]) = [pt]" if "pick_payload (offered_payloads offer) = Some pt" for pt
    using that by (intro offered_session [OF assms]) (auto simp: pick_payload_Some payloads_ok_def)
  show ?thesis
  proof (cases "pick_payload (offered_payloads offer)")
    case None
    then have "set (offered_payloads offer) \<inter> {payload_pcmu, payload_pcma} = {}"
      unfolding pick_payload_def pick_from_None by auto
    then show ?thesis using None own by (simp add: answer_sdp_def pick_payload_def)
  next
    case (Some pt)
    then show ?thesis using own reads [OF Some] Some [unfolded pick_payload_Some]
      by (auto simp: answer_sdp_def pick_payload_def)
  qed
qed

definition asterisk_offer :: string where
  "asterisk_offer = concat (map (\<lambda>l. l @ crlf)
     [''v=0'', ''o=root 1 1 IN IP4 192.0.2.9'', ''s=Asterisk'', ''c=IN IP4 192.0.2.9'', ''t=0 0'',
      ''m=audio 14000 RTP/AVP 8 101'', ''a=rtpmap:8 PCMA/8000''])"

theorem answer_reads_back_witness:
  "(\<exists>sdp. answer_sdp 1700000000 asterisk_offer ''192.0.2.1'' 40000 = Some sdp \<and> offered_payloads sdp = [''8''])"
proof -
  have p: "offered_payloads asterisk_offer = [''8'', ''101'']" by code_simp
  then have "answer_sdp 1700000000 asterisk_offer ''192.0.2.1'' 40000 = Some (session_sdp 1700000000 ''192.0.2.1'' 40000 [''8''])"
    by (simp add: answer_sdp_def pick_payload_def payload_pcmu_def payload_pcma_def)
  moreover have "one_line ''192.0.2.1''" by simp
  ultimately show ?thesis
    using answer_reads_back [where host = "''192.0.2.1''" and offer = asterisk_offer and now = 1700000000 and port = 40000] p
    by (auto simp: payload_pcmu_def payload_pcma_def)
qed

text \<open>With nothing but a domain configured the endpoint starts, and the address it puts into its
  descriptions is the wildcard it listens on, which reads as hold at the far end.\<close>

theorem default_media_address_is_hold:
  assumes "sc_listen cfg = []" "sc_public_address cfg = []" "sc_media_address cfg = []"
    and "validate (apply_defaults cfg) = None" "is_ip ''0.0.0.0''"
  shows "new_transport is_ip lookup cfg = Inr (apply_defaults cfg, ''0.0.0.0'')
    \<and> ''c=IN IP4 0.0.0.0'' \<in> set (sdp_lines (offer_sdp now ''0.0.0.0'' port))"
proof -
  have "split_host_port ''0.0.0.0:5060'' = Inr (''0.0.0.0'', 5060)" by code_simp
  then have "media_host (apply_defaults cfg) = ''0.0.0.0''"
    using assms(1-3) by (simp add: apply_defaults_def Let_def media_host_def public_host_port_def or_else_def)
  then have n: "new_transport is_ip lookup cfg = Inr (apply_defaults cfg, ''0.0.0.0'')"
    using assms(4,5) by (simp add: new_transport_def Let_def resolve_host_def)
  have "one_line ''0.0.0.0''" by simp
  moreover have "payloads_ok [payload_pcmu, payload_pcma]" by (simp add: payloads_ok_def)
  ultimately have "sdp_lines (offer_sdp now ''0.0.0.0'' port)
      = session_lines now ''0.0.0.0'' port [payload_pcmu, payload_pcma] @ [[]]"
    by (simp add: offer_sdp_def session_sdp_def sdp_lines_concat session_one_line)
  then show ?thesis using n by (simp add: session_lines_def addr_type_def)
qed

definition domain_only :: sip_config where
  "domain_only =
     \<lparr>sc_listen = [], sc_transport = [], sc_public_address = [], sc_username = [], sc_domain = ''example.com'',
      sc_register = \<lparr>r_enabled = False, r_server = [], r_password = [], r_expiry = 0\<rparr>, sc_media_address = [],
      sc_media_port = 0, sc_conference_header = [], sc_caller_header = [], sc_recipient_header = []\<rparr>"

theorem default_media_address_is_hold_witness:
  "new_transport (\<lambda>_. True) (\<lambda>_. None) domain_only = Inr (apply_defaults domain_only, ''0.0.0.0'')"
proof -
  have "validate (apply_defaults domain_only) = None" by code_simp
  then show ?thesis
    using default_media_address_is_hold [of domain_only "\<lambda>_. True" "\<lambda>_. None"] by (simp add: domain_only_def)
qed

end
