(* ===== verification/Sip_Leg.thy ===== *)
theory Sip_Leg
  imports Sdp
begin

section \<open>The life of a control leg (\<open>pkg/siptransport/call.go\<close>)\<close>

text \<open>
  An inbound leg: the responses its methods send, and its release.  \<open>finish\<close> is called by the
  handler when it returns, by \<open>Reject\<close>, and by the dialog when it ends, on different
  goroutines; it is cut after its locked section and between the steps behind it, and a list
  says where the goroutines that went through the locked section stand.
\<close>

datatype leg_response = Provisional180 | Final200 string | FinalFailure int string

subsection \<open>Methods\<close>

definition is_missing_ack :: "string \<Rightarrow> bool" where
  "is_missing_ack err = (split_at_sub err ''No ACK received'' \<noteq> None)"

text \<open>\<open>Answer\<close>: the response, whether it releases the leg, and whether it succeeds.  \<open>sent\<close> is the
  error of sending the 200, if any.\<close>

definition leg_answer :: "int \<Rightarrow> string \<Rightarrow> int \<Rightarrow> string \<Rightarrow> string option \<Rightarrow> leg_response \<times> bool \<times> bool" where
  "leg_answer now host port offer sent =
     (if offer = [] then (FinalFailure 488 ''Not Acceptable Here'', True, False)
      else case answer_sdp now offer host port of
          None \<Rightarrow> (FinalFailure 488 ''Not Acceptable Here'', True, False)
        | Some sdp \<Rightarrow>
            (Final200 sdp, False, (case sent of None \<Rightarrow> True | Some e \<Rightarrow> is_missing_ack e)))"

text \<open>\<open>Reject\<close> releases the leg whether or not its response could be sent.\<close>

definition leg_reject :: "int \<Rightarrow> string \<Rightarrow> leg_response \<times> bool" where
  "leg_reject code reason = (FinalFailure code reason, True)"

definition handle_invite :: "bool \<Rightarrow> bool \<Rightarrow> leg_response list \<Rightarrow> leg_response list \<times> bool" where
  "handle_invite has_handler read_ok handler =
     (if \<not> has_handler then ([FinalFailure 503 ''Service Unavailable''], False)
      else if \<not> read_ok then ([FinalFailure 400 ''Bad Request''], False)
      else (handler, True))"

subsection \<open>Outbound legs\<close>

text \<open>The headers \<open>sipTelephony.Invite\<close> hands over: a Go map, so a caller header of the same name
  replaces the conference.\<close>

definition invite_headers :: "string \<Rightarrow> string \<Rightarrow> string \<Rightarrow> string \<Rightarrow> string \<rightharpoonup> string" where
  "invite_headers conference_header caller_header conf caller =
     (if caller_header \<noteq> [] \<and> caller \<noteq> []
      then [conference_header \<mapsto> conf, caller_header \<mapsto> caller] else [conference_header \<mapsto> conf])"

record invite_request =
  iv_to :: string
  iv_from :: string
  iv_headers :: "string \<rightharpoonup> string"
  iv_body :: string
  iv_dest :: string

datatype invite_error = BadTarget | InviteNotSent | InviteNotAnswered | AckNotSent

text \<open>What the SIP stack answers: whether the INVITE could be written, was answered, with
  credentials if challenged, and acknowledged.\<close>

record invite_answers =
  ia_sent :: bool
  ia_answered :: bool
  ia_acked :: bool

text \<open>\<open>Invite\<close>: the request written, whether the leg was released again, and the outcome.\<close>

definition place_invite :: "(string \<Rightarrow> bool) \<Rightarrow> int \<Rightarrow> sip_config \<Rightarrow> string \<Rightarrow> invite_answers \<Rightarrow> string
    \<Rightarrow> (string \<rightharpoonup> string) \<Rightarrow> invite_request option \<times> bool \<times> invite_error option" where
  "place_invite uri_ok now cfg host a to headers =
     (if \<not> uri_ok to then (None, False, Some BadTarget)
      else
        let req = \<lparr>iv_to = to, iv_from = sc_username cfg @ ''@'' @ sc_domain cfg, iv_headers = headers,
                   iv_body = offer_sdp now host (sc_media_port cfg), iv_dest = r_server (sc_register cfg)\<rparr> in
        if \<not> ia_sent a then (Some req, False, Some InviteNotSent)
        else if \<not> ia_answered a then (Some req, True, Some InviteNotAnswered)
        else if \<not> ia_acked a then (Some req, True, Some AckNotSent)
        else (Some req, False, None))"

text \<open>The leg it returns: \<open>finish\<close> runs its body under a \<open>sync.Once\<close>, called by \<open>Hangup\<close> and by the dialog's
  end; \<open>oc_byes\<close> counts the BYEs written.\<close>

record outbound_call =
  oc_once :: bool
  oc_dlg_closes :: nat
  oc_done_closes :: nat
  oc_byes :: nat

definition new_outbound_call :: outbound_call where
  "new_outbound_call = \<lparr>oc_once = False, oc_dlg_closes = 0, oc_done_closes = 0, oc_byes = 0\<rparr>"

definition outbound_finish :: "outbound_call \<Rightarrow> outbound_call" where
  "outbound_finish c =
     (if oc_once c then c
      else c\<lparr>oc_once := True, oc_dlg_closes := oc_dlg_closes c + 1, oc_done_closes := oc_done_closes c + 1\<rparr>)"

definition outbound_hangup :: "outbound_call \<Rightarrow> outbound_call" where
  "outbound_hangup c = outbound_finish (c\<lparr>oc_byes := oc_byes c + 1\<rparr>)"

text \<open>Both kinds of leg are released by whoever comes first, once.\<close>

locale released_once =
  fixes over :: "'s \<Rightarrow> bool" and releases :: "'s \<Rightarrow> nat" and release :: "'s \<Rightarrow> 's"
  assumes first: "\<not> over s \<Longrightarrow> over (release s) \<and> releases (release s) = Suc (releases s)"
    and again: "over s \<Longrightarrow> release s = s"
begin

text \<open>A sequence of operations of which some release and the others touch neither.\<close>

lemma over_stays:
  assumes "over s" "\<And>f s. f \<in> set fs \<Longrightarrow> over (f s) = over s \<and> releases (f s) = releases s \<or> f s = release s"
  shows "over (foldl (\<lambda>s f. f s) s fs) \<and> releases (foldl (\<lambda>s f. f s) s fs) = releases s"
  using assms
proof (induction fs arbitrary: s)
  case (Cons f fs)
  have "over (f s) \<and> releases (f s) = releases s" using Cons.prems again [of s] by (metis list.set_intros(1))
  then show ?case using Cons.IH [of "f s"] Cons.prems(2) by simp
qed simp

lemma at_most_once:
  assumes "\<not> over s" "\<And>f s. f \<in> set fs \<Longrightarrow> over (f s) = over s \<and> releases (f s) = releases s \<or> f s = release s"
  shows "releases (foldl (\<lambda>s f. f s) s fs) = releases s + (if over (foldl (\<lambda>s f. f s) s fs) then 1 else 0)"
  using assms
proof (induction fs arbitrary: s)
  case (Cons f fs)
  show ?case
  proof (cases "over (f s)")
    case True
    then have "f s = release s" using Cons.prems by (metis list.set_intros(1))
    then show ?thesis using over_stays [of "f s" fs] Cons.prems first [of s] True by simp
  next
    case False
    then have "releases (f s) = releases s" using Cons.prems first [of s] by (metis list.set_intros(1))
    then show ?thesis using Cons.IH [of "f s"] Cons.prems(2) False by simp
  qed
qed simp

end

interpretation outbound: released_once oc_once oc_done_closes outbound_finish
  by unfold_locales (simp_all add: outbound_finish_def)

definition write_bye :: "outbound_call \<Rightarrow> outbound_call" where
  "write_bye c = c\<lparr>oc_byes := oc_byes c + 1\<rparr>"

lemma hangup_steps: "outbound_hangup c = outbound_finish (write_bye c)"
  by (simp add: outbound_hangup_def write_bye_def)

text \<open>However hangups and the end of the dialog interleave, \<open>Done\<close> is closed once, so it never panics.\<close>

lemma outbound_released_once:
  assumes "set fs \<subseteq> {write_bye, outbound_finish}"
  shows "oc_done_closes (foldl (\<lambda>s f. f s) new_outbound_call fs) = (if oc_once (foldl (\<lambda>s f. f s) new_outbound_call fs) then 1 else 0)"
  using outbound.at_most_once [of new_outbound_call fs] assms
  by (fastforce simp: new_outbound_call_def write_bye_def)

text \<open>A BYE, answered here only if it belongs to no dialog.\<close>

definition handle_bye :: "bool \<Rightarrow> leg_response option" where
  "handle_bye matched = (if matched then None else Some (FinalFailure 481 ''Call/Transaction Does Not Exist''))"

subsection \<open>Release\<close>

datatype finish_stage = Closed | CtxCancelled | DialogClosed | DoneClosed

text \<open>\<open>done_closes\<close> counts the calls of \<open>close(c.done)\<close>, of which a second one panics.\<close>

record leg_state =
  leg_closed :: bool
  finishers :: "finish_stage list"
  ctx_done :: bool
  dlg_closes :: nat
  done_closes :: nat

definition new_leg :: leg_state where
  "new_leg = \<lparr>leg_closed = False, finishers = [], ctx_done = False, dlg_closes = 0, done_closes = 0\<rparr>"

definition finished :: "leg_state \<Rightarrow> bool" where
  "finished st = leg_closed st"

text \<open>The locked section of \<open>finish\<close>.\<close>

definition finish_lock :: "leg_state \<Rightarrow> leg_state" where
  "finish_lock st =
     (if leg_closed st then st else st\<lparr>leg_closed := True, finishers := finishers st @ [Closed]\<rparr>)"

interpretation inbound: released_once leg_closed "\<lambda>st. length (finishers st)" finish_lock
  by unfold_locales (simp_all add: finish_lock_def)

text \<open>The next step of goroutine \<open>i\<close> behind it.\<close>

definition finish_next :: "nat \<Rightarrow> leg_state \<Rightarrow> leg_state option" where
  "finish_next i st =
     (if i \<ge> length (finishers st) then None
      else case finishers st ! i of
          Closed \<Rightarrow> Some (st\<lparr>finishers := (finishers st)[i := CtxCancelled], ctx_done := True\<rparr>)
        | CtxCancelled \<Rightarrow> Some (st\<lparr>finishers := (finishers st)[i := DialogClosed], dlg_closes := dlg_closes st + 1\<rparr>)
        | DialogClosed \<Rightarrow> Some (st\<lparr>finishers := (finishers st)[i := DoneClosed], done_closes := done_closes st + 1\<rparr>)
        | DoneClosed \<Rightarrow> None)"

inductive leg_reachable :: "leg_state \<Rightarrow> bool" where
  new: "leg_reachable new_leg"
| lock: "leg_reachable st \<Longrightarrow> leg_reachable (finish_lock st)"
| advance: "leg_reachable st \<Longrightarrow> finish_next i st = Some st' \<Longrightarrow> leg_reachable st'"

text \<open>What one goroutine has done when it stands at a stage.\<close>

fun stage_effects :: "finish_stage \<Rightarrow> bool \<times> nat \<times> nat" where
  "stage_effects Closed = (False, 0, 0)"
| "stage_effects CtxCancelled = (True, 0, 0)"
| "stage_effects DialogClosed = (True, 1, 0)"
| "stage_effects DoneClosed = (True, 1, 1)"

definition leg_inv :: "leg_state \<Rightarrow> bool" where
  "leg_inv st =
     (case finishers st of
        [] \<Rightarrow> \<not> leg_closed st \<and> (ctx_done st, dlg_closes st, done_closes st) = (False, 0, 0)
      | [s] \<Rightarrow> leg_closed st \<and> (ctx_done st, dlg_closes st, done_closes st) = stage_effects s
      | _ \<Rightarrow> False)"

lemma leg_inv_cases:
  "leg_inv st \<longleftrightarrow>
     (\<not> leg_closed st \<and> finishers st = [] \<and> \<not> ctx_done st \<and> dlg_closes st = 0 \<and> done_closes st = 0)
     \<or> (leg_closed st \<and> (\<exists>s. finishers st = [s] \<and> (ctx_done st, dlg_closes st, done_closes st) = stage_effects s))"
  by (auto simp: leg_inv_def split: list.splits)

lemma leg_inv_reachable: "leg_reachable st \<Longrightarrow> leg_inv st"
proof (induction rule: leg_reachable.induct)
  case new
  then show ?case by (simp add: leg_inv_def new_leg_def)
next
  case (lock st)
  then show ?case by (auto simp: leg_inv_cases finish_lock_def)
next
  case (advance st i st')
  then obtain s where s: "finishers st = [s]" "leg_closed st"
    "(ctx_done st, dlg_closes st, done_closes st) = stage_effects s" "i = 0"
    by (auto simp: leg_inv_cases finish_next_def split: if_splits)
  then show ?case using advance.hyps by (cases s) (auto simp: leg_inv_def finish_next_def)
qed

text \<open>C17: However many goroutines release a leg at once, its dialog is closed and its \<open>Done\<close> channel
  closed at most once, so it never panics; \<open>Finished\<close> is true before the leg's context is
  cancelled and that before \<open>Done\<close> closes; and a release that has begun can go on to the end.\<close>

theorem leg_released_once:
  assumes "leg_reachable st"
  shows "done_closes st \<le> dlg_closes st \<and> dlg_closes st \<le> (if ctx_done st then 1 else 0)
    \<and> (finished st \<or> \<not> ctx_done st)
    \<and> (done_closes st = 1 \<or> \<not> finished st \<or> (\<exists>i st'. finish_next i st = Some st' \<and> leg_reachable st'))"
proof -
  note inv = leg_inv_reachable [OF assms]
  have "\<exists>i st'. finish_next i st = Some st'" if f: "finished st" and n: "done_closes st \<noteq> 1"
  proof -
    obtain s where "finishers st = [s]" "(ctx_done st, dlg_closes st, done_closes st) = stage_effects s"
      using inv f by (auto simp: leg_inv_cases finished_def)
    then have "\<exists>st'. finish_next 0 st = Some st'" using n by (cases s) (auto simp: finish_next_def)
    then show ?thesis by blast
  qed
  moreover have "done_closes st \<le> dlg_closes st \<and> dlg_closes st \<le> (if ctx_done st then 1 else 0) \<and> (finished st \<or> \<not> ctx_done st)"
    using inv unfolding leg_inv_cases
  proof
    assume "leg_closed st \<and> (\<exists>s. finishers st = [s] \<and> (ctx_done st, dlg_closes st, done_closes st) = stage_effects s)"
    then obtain s where "leg_closed st" "(ctx_done st, dlg_closes st, done_closes st) = stage_effects s" by blast
    then show ?thesis by (cases s) (auto simp: finished_def)
  qed (simp add: finished_def)
  ultimately show ?thesis using leg_reachable.advance [OF assms] by blast
qed

text \<open>Two goroutines release the leg, the first to get the lock going through.\<close>

definition released_leg :: leg_state where
  "released_leg = (case finish_next 0 (finish_lock (finish_lock new_leg)) of
     Some st \<Rightarrow> (case finish_next 0 st of Some st' \<Rightarrow> st' | None \<Rightarrow> st) | None \<Rightarrow> new_leg)"

theorem leg_released_once_witness:
  "finished released_leg \<and> dlg_closes released_leg = 1
   \<and> (\<exists>i st'. finish_next i released_leg = Some st' \<and> leg_reachable st')"
proof -
  have "leg_reachable (finish_lock (finish_lock new_leg))" by (intro leg_reachable.intros)
  moreover obtain s1 s2 where s: "finish_next 0 (finish_lock (finish_lock new_leg)) = Some s1" "finish_next 0 s1 = Some s2"
    "released_leg = s2"
    by (simp add: released_leg_def finish_next_def finish_lock_def new_leg_def)
  ultimately have r: "leg_reachable released_leg" by (auto intro: leg_reachable.advance)
  have "finished released_leg" "dlg_closes released_leg = 1" "done_closes released_leg = 0" by code_simp+
  with leg_released_once [OF r] show ?thesis by auto
qed

end
