(* ===== verification/Bridge_Health.thy ===== *)
theory Bridge_Health
  imports Call_Record
begin

section \<open>The state shown to the logins (\<open>pkg/connector/health.go\<close>, \<open>connector.go\<close>, \<open>readiness.go\<close>)\<close>

text \<open>
  \<open>callHealth\<close> turns two facts, whether the SIP endpoint is usable and what the last trunk
  reconcile said, into one bridge state, and reports it when it changes.  The hub is the
  connector with its logins and what each was last told.
\<close>

datatype state_event = EventNone | EventConnected | EventTransientDisconnect

record bridge_state =
  bs_event :: state_event
  bs_error :: string
  bs_message :: string

text \<open>The zero value \<open>status.BridgeState{}\<close>.\<close>

definition no_state :: bridge_state where
  "no_state = \<lparr>bs_event = EventNone, bs_error = [], bs_message = []\<rparr>"

record call_health =
  h_notices :: notice_config
  sip_down :: bool
  trunk_err :: string
  last_state :: bridge_state
  reported :: bool

definition new_call_health :: "notice_config \<Rightarrow> call_health" where
  "new_call_health n =
     \<lparr>h_notices = n, sip_down = False, trunk_err = [], last_state = no_state, reported = False\<rparr>"

definition health_state :: "call_health \<Rightarrow> bridge_state" where
  "health_state h =
     (if sip_down h \<and> on_unless_set (n_sip_down (h_notices h)) then
        \<lparr>bs_event = EventTransientDisconnect, bs_error = ''sip-not-registered'',
         bs_message = ''The SIP endpoint is not listening or not registered; no call can be bridged''\<rparr>
      else if trunk_err h \<noteq> [] \<and> on_unless_set (n_trunk_missing (h_notices h)) then
        \<lparr>bs_event = EventTransientDisconnect, bs_error = ''livekit-trunk-unavailable'',
         bs_message = ''The LiveKit outbound trunk is unusable: '' @ trunk_err h\<rparr>
      else \<lparr>bs_event = EventConnected, bs_error = [], bs_message = []\<rparr>)"

definition health_changed :: "call_health \<Rightarrow> call_health \<times> bridge_state \<times> bool" where
  "health_changed h =
     (let state = health_state h in
      if reported h \<and> state = last_state h then (h, no_state, False)
      else (h\<lparr>last_state := state, reported := True\<rparr>, state, True))"

definition health_sip :: "bool \<Rightarrow> call_health \<Rightarrow> call_health \<times> bridge_state \<times> bool" where
  "health_sip ready h = health_changed (h\<lparr>sip_down := \<not> ready\<rparr>)"

text \<open>\<open>err\<close> is the text of the error, \<open>None\<close> for success.\<close>

definition health_trunk :: "string option \<Rightarrow> call_health \<Rightarrow> call_health \<times> bridge_state \<times> bool" where
  "health_trunk err h =
     health_changed (h\<lparr>trunk_err := (case err of None \<Rightarrow> [] | Some e \<Rightarrow> e)\<rparr>)"

subsection \<open>The connector\<close>

record hub =
  health :: call_health
  logins :: "string list"
  told :: "string \<Rightarrow> bridge_state list"

definition new_hub :: "notice_config \<Rightarrow> string list \<Rightarrow> hub" where
  "new_hub n us = \<lparr>health = new_call_health n, logins = us, told = (\<lambda>_. [])\<rparr>"

definition send_state :: "string \<Rightarrow> bridge_state \<Rightarrow> hub \<Rightarrow> hub" where
  "send_state u s hb = hb\<lparr>told := (told hb)(u := told hb u @ [s])\<rparr>"

definition report :: "bridge_state \<Rightarrow> bool \<Rightarrow> hub \<Rightarrow> hub" where
  "report s is_change hb = (if \<not> is_change then hb else foldl (\<lambda>b u. send_state u s b) hb (logins hb))"

text \<open>A tick of \<open>watchSIPHealth\<close>, a trunk reconcile, and a login's \<open>Connect\<close>, which is called for
  the logins of the database at the start and for a new one when it is made.\<close>

definition sip_tick :: "bool \<Rightarrow> hub \<Rightarrow> hub" where
  "sip_tick ready hb =
     (case health_sip ready (health hb) of (h, s, c) \<Rightarrow> report s c (hb\<lparr>health := h\<rparr>))"

definition trunk_result :: "string option \<Rightarrow> hub \<Rightarrow> hub" where
  "trunk_result err hb =
     (case health_trunk err (health hb) of (h, s, c) \<Rightarrow> report s c (hb\<lparr>health := h\<rparr>))"

definition connect :: "string \<Rightarrow> bool \<Rightarrow> hub \<Rightarrow> hub" where
  "connect u ready hb =
     (case health_sip ready (health hb) of (h, s, _) \<Rightarrow> send_state u s (hb\<lparr>health := h\<rparr>))"

text \<open>\<open>readinessHandler\<close>: the status of one probe, and the latch.\<close>

definition probe :: "bool \<Rightarrow> bool \<Rightarrow> nat \<times> bool" where
  "probe latched ready = (if \<not> latched \<and> \<not> ready then (503, latched) else (200, True))"

subsection \<open>Properties\<close>

definition current :: "hub \<Rightarrow> string \<Rightarrow> bool" where
  "current hb u = (told hb u \<noteq> [] \<and> last (told hb u) = health_state (health hb))"

definition settled :: "hub \<Rightarrow> bool" where
  "settled hb = (reported (health hb) \<and> last_state (health hb) = health_state (health hb))"

lemma told_foldl:
  "distinct us \<Longrightarrow> told (foldl (\<lambda>b u. send_state u s b) hb us) u
     = (if u \<in> set us then told hb u @ [s] else told hb u)
   \<and> health (foldl (\<lambda>b u. send_state u s b) hb us) = health hb
   \<and> logins (foldl (\<lambda>b u. send_state u s b) hb us) = logins hb"
  by (induction us arbitrary: hb) (auto simp: send_state_def)

lemma health_changed_simps:
  "case health_changed h of (h', s, c) \<Rightarrow>
     health_state h' = health_state h \<and> reported h' \<and> last_state h' = health_state h
     \<and> (c \<longrightarrow> s = health_state h) \<and> (\<not> c \<longrightarrow> h' = h \<and> s = no_state \<and> last_state h = health_state h)"
  by (auto simp: health_changed_def Let_def health_state_def)

lemma step_report:
  assumes "health_changed h0 = (h, s, c)" "h0 = (health hb)\<lparr>sip_down := d\<rparr> \<or> h0 = (health hb)\<lparr>trunk_err := e\<rparr>"
    and "settled hb" "u \<in> set (logins hb)" "distinct (logins hb)" "current hb u"
  defines "hb' \<equiv> report s c (hb\<lparr>health := h\<rparr>)"
  shows "settled hb' \<and> current hb' u \<and> logins hb' = logins hb \<and> health_state (health hb') = health_state h0
    \<and> told hb' u = told hb u @ (if health_state h0 = health_state (health hb) then [] else [health_state h0])"
proof -
  have sl: "last_state h0 = health_state (health hb)" "reported h0" using assms(2,3) by (auto simp: settled_def)
  note H = health_changed_simps [of h0, unfolded assms(1) prod.case]
  have c: "c = (health_state h0 \<noteq> health_state (health hb))"
    using assms(1) sl by (auto simp: health_changed_def Let_def split: if_splits)
  note T = told_foldl [OF assms(5), of s "hb\<lparr>health := h\<rparr>" u]
  show ?thesis
    using H c T assms(4,6) sl unfolding hb'_def report_def settled_def current_def by auto
qed


text \<open>A login that connects while nothing has changed, the second of a start, say, or one made by a
  first text, is told the empty state in place of the one the facts imply; and one that
  connects just when something has changed takes the change away from all the others, whom no
  later tick tells.\<close>

theorem connect_misinforms:
  assumes "settled hb"
  shows "told (connect u (\<not> sip_down (health hb)) hb) u = told hb u @ [no_state]
    \<and> (let hb' = connect u ready hb in
       told (sip_tick ready hb') v = told hb' v \<and> (told hb' v = told hb v \<or> u = v)
       \<and> health_state (health hb') = health_state ((health hb)\<lparr>sip_down := \<not> ready\<rparr>))"
proof -
  have same: "(health hb)\<lparr>sip_down := sip_down (health hb)\<rparr> = health hb" by simp
  have 1: "told (connect u (\<not> sip_down (health hb)) hb) u = told hb u @ [no_state]"
    using assms by (simp add: connect_def health_sip_def same health_changed_def settled_def send_state_def)
  obtain h s c where a: "health_sip ready (health hb) = (h, s, c)" by (metis prod_cases3)
  note H = health_changed_simps [of "(health hb)\<lparr>sip_down := \<not> ready\<rparr>", folded health_sip_def, unfolded a prod.case]
  have sd: "sip_down h = (\<not> ready)"
    using a by (auto simp: health_sip_def health_changed_def Let_def split: if_splits)
  then have "h\<lparr>sip_down := \<not> ready\<rparr> = h" by simp
  then have "health_sip ready h = (h, no_state, False)"
    using H by (simp add: health_sip_def health_changed_def Let_def)
  then show ?thesis using 1 H
    by (simp add: connect_def a sip_tick_def send_state_def report_def Let_def)
qed

definition two_logins :: hub where
  "two_logins = connect ''@alice'' True
     (new_hub \<lparr>n_call_ended = None, n_call_failed = None, n_sip_down = None, n_trunk_missing = None\<rparr> [''@alice'', ''@bob''])"

theorem connect_misinforms_witness:
  "settled two_logins \<and> told (connect ''@bob'' True two_logins) ''@bob'' = [no_state]"
proof -
  have s: "settled two_logins" and d: "\<not> sip_down (health two_logins)" and t: "told two_logins ''@bob'' = []"
    by code_simp+
  show ?thesis using connect_misinforms [OF s, of "''@bob''"] s d t by simp
qed

definition one_login :: hub where
  "one_login = two_logins\<lparr>logins := [''@alice'']\<rparr>"


end
