(* ===== verification/Sip_Message.thy ===== *)
theory Sip_Message
  imports Sip_Config
begin

section \<open>Texts as SIP MESSAGEs (\<open>pkg/siptransport/message.go\<close>, \<open>transport.go\<close>)\<close>

text \<open>
  What the endpoint answers to an inbound MESSAGE, and what it sends for an outbound one, the
  digest retry included.  The handler of inbound texts, the URI parser, the digest and the
  serialised size of a request are parameters.  The second result of an operation is the list
  of counter labels it increments.
\<close>

datatype message_outcome =
    MsgBridged | MsgSpooled | MsgPersistFailed | MsgDroppedBadSender | MsgRefusedRecipient
  | MsgRejectedMediaType | MsgRejectedNoHandler | MsgSent | MsgRejected | MsgTooLong | MsgError

subsection \<open>Inbound\<close>

record sip_request =
  q_content_type :: "string option"
  q_from :: "string option"
  q_to :: "string option"
  q_header :: "string \<Rightarrow> string option"
  q_body :: string

record inbound_sip =
  w_from :: string
  w_to :: string
  w_body :: string
  w_recipient :: string

text \<open>What a handler returns: success, or an error, with the status of the \<open>RejectError\<close> in its
  chain if it has one.\<close>

datatype handler_result = HandlerOk | HandlerError "(int \<times> string) option"

definition header_value :: "sip_request \<Rightarrow> string \<Rightarrow> string" where
  "header_value req name =
     (if name = [] then [] else case q_header req name of None \<Rightarrow> [] | Some v \<Rightarrow> v)"

definition content_type_text :: string where
  "content_type_text = ''text/plain''"

text \<open>No rune outside ASCII folds to a letter of \<open>text/plain\<close>.\<close>

definition is_text_plain :: "string \<Rightarrow> bool" where
  "is_text_plain ct = equal_fold (trim_space (before_any ct '';'')) content_type_text"

definition message_of :: "sip_config \<Rightarrow> sip_request \<Rightarrow> inbound_sip" where
  "message_of cfg req =
     \<lparr>w_from = (case q_from req of None \<Rightarrow> [] | Some u \<Rightarrow> u),
      w_to = (case q_to req of None \<Rightarrow> [] | Some u \<Rightarrow> u),
      w_body = q_body req,
      w_recipient = trim_space (header_value req (sc_recipient_header cfg))\<rparr>"

definition error_status :: "(int \<times> string) option \<Rightarrow> int \<times> string" where
  "error_status reject =
     (case reject of
        Some (code, reason) \<Rightarrow>
          if 300 \<le> code \<and> code \<le> 699 then (code, reason) else (500, ''Server Internal Error'')
      | None \<Rightarrow> (500, ''Server Internal Error''))"

text \<open>\<open>handleMessage\<close>: the response, the labels counted here, and the state the handler leaves.\<close>

definition handle_message :: "sip_config \<Rightarrow> (inbound_sip \<Rightarrow> 's \<Rightarrow> handler_result \<times> message_outcome list \<times> 's) option
    \<Rightarrow> sip_request \<Rightarrow> 's \<Rightarrow> (int \<times> string) \<times> message_outcome list \<times> 's" where
  "handle_message cfg handler req st =
     (case handler of
        None \<Rightarrow> ((405, ''Method Not Allowed''), [MsgRejectedNoHandler], st)
      | Some h \<Rightarrow>
          (case q_content_type req of
             None \<Rightarrow> ((415, ''Unsupported Media Type''), [MsgRejectedMediaType], st)
           | Some ct \<Rightarrow>
               if \<not> is_text_plain ct
               then ((415, ''Unsupported Media Type''), [MsgRejectedMediaType], st)
               else (case h (message_of cfg req) st of
                   (HandlerOk, counted, st') \<Rightarrow> ((200, ''OK''), counted, st')
                 | (HandlerError reject, counted, st') \<Rightarrow> (error_status reject, counted, st'))))"

subsection \<open>Digest\<close>

record sip_reply =
  rp_status :: int
  rp_reason :: string
  rp_www :: "string option"
  rp_proxy :: "string option"

record out_request =
  o_method :: string
  o_to :: string
  o_from :: "string option"
  o_display :: string
  o_body :: string
  o_dest :: string
  o_auth :: "(string \<times> string) option"

definition is_challenge :: "sip_reply \<Rightarrow> bool" where
  "is_challenge r = (rp_status r = 401 \<or> rp_status r = 407)"

datatype auth_error = NoChallengeHeader | NoPassword | BadChallenge

text \<open>\<open>authorize\<close>: \<open>digest\<close> makes the credentials from the challenge, \<open>None\<close> on its errors.\<close>

definition authorize :: "(string \<Rightarrow> string option) \<Rightarrow> sip_config \<Rightarrow> out_request \<Rightarrow> sip_reply
    \<Rightarrow> auth_error + out_request" where
  "authorize digest cfg req challenge =
     (let proxied = (rp_status challenge = 407);
          h = (if proxied then rp_proxy challenge else rp_www challenge) in
      case h of
        None \<Rightarrow> Inl NoChallengeHeader
      | Some v \<Rightarrow>
          if r_password (sc_register cfg) = [] then Inl NoPassword
          else (case digest v of
              None \<Rightarrow> Inl BadChallenge
            | Some cred \<Rightarrow>
                Inr (req\<lparr>o_auth := Some (if proxied then ''Proxy-Authorization'' else ''Authorization'', cred)\<rparr>)))"

datatype send_error =
    BadDestination | BadSender | TooLong nat | NotAnswered | NotAuthorized auth_error | RejectedWith int

text \<open>\<open>doWithDigest\<close>: the requests written, and the reply.  \<open>peer\<close> answers a request, \<open>None\<close> being
  a transport error.\<close>

definition do_with_digest :: "(out_request \<Rightarrow> sip_reply option) \<Rightarrow> (string \<Rightarrow> string option) \<Rightarrow> sip_config
    \<Rightarrow> out_request \<Rightarrow> out_request list \<times> (send_error + sip_reply)" where
  "do_with_digest peer digest cfg req =
     (case peer req of
        None \<Rightarrow> ([req], Inl NotAnswered)
      | Some r \<Rightarrow>
          if \<not> is_challenge r then ([req], Inr r)
          else (case authorize digest cfg req r of
              Inl e \<Rightarrow> ([req], Inl (NotAuthorized e))
            | Inr authed \<Rightarrow>
                ([req, authed],
                 case peer authed of None \<Rightarrow> Inl NotAnswered | Some r' \<Rightarrow> Inr r')))"

text \<open>\<open>register\<close>: whether the endpoint is registered after it.\<close>

definition register :: "(out_request \<Rightarrow> sip_reply option) \<Rightarrow> (string \<Rightarrow> string option) \<Rightarrow> sip_config \<Rightarrow> bool" where
  "register peer digest cfg =
     (case snd (do_with_digest peer digest cfg
             \<lparr>o_method = ''REGISTER'', o_to = sc_domain cfg, o_from = None, o_display = [], o_body = [],
              o_dest = r_server (sc_register cfg), o_auth = None\<rparr>) of
        Inl _ \<Rightarrow> False
      | Inr r \<Rightarrow> rp_status r = 200)"

definition endpoint_ready :: "sip_config \<Rightarrow> bool \<Rightarrow> bool \<Rightarrow> bool" where
  "endpoint_ready cfg listening registered = (listening \<and> (\<not> r_enabled (sc_register cfg) \<or> registered))"

subsection \<open>Outbound\<close>

definition max_packet_size :: nat where
  "max_packet_size = 20480"

definition sanitise_caller :: "string \<Rightarrow> string" where
  "sanitise_caller u =
     (if u = [] \<or> length u > 255 then []
      else if list_ex (\<lambda>c. c = CHR 0x22 \<or> c = CHR 0x5C \<or> c = CHR 0x0D \<or> c = CHR 0x0A) u then []
      else u)"

text \<open>\<open>SendMessage\<close>.  \<open>uri_ok\<close> says what parses as a SIP URI, \<open>wire_size\<close> is the length of a
  serialised request, \<open>success\<close> tells the statuses that accept one.\<close>

definition send_message :: "(string \<Rightarrow> bool) \<Rightarrow> (out_request \<Rightarrow> nat) \<Rightarrow> (int \<Rightarrow> bool)
    \<Rightarrow> (out_request \<Rightarrow> sip_reply option) \<Rightarrow> (string \<Rightarrow> string option) \<Rightarrow> sip_config
    \<Rightarrow> string \<Rightarrow> string \<Rightarrow> string \<Rightarrow> string \<Rightarrow> out_request list \<times> message_outcome list \<times> send_error option" where
  "send_message uri_ok wire_size success peer digest cfg to from body caller =
     (if \<not> uri_ok to then ([], [], Some BadDestination)
      else if from \<noteq> [] \<and> \<not> uri_ok from then ([], [], Some BadSender)
      else
        let req = \<lparr>o_method = ''MESSAGE'', o_to = to, o_from = (if from = [] then None else Some from),
                   o_display = sanitise_caller caller, o_body = body,
                   o_dest = r_server (sc_register cfg), o_auth = None\<rparr> in
        if wire_size req > max_packet_size then ([], [MsgTooLong], Some (TooLong (wire_size req)))
        else
          (case do_with_digest peer digest cfg req of
             (sent, Inl e) \<Rightarrow> (sent, [MsgError], Some e)
           | (sent, Inr r) \<Rightarrow>
               if success (rp_status r) then (sent, [MsgSent], None)
               else (sent, [MsgRejected], Some (RejectedWith (rp_status r)))))"

subsection \<open>Properties\<close>

lemma do_with_digest_cases:
  "do_with_digest peer digest cfg req = (sent, r) \<Longrightarrow>
     (sent = [req] \<or> (\<exists>c cred h. sent = [req, req\<lparr>o_auth := Some (h, cred)\<rparr>] \<and> peer req = Some c
        \<and> is_challenge c \<and> r_password (sc_register cfg) \<noteq> []
        \<and> h = (if rp_status c = 407 then ''Proxy-Authorization'' else ''Authorization'')))
     \<and> (case r of Inl _ \<Rightarrow> True | Inr a \<Rightarrow> peer (last sent) = Some a)"
  by (auto simp: do_with_digest_def authorize_def Let_def split: option.splits if_splits sum.splits)

text \<open>C33: An outbound text is written at most twice: as it is, within the packet limit and without
  credentials, and once more with credentials and otherwise unchanged, only after a challenge
  and only if a password is set; it counts as sent exactly if the last reply accepted it, and
  it is counted exactly once if its addresses parse.\<close>

theorem text_sent_at_most_twice:
  assumes "send_message uri_ok wire_size success peer digest cfg to from body caller = (sent, counted, err)"
  shows "(sent = [] \<or> (\<exists>req. hd sent = req \<and> o_auth req = None \<and> wire_size req \<le> max_packet_size
        \<and> o_to req = to \<and> o_body req = body
        \<and> (sent = [req] \<or> (\<exists>h cred c. sent = [req, req\<lparr>o_auth := Some (h, cred)\<rparr>] \<and> peer req = Some c
             \<and> is_challenge c \<and> r_password (sc_register cfg) \<noteq> []))))
    \<and> (err = None) = (\<exists>r. sent \<noteq> [] \<and> peer (last sent) = Some r \<and> success (rp_status r) \<and> counted = [MsgSent])
    \<and> (uri_ok to \<and> (from = [] \<or> uri_ok from)) = (length counted = 1)"
proof (cases "uri_ok to \<and> (from = [] \<or> uri_ok from)")
  case False
  then have "sent = [] \<and> counted = [] \<and> err \<noteq> None"
    using assms unfolding send_message_def by (auto split: if_splits)
  then show ?thesis using False by auto
next
  case True
  define req where "req = \<lparr>o_method = ''MESSAGE'', o_to = to, o_from = (if from = [] then None else Some from),
      o_display = sanitise_caller caller, o_body = body, o_dest = r_server (sc_register cfg), o_auth = None\<rparr>"
  have fields: "o_auth req = None" "o_to req = to" "o_body req = body" by (simp_all add: req_def)
  show ?thesis
  proof (cases "wire_size req > max_packet_size")
    case long: True
    then have "sent = [] \<and> length counted = 1 \<and> err \<noteq> None"
      using assms True unfolding send_message_def req_def by (auto simp: Let_def split: if_splits)
    then show ?thesis using True by auto
  next
    case fits: False
    obtain s r where d: "do_with_digest peer digest cfg req = (s, r)" by (metis prod.exhaust)
    have sm: "(sent, counted, err) = (case r of Inl e \<Rightarrow> (s, [MsgError], Some e)
        | Inr a \<Rightarrow> if success (rp_status a) then (s, [MsgSent], None)
                  else (s, [MsgRejected], Some (RejectedWith (rp_status a))))"
      using assms True fits d by (auto simp: send_message_def Let_def req_def split: sum.splits if_splits)
    note D = do_with_digest_cases [OF d]
    have "sent = s" "length counted = 1" using sm by (auto split: sum.splits if_splits)
    moreover have "(err = None) = (\<exists>a. peer (last s) = Some a \<and> success (rp_status a) \<and> counted = [MsgSent])"
      using sm D by (cases r) (auto split: if_splits)
    moreover have "s \<noteq> []" "hd s = req" using D by auto
    ultimately show ?thesis using D True fits fields by auto
  qed
qed

definition texting_config :: sip_config where
  "texting_config =
     \<lparr>sc_listen = ''0.0.0.0:5060'', sc_transport = ''tcp'', sc_public_address = ''sip.example.com:5060'',
      sc_username = ''bridge'', sc_domain = ''example.com'',
      sc_register = \<lparr>r_enabled = False, r_server = ''pbx:5060'', r_password = ''secret'', r_expiry = 300000000000\<rparr>,
      sc_media_address = [], sc_media_port = 40000, sc_conference_header = ''X-Conference'',
      sc_caller_header = [], sc_recipient_header = ''X-Matrix-Recipient''\<rparr>"

definition challenging_peer :: "out_request \<Rightarrow> sip_reply option" where
  "challenging_peer req =
     Some \<lparr>rp_status = (if o_auth req = None then 407 else 202), rp_reason = [], rp_www = None,
           rp_proxy = Some ''Digest realm=x''\<rparr>"

definition challenged_text :: "out_request list \<times> message_outcome list \<times> send_error option" where
  "challenged_text = send_message (\<lambda>u. u \<noteq> []) (\<lambda>r. length (o_body r)) (\<lambda>s. 200 \<le> s \<and> s < 300)
     challenging_peer Some texting_config ''sip:+15551234567@pbx'' [] ''hello'' ''@alice:example.com''"

theorem text_sent_at_most_twice_witness:
  "snd challenged_text = ([MsgSent], None) \<and> o_auth (hd (fst challenged_text)) = None
   \<and> length (fst challenged_text) = 2"
proof -
  have c: "snd challenged_text = ([MsgSent], None)" "length (fst challenged_text) = 2" by code_simp+
  have "send_message (\<lambda>u. u \<noteq> []) (\<lambda>r. length (o_body r)) (\<lambda>s. 200 \<le> s \<and> s < 300)
      challenging_peer Some texting_config ''sip:+15551234567@pbx'' [] ''hello'' ''@alice:example.com''
      = (fst challenged_text, fst (snd challenged_text), snd (snd challenged_text))"
    by (simp add: challenged_text_def)
  from text_sent_at_most_twice [OF this] c show ?thesis by auto
qed

end
