(* ===== verification/Logins.thy ===== *)
theory Logins
  imports Call_Record
begin

section \<open>Logins of recipients (\<open>pkg/connector/logins.go\<close>)\<close>

text \<open>
  The login of a Matrix user: the lookup, the check of the permissions and the creation, which
  \<open>mu\<close> serialises.  The first existence check runs outside the lock, so other requests may
  create logins between it and the locked part; the locked part is one step.  The permissions of
  the bridge and the parser of Matrix IDs are parameters.
\<close>

record login_store =
  ls_users :: "string list"
  ls_logins :: "string list"
  ls_connected :: "string list"
  ls_default :: string

definition no_logins :: login_store where
  "no_logins = \<lparr>ls_users = [], ls_logins = [], ls_connected = [], ls_default = []\<rparr>"

text \<open>What the database answers on the way: whether it can be read, and its writes.\<close>

record login_answers =
  la_read :: bool
  la_reread :: bool
  la_user :: db_outcome
  la_login :: db_outcome

datatype login_made = LoginFound | LoginMade

definition legacy_login_id :: string where
  "legacy_login_id = ''sip''"

definition login_id_for :: "string \<Rightarrow> string" where
  "login_id_for mxid = mxid"

subsection \<open>Operations\<close>

text \<open>\<open>GetUserByMXID\<close> inserts the user's row if there is none.\<close>

definition add_user :: "string \<Rightarrow> login_store \<Rightarrow> login_store" where
  "add_user mxid st = (if mxid \<in> set (ls_users st) then st else st\<lparr>ls_users := ls_users st @ [mxid]\<rparr>)"

text \<open>The rest of \<open>ensure\<close> once \<open>mu\<close> is held.\<close>

definition ensure_locked :: "(string \<Rightarrow> bool) \<Rightarrow> login_answers \<Rightarrow> string \<Rightarrow> bool \<Rightarrow> login_store
    \<Rightarrow> (login_error + login_made) \<times> login_store" where
  "ensure_locked permitted a mxid check st =
     (if \<not> la_reread a then (Inl ErrOther, st)
      else if login_id_for mxid \<in> set (ls_logins st) then (Inr LoginFound, st)
      else if check \<and> \<not> permitted mxid then (Inl ErrRecipientRefused, st)
      else
        let st1 = (if la_user a = DbErr then st else add_user mxid st) in
        if la_user a \<noteq> DbOk then (Inl ErrOther, st1)
        else
          let st2 = (if la_login a = DbErr then st1
                     else st1\<lparr>ls_logins := ls_logins st1 @ [login_id_for mxid]\<rparr>) in
          if la_login a \<noteq> DbOk then (Inl ErrOther, st2) else (Inr LoginMade, st2))"

text \<open>\<open>ensure\<close>: \<open>between\<close> is what other requests do while this one waits for \<open>mu\<close>.\<close>

definition ensure_login :: "(string \<Rightarrow> bool) \<Rightarrow> login_answers \<Rightarrow> (login_store \<Rightarrow> login_store) \<Rightarrow> string \<Rightarrow> bool
    \<Rightarrow> login_store \<Rightarrow> (login_error + login_made) \<times> login_store" where
  "ensure_login permitted a between mxid check st =
     (if \<not> la_read a then (Inl ErrOther, st)
      else if login_id_for mxid \<in> set (ls_logins st) then (Inr LoginFound, st)
      else ensure_locked permitted a mxid check (between st))"

definition is_user_id :: "(string \<Rightarrow> (string \<times> string) option) \<Rightarrow> string \<Rightarrow> bool" where
  "is_user_id parse mxid =
     (case parse mxid of None \<Rightarrow> False | Some (localpart, homeserver) \<Rightarrow> localpart \<noteq> [] \<and> homeserver \<noteq> [])"

definition recipient_of :: "string \<Rightarrow> login_store \<Rightarrow> string" where
  "recipient_of recipient st = (if trim_space recipient = [] then ls_default st else trim_space recipient)"

text \<open>\<open>Login\<close>: the login of the recipient a request names, connected if it was made here.\<close>

definition resolve_login :: "(string \<Rightarrow> bool) \<Rightarrow> (string \<Rightarrow> (string \<times> string) option) \<Rightarrow> login_answers
    \<Rightarrow> (login_store \<Rightarrow> login_store) \<Rightarrow> string \<Rightarrow> login_store \<Rightarrow> (login_error + string) \<times> login_store" where
  "resolve_login permitted parse a between recipient st =
     (let mxid = recipient_of recipient st in
      if mxid = [] then (Inl ErrUnknownRecipient, st)
      else if \<not> is_user_id parse mxid then (Inl ErrUnknownRecipient, st)
      else (case ensure_login permitted a between mxid True st of
          (Inl e, st') \<Rightarrow> (Inl e, st')
        | (Inr LoginFound, st') \<Rightarrow> (Inr (login_id_for mxid), st')
        | (Inr LoginMade, st') \<Rightarrow>
            (Inr (login_id_for mxid), st'\<lparr>ls_connected := ls_connected st' @ [login_id_for mxid]\<rparr>)))"

subsection \<open>What every request keeps\<close>

text \<open>
  The steps of all requests: a request that made a login owes its connection (\<open>todo\<close>), which may
  come after steps of other requests; line members (checked) and the migration (exempt) make
  logins they leave to the start of the bridge to connect.
\<close>

inductive logins_reachable :: "(string \<Rightarrow> bool) \<Rightarrow> string set \<Rightarrow> login_store \<Rightarrow> string list \<Rightarrow> bool"
  for permitted :: "string \<Rightarrow> bool" and exempt :: "string set" where
  no_login: "logins_reachable permitted exempt (no_logins\<lparr>ls_default := d\<rparr>) []"
| made_by_request: "logins_reachable permitted exempt st todo
     \<Longrightarrow> ensure_locked permitted a mxid True st = (r, st')
     \<Longrightarrow> logins_reachable permitted exempt st' (if r = Inr LoginMade then todo @ [login_id_for mxid] else todo)"
| made_by_member: "logins_reachable permitted exempt st todo
     \<Longrightarrow> ensure_locked permitted a mxid True st = (r, st') \<Longrightarrow> logins_reachable permitted exempt st' todo"
| made_exempt: "logins_reachable permitted exempt st todo \<Longrightarrow> mxid \<in> exempt
     \<Longrightarrow> ensure_locked permitted a mxid False st = (r, st') \<Longrightarrow> logins_reachable permitted exempt st' todo"
| login_connected: "logins_reachable permitted exempt st (before @ u # after)
     \<Longrightarrow> logins_reachable permitted exempt (st\<lparr>ls_connected := ls_connected st @ [u]\<rparr>) (before @ after)"
| default_set: "logins_reachable permitted exempt st todo
     \<Longrightarrow> logins_reachable permitted exempt (st\<lparr>ls_default := d\<rparr>) todo"

definition logins_ok :: "(string \<Rightarrow> bool) \<Rightarrow> string set \<Rightarrow> login_store \<Rightarrow> string list \<Rightarrow> bool" where
  "logins_ok permitted exempt st todo =
     (distinct (ls_logins st) \<and> distinct (ls_users st) \<and> set (ls_logins st) \<subseteq> set (ls_users st)
      \<and> (\<forall>u \<in> set (ls_users st). permitted u \<or> u \<in> exempt)
      \<and> distinct (ls_connected st @ todo) \<and> set (ls_connected st @ todo) \<subseteq> set (ls_logins st))"

lemma ensure_locked_keeps:
  assumes "logins_ok permitted exempt st todo" "\<not> check \<longrightarrow> mxid \<in> exempt"
    "ensure_locked permitted a mxid check st = (r, st')"
  shows "logins_ok permitted exempt st' todo
    \<and> (r = Inr LoginMade \<longrightarrow> logins_ok permitted exempt st' (todo @ [login_id_for mxid]))"
  using assms
  by (auto simp: logins_ok_def ensure_locked_def add_user_def login_id_for_def Let_def split: if_splits)

lemma logins_reachable_ok:
  "logins_reachable permitted exempt st todo \<Longrightarrow> logins_ok permitted exempt st todo"
proof (induction rule: logins_reachable.induct)
  case (made_by_request st todo a mxid r st')
  then show ?case using ensure_locked_keeps [OF made_by_request(3) _ made_by_request(2)] by simp
next
  case (made_by_member st todo a mxid r st')
  then show ?case using ensure_locked_keeps [OF made_by_member(3) _ made_by_member(2)] by simp
next
  case (made_exempt st todo mxid a r st')
  then show ?case using ensure_locked_keeps [OF made_exempt(4) _ made_exempt(3)] by simp
qed (auto simp: logins_ok_def no_logins_def)

lemma ensure_login_made:
  assumes "ensure_login permitted a between mxid check st = (Inr LoginMade, st')"
  shows "mxid \<notin> set (ls_logins (between st)) \<and> set (ls_logins st') = insert mxid (set (ls_logins (between st)))
    \<and> (check \<longrightarrow> permitted mxid) \<and> ls_connected st' = ls_connected (between st)"
  using assms
  by (auto simp: ensure_login_def ensure_locked_def add_user_def login_id_for_def Let_def split: if_splits)

lemma resolve_login_Inr:
  assumes "resolve_login permitted parse a between recipient st = (Inr u, st')"
  shows "u = recipient_of recipient st \<and> is_user_id parse u"
  using assms
  by (auto simp: resolve_login_def login_id_for_def Let_def split: if_splits prod.splits sum.splits login_made.splits)

subsection \<open>Properties\<close>


definition answering :: login_answers where
  "answering = \<lparr>la_read = True, la_reread = True, la_user = DbOk, la_login = DbOk\<rparr>"

definition sample_parse :: "string \<Rightarrow> (string \<times> string) option" where
  "sample_parse u = (if u = ''@a:b'' then Some (''a'', ''b'') else None)"

definition first_text :: "(login_error + string) \<times> login_store" where
  "first_text = resolve_login (\<lambda>u. u = ''@a:b'') sample_parse answering id '' @a:b '' no_logins"


text \<open>C18: However requests, line members and the migration interleave, no user gets two logins,
  every login has its user's row, nobody but a permitted or exempt user has either, and a login
  is connected at most once by the requests that make logins, only after it exists.\<close>

theorem one_login_per_user:
  assumes "logins_reachable permitted exempt st todo"
  shows "distinct (ls_logins st) \<and> distinct (ls_users st) \<and> set (ls_logins st) \<subseteq> set (ls_users st)
    \<and> (\<forall>u \<in> set (ls_users st). permitted u \<or> u \<in> exempt)
    \<and> distinct (ls_connected st @ todo) \<and> set (ls_connected st @ todo) \<subseteq> set (ls_logins st)"
  using logins_reachable_ok [OF assms] unfolding logins_ok_def .

definition asked_twice :: "(login_error + login_made) \<times> login_store" where
  "asked_twice = ensure_locked (\<lambda>u. u = ''@a:b'') answering ''@a:b'' True
     (snd (ensure_locked (\<lambda>u. u = ''@a:b'') answering ''@a:b'' True no_logins))"

theorem one_login_per_user_witness:
  "ls_logins (snd asked_twice) = [''@a:b''] \<and> distinct (ls_logins (snd asked_twice)) \<and> fst asked_twice = Inr LoginFound"
proof -
  let ?p = "\<lambda>u. u = ''@a:b''"
  have "logins_reachable ?p {} (no_logins\<lparr>ls_default := []\<rparr>) []" by (rule no_login)
  then have z: "logins_reachable ?p {} no_logins []" by (simp add: no_logins_def)
  have "logins_reachable ?p {} (snd asked_twice) []"
    unfolding asked_twice_def by (rule made_by_member [OF made_by_member [OF z]]) (rule prod.collapse [symmetric])+
  from one_login_per_user [OF this] have "distinct (ls_logins (snd asked_twice))" by blast
  moreover have "ls_logins (snd asked_twice) = [''@a:b'']" "fst asked_twice = Inr LoginFound" by code_simp+
  ultimately show ?thesis by blast
qed

end
