(* ===== verification/Inbound_Text.thy ===== *)
theory Inbound_Text
  imports Phonenum Inbound_Queue Sip_Message Logins
begin

section \<open>Texts between SIP and Matrix (\<open>pkg/connector/client.go\<close>)\<close>

text \<open>
  An inbound MESSAGE on its way to the durable queue and from there to bridgev2, and a Matrix
  message on its way out.  The handler works on the login store and the queue; the fresh UID, the
  clock and what the database and the disk answer are arguments, so are bridgev2's answers to an
  event and the parser of SIP URIs.
\<close>

subsection \<open>Inbound\<close>

record parsed_text =
  pt_from :: string
  pt_to :: string
  pt_body :: string
  pt_line :: string

definition parse_inbound_message :: "string \<Rightarrow> string \<Rightarrow> string \<Rightarrow> parsed_text option" where
  "parse_inbound_message raw_from raw_to raw_body =
     (case normalize raw_from of
        Inl _ \<Rightarrow> None
      | Inr n \<Rightarrow>
          if raw_body = [] then None
          else Some \<lparr>pt_from = n, pt_to = (case normalize raw_to of Inl _ \<Rightarrow> [] | Inr t \<Rightarrow> t),
                     pt_body = raw_body, pt_line = line_from_uri raw_from\<rparr>)"

record bridge_state_in =
  bi_logins :: login_store
  bi_queue :: queue

record text_env =
  te_permitted :: "string \<Rightarrow> bool"
  te_parse :: "string \<Rightarrow> (string \<times> string) option"
  te_answers :: login_answers
  te_between :: "login_store \<Rightarrow> login_store"
  te_uid :: string
  te_now :: nanos
  te_db :: db_outcome
  te_fault :: write_fault

text \<open>The record the handler persists.\<close>

definition text_record :: "text_env \<Rightarrow> string \<Rightarrow> string \<Rightarrow> parsed_text \<Rightarrow> inbound_message" where
  "text_record env login pid t =
     \<lparr>msg_id = 0, uid = te_uid env, login_id = login, portal_id = pid, sender = pt_from t,
      recipient = pt_to t, body = pt_body t, msg_line = pt_line t, received_at = te_now env\<rparr>"

definition handle_inbound_message ::
    "text_env \<Rightarrow> inbound_sip \<Rightarrow> bridge_state_in \<Rightarrow> handler_result \<times> message_outcome list \<times> bridge_state_in" where
  "handle_inbound_message env w st =
     (case parse_inbound_message (w_from w) (w_to w) (w_body w) of
        None \<Rightarrow> (HandlerOk, [MsgDroppedBadSender], st)
      | Some t \<Rightarrow>
          (case resolve_login (te_permitted env) (te_parse env) (te_answers env) (te_between env)
                  (w_recipient w) (bi_logins st) of
             (Inl e, ls) \<Rightarrow>
               (HandlerError (Some (int (fst (recipient_status e)), snd (recipient_status e))),
                [MsgRefusedRecipient], st\<lparr>bi_logins := ls\<rparr>)
           | (Inr login, ls) \<Rightarrow>
               (case id_for (pt_line t) (pt_from t) of
                  Inl _ \<Rightarrow> (HandlerOk, [MsgDroppedBadSender], st\<lparr>bi_logins := ls\<rparr>)
                | Inr pid \<Rightarrow>
                    (case persist (te_db env) (te_fault env) (text_record env login pid t) (bi_queue st) of
                       (q, r) \<Rightarrow>
                         (case r of
                            Refused \<Rightarrow> (HandlerError None, [MsgPersistFailed], \<lparr>bi_logins = ls, bi_queue = q\<rparr>)
                          | Spooled \<Rightarrow> (HandlerOk, [MsgSpooled], \<lparr>bi_logins = ls, bi_queue = q\<rparr>)
                          | Stored \<Rightarrow> (HandlerOk, [MsgBridged], \<lparr>bi_logins = ls, bi_queue = q\<rparr>))))))"

text \<open>\<open>handleMessage\<close> of the endpoint with this handler registered.\<close>

definition receive_text :: "sip_config \<Rightarrow> text_env \<Rightarrow> sip_request \<Rightarrow> bridge_state_in
    \<Rightarrow> (int \<times> string) \<times> message_outcome list \<times> bridge_state_in" where
  "receive_text cfg env = handle_message cfg (Some (handle_inbound_message env))"

subsection \<open>To Matrix\<close>

datatype bridge_answer = EventQueued | EventHandled | EventFailed

datatype deliver_error = LoginLookupFailed | LoginMissing | NotHandledYet | NotHandled

record text_event =
  tv_login :: string
  tv_portal :: string
  tv_receiver :: string
  tv_sender :: string
  tv_id :: string
  tv_time :: nanos
  tv_body :: string

text \<open>\<open>deliverInbound\<close>, with what \<open>GetExistingUserLoginByID\<close> answers (\<open>None\<close> an error, \<open>Some False\<close>
  no such login).\<close>

definition text_event_of :: "inbound_message \<Rightarrow> text_event" where
  "text_event_of m =
     \<lparr>tv_login = login_id m, tv_portal = portal_id m, tv_receiver = login_id m, tv_sender = portal_id m,
      tv_id = ''in-'' @ uid m, tv_time = received_at m, tv_body = body m\<rparr>"

definition deliver_inbound :: "(string \<Rightarrow> bool option) \<Rightarrow> (text_event \<Rightarrow> bridge_answer) \<Rightarrow> inbound_message
    \<Rightarrow> text_event option \<times> deliver_error option" where
  "deliver_inbound lookup handle m =
     (case lookup (login_id m) of
        None \<Rightarrow> (None, Some LoginLookupFailed)
      | Some False \<Rightarrow> (None, Some LoginMissing)
      | Some True \<Rightarrow>
          (Some (text_event_of m),
           case handle (text_event_of m) of
             EventQueued \<Rightarrow> Some NotHandledYet
           | EventHandled \<Rightarrow> None
           | EventFailed \<Rightarrow> Some NotHandled))"

subsection \<open>Outbound\<close>

record message_config =
  mc_enabled :: bool
  mc_outbound_to :: string
  mc_outbound_from :: string
  mc_max_length :: int

datatype matrix_error =
    SpaceHasNoMessages | MessagingDisabled | NoOutboundTo | NotText | SipNotRunning | BadOutboundFrom
  | SendFailed send_error

text \<open>\<open>outboundFrom\<close>: \<open>rehost uri line\<close> is the parsed URI with its host replaced and no port, \<open>None\<close>
  if it does not parse.\<close>

definition outbound_from :: "(string \<Rightarrow> string \<Rightarrow> string option) \<Rightarrow> string \<Rightarrow> string \<Rightarrow> string option" where
  "outbound_from rehost configured line =
     (if line = [] \<or> configured = [] then Some configured else rehost configured line)"

text \<open>\<open>HandleMatrixMessage\<close>: what is passed to \<open>SendMessage\<close> (to, from, body), for the rooms of
  numbers; a dial room's message is the dial room's (\<open>Dial_Room\<close>).  \<open>send\<close> is the endpoint, if it runs.\<close>

datatype matrix_result = MatrixSent | MatrixRefused matrix_error | DialRoomMessage string

definition handle_matrix_message :: "(string \<Rightarrow> string \<Rightarrow> string option) \<Rightarrow> message_config
    \<Rightarrow> (string \<Rightarrow> string \<Rightarrow> string \<Rightarrow> send_error option) option \<Rightarrow> string \<Rightarrow> string
    \<Rightarrow> (string \<times> string \<times> string) option \<times> matrix_result" where
  "handle_matrix_message rehost cfg send pid text_body =
     (case kind_of pid of
        (KindSpace, line) \<Rightarrow> (None, MatrixRefused SpaceHasNoMessages)
      | (KindDial, line) \<Rightarrow> (None, DialRoomMessage line)
      | (KindNumber, line) \<Rightarrow>
          if \<not> mc_enabled cfg then (None, MatrixRefused MessagingDisabled)
          else if mc_outbound_to cfg = [] then (None, MatrixRefused NoOutboundTo)
          else if text_body = [] then (None, MatrixRefused NotText)
          else
            let to = replace_all (mc_outbound_to cfg) ''{number}'' (number_from_id pid) in
            (case send of
               None \<Rightarrow> (None, MatrixRefused SipNotRunning)
             | Some f \<Rightarrow>
                 (case outbound_from rehost (mc_outbound_from cfg) (line_from_id pid) of
                    None \<Rightarrow> (None, MatrixRefused BadOutboundFrom)
                  | Some from \<Rightarrow>
                      (Some (to, from, text_body),
                       case f to from text_body of None \<Rightarrow> MatrixSent | Some e \<Rightarrow> MatrixRefused (SendFailed e)))))"

subsection \<open>Properties\<close>

lemma handled_cases:
  assumes "handle_inbound_message env w st = (r, counted, st')"
  obtains (unusable) "r = HandlerOk" "counted = [MsgDroppedBadSender]" "bi_queue st' = bi_queue st"
  | (refused) e where "r = HandlerError (Some (int (fst (recipient_status e)), snd (recipient_status e)))"
      "counted = [MsgRefusedRecipient]" "bi_queue st' = bi_queue st"
  | (persisted) t login pid x where "parse_inbound_message (w_from w) (w_to w) (w_body w) = Some t"
      "id_for (pt_line t) (pt_from t) = Inr pid"
      "resolve_login (te_permitted env) (te_parse env) (te_answers env) (te_between env)
         (w_recipient w) (bi_logins st) = (Inr login, bi_logins st')"
      "persist (te_db env) (te_fault env) (text_record env login pid t) (bi_queue st) = (bi_queue st', x)"
      "(r, counted) = (case x of Refused \<Rightarrow> (HandlerError None, [MsgPersistFailed])
         | Spooled \<Rightarrow> (HandlerOk, [MsgSpooled]) | Stored \<Rightarrow> (HandlerOk, [MsgBridged]))"
proof (cases "parse_inbound_message (w_from w) (w_to w) (w_body w)")
  case None
  then show thesis using assms unusable by (auto simp: handle_inbound_message_def)
next
  case t: (Some t)
  obtain e ls where l: "resolve_login (te_permitted env) (te_parse env) (te_answers env) (te_between env)
      (w_recipient w) (bi_logins st) = (e, ls)" by (metis prod.exhaust)
  show thesis
  proof (cases e)
    case (Inl x)
    then show thesis using assms t l refused by (auto simp: handle_inbound_message_def)
  next
    case login: (Inr login)
    show thesis
    proof (cases "id_for (pt_line t) (pt_from t)")
      case (Inl x)
      then show thesis using assms t l login unusable by (auto simp: handle_inbound_message_def)
    next
      case pid: (Inr pid)
      obtain q x where q: "persist (te_db env) (te_fault env) (text_record env login pid t) (bi_queue st) = (q, x)"
        by (metis prod.exhaust)
      then show thesis
        using assms t l login pid persisted [of t pid login x]
        by (cases x) (auto simp: handle_inbound_message_def)
    qed
  qed
qed

lemma parsed_text:
  "parse_inbound_message f t b = Some p
   \<Longrightarrow> normalize f = Inr (pt_from p) \<and> pt_line p = line_from_uri f \<and> pt_body p = b \<and> b \<noteq> []"
  by (auto simp: parse_inbound_message_def split: sum.splits if_splits)

lemma persist_ghosts:
  "persist db fault m (q\<lparr>minted := ms\<rparr>)
     = (fst (persist db fault m q)\<lparr>minted := ms\<rparr>, snd (persist db fault m q))"
  by (simp add: persist_def Let_def notify_def set_outbox_def set_spool_def)

text \<open>What the handler did to the queue is the step of the queue.\<close>

lemma persist_is_step:
  assumes "persist db fault m q = (q', r)" "r \<noteq> Refused" "may_mint q m"
  obtains q1 where "exec (Persisted db fault m) q = Some q1" "table q1 = table q'" "spool q1 = spool q'"
    "m \<in> set (accepted q1)"
proof -
  let ?q1 = "q'\<lparr>minted := minted q @ [m], accepted := accepted q @ [m]\<rparr>"
  have "exec (Persisted db fault m) q = Some ?q1"
    using assms by (simp add: persist_ghosts)
  then show thesis by (rule that) simp_all
qed

lemma normalize_empty: "normalize [] = Inl ErrEmpty"
  by code_simp

lemma receive_text_cases:
  assumes "receive_text cfg env req st = (resp, counted, st')"
  obtains (unread) "resp = (415, ''Unsupported Media Type'')" "counted = [MsgRejectedMediaType]" "st' = st"
  | (handled) r where "handle_inbound_message env (message_of cfg req) st = (r, counted, st')"
      "resp = (case r of HandlerOk \<Rightarrow> (200, ''OK'') | HandlerError e \<Rightarrow> error_status e)"
  using assms
  by (auto simp: receive_text_def handle_message_def split: option.splits if_splits prod.splits handler_result.splits)


text \<open>Every MESSAGE is counted once, and the count and the response agree: success is what was
  stored, spooled or dropped as unusable, and only a text that got as far as the queue changes it.\<close>

theorem message_counted_once:
  assumes "receive_text cfg env req st = (resp, counted, st')"
  shows "length counted = 1
    \<and> (fst resp = 200 \<longleftrightarrow> counted \<in> {[MsgBridged], [MsgSpooled], [MsgDroppedBadSender]})
    \<and> (fst resp = 415 \<longleftrightarrow> counted = [MsgRejectedMediaType])
    \<and> (fst resp \<in> {403, 404} \<longrightarrow> counted = [MsgRefusedRecipient])
    \<and> (fst resp = 500 \<longrightarrow> counted \<in> {[MsgRefusedRecipient], [MsgPersistFailed]})
    \<and> (bi_queue st' \<noteq> bi_queue st \<longrightarrow> counted \<in> {[MsgBridged], [MsgSpooled], [MsgPersistFailed]})"
  using assms
proof (cases rule: receive_text_cases)
  case (handled r)
  from handled(1) show ?thesis
  proof (cases rule: handled_cases)
    case (refused e)
    then show ?thesis using handled(2)
      by (cases e) (auto simp: error_status_def recipient_status_def)
  next
    case (persisted t login pid x)
    then show ?thesis using handled(2) by (cases x) (auto simp: error_status_def)
  qed (use handled(2) in auto)
qed auto

definition inbound_env :: text_env where
  "inbound_env =
     \<lparr>te_permitted = (\<lambda>u. u = ''@a:b''), te_parse = sample_parse, te_answers = answering, te_between = id,
      te_uid = ''u1'', te_now = 3000000, te_db = DbErr, te_fault = NoFault\<rparr>"

definition inbound_request :: sip_request where
  "inbound_request =
     \<lparr>q_content_type = Some ''text/plain; charset=utf-8'', q_from = Some ''sip:+15551234567@line2'',
      q_to = None, q_header = (\<lambda>h. if h = ''X-Matrix-Recipient'' then Some ''@a:b'' else None),
      q_body = ''hello''\<rparr>"

definition idle_bridge :: bridge_state_in where
  "idle_bridge = \<lparr>bi_logins = no_logins, bi_queue = new_queue True\<rparr>"

definition received :: "(int \<times> string) \<times> message_outcome list \<times> bridge_state_in" where
  "received = receive_text texting_config inbound_env inbound_request idle_bridge"

lemma received_parts:
  "message_of texting_config inbound_request
     = \<lparr>w_from = ''sip:+15551234567@line2'', w_to = [], w_body = ''hello'', w_recipient = ''@a:b''\<rparr>"
  "is_text_plain ''text/plain; charset=utf-8''"
  "parse_inbound_message ''sip:+15551234567@line2'' [] ''hello''
     = Some \<lparr>pt_from = ''+15551234567'', pt_to = [], pt_body = ''hello'', pt_line = ''line2''\<rparr>"
  "fst (resolve_login (\<lambda>u. u = ''@a:b'') sample_parse answering id ''@a:b'' no_logins) = Inr ''@a:b''"
  "id_for ''line2'' ''+15551234567'' = Inr ''line2-+15551234567''"
  by code_simp+

lemma spooled_when_down:
  "snd (persist DbErr NoFault m (new_queue True)) = Spooled"
  "spool_depth (fst (persist DbErr NoFault m (new_queue True))) = 1"
  by (simp_all add: persist_def new_queue_def spool_write_def Let_def set_spool_def)

lemma received_split:
  "receive_text texting_config inbound_env inbound_request idle_bridge
     = ((200, ''OK''), [MsgSpooled], snd (snd received))"
  and received_depth: "spool_depth (bi_queue (snd (snd received))) = 1"
proof -
  obtain ls where ls: "resolve_login (\<lambda>u. u = ''@a:b'') sample_parse answering id ''@a:b'' no_logins = (Inr ''@a:b'', ls)"
    using received_parts(4) by (metis prod.collapse)
  let ?m = "text_record inbound_env ''@a:b'' ''line2-+15551234567''
      \<lparr>pt_from = ''+15551234567'', pt_to = [], pt_body = ''hello'', pt_line = ''line2''\<rparr>"
  obtain q where q: "persist DbErr NoFault ?m (new_queue True) = (q, Spooled)" "spool_depth q = 1"
    using spooled_when_down [of ?m] by (metis prod.collapse)
  have h: "handle_inbound_message inbound_env (message_of texting_config inbound_request) idle_bridge
      = (HandlerOk, [MsgSpooled], \<lparr>bi_logins = ls, bi_queue = q\<rparr>)"
    using received_parts(3,5) ls q(1)
    unfolding handle_inbound_message_def received_parts(1)
    by (simp add: inbound_env_def idle_bridge_def)
  have "receive_text texting_config inbound_env inbound_request idle_bridge
     = ((200, ''OK''), [MsgSpooled], \<lparr>bi_logins = ls, bi_queue = q\<rparr>)"
    using h received_parts(2) by (simp add: receive_text_def handle_message_def inbound_request_def)
  then show "receive_text texting_config inbound_env inbound_request idle_bridge
     = ((200, ''OK''), [MsgSpooled], snd (snd received))" "spool_depth (bi_queue (snd (snd received))) = 1"
    using q(2) by (simp_all add: received_def)
qed


theorem message_counted_once_witness:
  "length [MsgSpooled] = 1 \<and> bi_queue (snd (snd received)) \<noteq> bi_queue idle_bridge"
proof
  show "length [MsgSpooled] = 1" using message_counted_once [OF received_split] by blast
  show "bi_queue (snd (snd received)) \<noteq> bi_queue idle_bridge"
    using received_depth by (auto simp: idle_bridge_def new_queue_def)
qed

end
