(* ===== verification/Rooms.thy ===== *)
theory Rooms
  imports Phonenum
begin

section \<open>Rooms (\<open>pkg/connector/client.go\<close>, \<open>spaces.go\<close>, \<open>dialroom.go\<close>)\<close>

text \<open>
  How a portal is described to bridgev2, who names its room, and how a room is put into its line's
  space.  bridgev2's portals are a map from keys (ID, receiver) to rooms; the homeserver's answers
  to the state events are arguments.
\<close>

datatype room_type = RoomDM | RoomSpace | RoomDefault

record chat_info =
  ci_name :: "string option"
  ci_topic :: "string option"
  ci_type :: room_type
  ci_other_user :: "string option"
  ci_event_levels :: "(string \<times> int) list"
  ci_parent :: "string option"

type_synonym portal_key = "string \<times> string"

record portal =
  po_key :: portal_key
  po_mxid :: string
  po_room_type :: room_type
  po_name :: string
  po_name_set :: bool
  po_named_by_user :: bool
  po_parent_key :: portal_key
  po_parent :: "portal_key option"
  po_in_space :: bool

abbreviation po_id :: "portal \<Rightarrow> string" where "po_id p \<equiv> fst (po_key p)"

subsection \<open>Names\<close>

text \<open>The line, a space and the telephone sign, in UTF-8.\<close>

definition dial_room_name :: "string \<Rightarrow> string" where
  "dial_room_name line = line @ [CHR '' '', CHR 0xE2, CHR 0x98, CHR 0x8E]"

definition portal_name :: "string \<Rightarrow> string" where
  "portal_name pid =
     (let line = fst (split_id pid); number = number_from_id pid in
      if line = [] then number else number @ '' ('' @ line @ '')'')"

definition bridge_room_name :: "string \<Rightarrow> string" where
  "bridge_room_name pid =
     (case kind_of pid of
        (KindSpace, line) \<Rightarrow> line
      | (KindDial, line) \<Rightarrow> dial_room_name line
      | (KindNumber, _) \<Rightarrow> portal_name pid)"

definition keep_user_name :: "portal \<Rightarrow> chat_info \<Rightarrow> chat_info" where
  "keep_user_name p info = (if po_named_by_user p then info\<lparr>ci_name := None\<rparr> else info)"

subsection \<open>Descriptions\<close>

definition membership_power_levels :: "(string \<times> int) list" where
  "membership_power_levels = [(''org.matrix.msc3401.call.member'', 0), (''m.call.member'', 0)]"

definition portal_event_power_levels :: "(string \<times> int) list" where
  "portal_event_power_levels = membership_power_levels @ [(''m.room.name'', 0)]"

definition space_chat_info :: "string \<Rightarrow> chat_info" where
  "space_chat_info line =
     \<lparr>ci_name = Some line, ci_topic = None, ci_type = RoomSpace, ci_other_user = None,
      ci_event_levels = [], ci_parent = None\<rparr>"

definition dial_chat_info :: "string \<Rightarrow> chat_info" where
  "dial_chat_info line =
     \<lparr>ci_name = Some (dial_room_name line),
      ci_topic = Some (''Send a phone number to open its room on '' @ line @ '', or `!call <number>` to call it.''),
      ci_type = RoomDefault, ci_other_user = None, ci_event_levels = [], ci_parent = None\<rparr>"

definition line_space_id :: "string \<Rightarrow> string option" where
  "line_space_id pid =
     (case kind_of pid of
        (KindSpace, _) \<Rightarrow> None
      | (_, line) \<Rightarrow> (case space_id_for line of Inl _ \<Rightarrow> None | Inr space \<Rightarrow> Some space))"

definition with_line_parent :: "bool \<Rightarrow> string \<Rightarrow> chat_info \<Rightarrow> chat_info" where
  "with_line_parent line_spaces pid info =
     (if \<not> line_spaces then info
      else case line_space_id pid of None \<Rightarrow> info | Some space \<Rightarrow> info\<lparr>ci_parent := Some space\<rparr>)"

definition get_chat_info :: "bool \<Rightarrow> portal \<Rightarrow> chat_info" where
  "get_chat_info line_spaces p =
     keep_user_name p
       (case kind_of (po_id p) of
          (KindSpace, line) \<Rightarrow> space_chat_info line
        | (KindDial, line) \<Rightarrow> with_line_parent line_spaces (po_id p) (dial_chat_info line)
        | (KindNumber, _) \<Rightarrow>
            with_line_parent line_spaces (po_id p)
              \<lparr>ci_name = Some (portal_name (po_id p)), ci_topic = None, ci_type = RoomDM,
               ci_other_user = Some (po_id p), ci_event_levels = portal_event_power_levels, ci_parent = None\<rparr>)"

text \<open>The text limit a client is told, none for a space.\<close>

definition get_capabilities :: "int \<Rightarrow> string \<Rightarrow> int" where
  "get_capabilities max_length pid = (if fst (kind_of pid) = KindSpace then 0 else max_length)"

definition get_user_info :: "string \<Rightarrow> string \<times> string list" where
  "get_user_info ghost =
     (let number = number_from_id ghost in (number, if is_e164 number then [''tel:'' @ number] else []))"

text \<open>\<open>shouldResyncPortal\<close>: \<open>members\<close> is what the homeserver answers, with who is invited or joined.\<close>

definition should_resync_portal :: "(string \<Rightarrow> bool) option \<Rightarrow> portal \<Rightarrow> string \<Rightarrow> bool" where
  "should_resync_portal members p user =
     (if po_room_type p = RoomSpace then False
      else case members of None \<Rightarrow> True | Some inside \<Rightarrow> inside user)"

definition resync_portals :: "(portal \<Rightarrow> (string \<Rightarrow> bool) option) \<Rightarrow> string \<Rightarrow> string \<Rightarrow> portal list \<Rightarrow> portal_key list" where
  "resync_portals members login user ps =
     map po_key (filter (\<lambda>p. snd (po_key p) = login \<and> should_resync_portal (members p) p user) ps)"

subsection \<open>Renaming\<close>

text \<open>\<open>HandleMatrixRoomName\<close>: the portal, and the key of the resync it queues for an empty name.\<close>

definition handle_matrix_room_name :: "string \<Rightarrow> portal \<Rightarrow> portal \<times> portal_key option" where
  "handle_matrix_room_name name p =
     (if name = [] then
        (p\<lparr>po_named_by_user := False, po_name := bridge_room_name (po_id p), po_name_set := False\<rparr>,
         if po_mxid p = [] then None else Some (po_key p))
      else (p\<lparr>po_named_by_user := True, po_name := name, po_name_set := True\<rparr>, None))"

subsection \<open>The parent of a room\<close>

text \<open>Rooms by portal key, the \<open>m.space.child\<close> links (space, child) and the canonical
  \<open>m.space.parent\<close> links (child, space) of the homeserver.\<close>

record space_store =
  ss_rooms :: "portal_key \<Rightarrow> string"
  ss_children :: "(string \<times> string) set"
  ss_parents :: "(string \<times> string) set"

definition link_set :: "bool \<Rightarrow> 'a \<Rightarrow> 'a set \<Rightarrow> 'a set" where
  "link_set remove x s = (if remove then s - {x} else insert x s)"

text \<open>A state event the homeserver refuses, or whose answer is lost.\<close>

datatype send_answer = SendOk | SendLost | SendRefused

definition set_space_child :: "send_answer \<Rightarrow> string \<Rightarrow> string \<Rightarrow> bool \<Rightarrow> space_store \<Rightarrow> space_store \<times> bool" where
  "set_space_child a space child remove st =
     (if a = SendRefused then st else st\<lparr>ss_children := link_set remove (space, child) (ss_children st)\<rparr>,
      a = SendOk)"

definition link_to_parent :: "send_answer \<times> send_answer \<Rightarrow> string \<Rightarrow> string \<Rightarrow> bool \<Rightarrow> space_store \<Rightarrow> space_store \<times> bool" where
  "link_to_parent a parent child remove st =
     (case set_space_child (fst a) parent child remove st of
        (st', False) \<Rightarrow> (st', False)
      | (st', True) \<Rightarrow>
          (if snd a = SendRefused then st'
           else st'\<lparr>ss_parents := link_set remove (child, parent) (ss_parents st')\<rparr>,
           snd a = SendOk))"

record parent_answers =
  pa_get :: bool
  pa_unlink :: "send_answer \<times> send_answer"
  pa_create :: "string option"
  pa_link :: "send_answer \<times> send_answer"

text \<open>\<open>lineParent\<close>: whether the portal changed, the portal, and the rooms.\<close>

definition line_parent :: "parent_answers \<Rightarrow> string \<Rightarrow> portal \<Rightarrow> space_store \<Rightarrow> bool \<times> portal \<times> space_store" where
  "line_parent a space p st =
     (let want = (space, snd (po_key p)); keyed = (po_parent_key p = want) in
      if keyed \<and> po_mxid p = [] then (False, p, st)
      else if \<not> pa_get a then (False, p, st)
      else if keyed \<and> po_in_space p \<and> ss_rooms st want \<noteq> [] then (False, p, st)
      else
        let old = (case po_parent p of None \<Rightarrow> [] | Some k \<Rightarrow> ss_rooms st k);
            st1 = (if \<not> keyed \<and> po_mxid p \<noteq> [] \<and> po_in_space p \<and> old \<noteq> []
                   then fst (link_to_parent (pa_unlink a) old (po_mxid p) True st) else st);
            p1 = p\<lparr>po_parent_key := want, po_parent := Some want, po_in_space := False\<rparr> in
        if po_mxid p = [] then (True, p1, st1)
        else if ss_rooms st1 want = [] \<and> pa_create a = None then (True, p1, st1)
        else
          let st2 = (if ss_rooms st1 want = []
                     then st1\<lparr>ss_rooms := (ss_rooms st1)(want := the (pa_create a))\<rparr> else st1) in
          case link_to_parent (pa_link a) (ss_rooms st2 want) (po_mxid p) False st2 of
            (st3, ok) \<Rightarrow> (True, p1\<lparr>po_in_space := ok\<rparr>, st3))"

subsection \<open>Properties\<close>

text \<open>A room the bridge names is described by the one name the bridge gives it, however the
  rename of its user went before; while the user's own name stands the description never
  carries a name, and only an empty name gives the bridge's back, with the resync that re-sends it.\<close>

theorem user_name_is_kept:
  "ci_name (get_chat_info ls p) = (if po_named_by_user p then None else Some (bridge_room_name (po_id p)))
   \<and> (name \<noteq> [] \<longrightarrow> ci_name (get_chat_info ls (fst (handle_matrix_room_name name p))) = None
        \<and> po_name (fst (handle_matrix_room_name name p)) = name)
   \<and> (let p' = fst (handle_matrix_room_name [] p) in
        ci_name (get_chat_info ls p') = Some (po_name p') \<and> \<not> po_name_set p')"
proof (intro conjI impI)
  have w: "ci_name (with_line_parent ls pid info) = ci_name info" for pid info
    by (simp add: with_line_parent_def split: option.split)
  show d: "ci_name (get_chat_info ls q) = (if po_named_by_user q then None else Some (bridge_room_name (po_id q)))" for q
    by (cases "kind_of (po_id q)"; cases "fst (kind_of (po_id q))")
       (simp_all add: get_chat_info_def keep_user_name_def bridge_room_name_def w
          space_chat_info_def dial_chat_info_def)
  show "ci_name (get_chat_info ls (fst (handle_matrix_room_name name p))) = None" if "name \<noteq> []"
    unfolding d using that by (simp add: handle_matrix_room_name_def)
  show "po_name (fst (handle_matrix_room_name name p)) = name" if "name \<noteq> []"
    using that by (simp add: handle_matrix_room_name_def)
  show "let p' = fst (handle_matrix_room_name [] p) in
        ci_name (get_chat_info ls p') = Some (po_name p') \<and> \<not> po_name_set p'"
    unfolding d Let_def by (simp add: handle_matrix_room_name_def)
qed

text \<open>A keyed room that is said to be in its space is: the invariant of the links.\<close>

definition linked :: "portal \<Rightarrow> space_store \<Rightarrow> bool" where
  "linked p st =
     (po_in_space p \<longrightarrow> ss_rooms st (po_parent_key p) \<noteq> []
        \<and> (ss_rooms st (po_parent_key p), po_mxid p) \<in> ss_children st
        \<and> (po_mxid p, ss_rooms st (po_parent_key p)) \<in> ss_parents st)"

lemma link_to_parent_rooms [simp]: "ss_rooms (fst (link_to_parent a s c r st)) = ss_rooms st"
  by (simp add: link_to_parent_def set_space_child_def split: prod.split bool.split)

lemma link_to_parent_adds:
  assumes "link_to_parent a s c False st = (st', ok)"
  shows "ss_rooms st' = ss_rooms st
    \<and> (ok \<longrightarrow> (s, c) \<in> ss_children st' \<and> (c, s) \<in> ss_parents st')
    \<and> (a = (SendOk, SendOk) \<longrightarrow> ok)"
  using assms
  by (auto simp: link_to_parent_def set_space_child_def link_set_def split: prod.splits bool.splits if_splits)

lemma line_parent_cases:
  assumes "line_parent a space p st = (changed, p', st')" "pa_create a \<noteq> Some []"
  defines "want \<equiv> (space, snd (po_key p))"
  obtains (same) "\<not> changed" "p' = p" "st' = st"
      "\<not> pa_get a \<or> po_parent_key p = want \<and> (po_mxid p = [] \<or> po_in_space p \<and> ss_rooms st want \<noteq> [])"
  | (linking) ok where "p' = p\<lparr>po_parent_key := want, po_parent := Some want, po_in_space := ok\<rparr>"
      "ok \<longrightarrow> ss_rooms st' want \<noteq> [] \<and> (ss_rooms st' want, po_mxid p) \<in> ss_children st'
          \<and> (po_mxid p, ss_rooms st' want) \<in> ss_parents st'"
      "po_mxid p \<noteq> [] \<and> pa_link a = (SendOk, SendOk) \<and> pa_create a \<noteq> None \<longrightarrow> ok"
proof (cases "po_parent_key p = want \<and> (po_mxid p = [] \<or> pa_get a \<and> po_in_space p \<and> ss_rooms st want \<noteq> [])
    \<or> \<not> pa_get a")
  case True
  have k: "(if A \<and> B then r else if \<not> C then r else if A \<and> D \<and> E then r else s) = r"
    if "A \<and> (B \<or> C \<and> D \<and> E) \<or> \<not> C" for A B C D E and r s :: "bool \<times> portal \<times> space_store"
    using that by auto
  have "line_parent a space p st = (False, p, st)"
    unfolding line_parent_def want_def [symmetric] Let_def by (rule k [OF True])
  then have "\<not> changed \<and> p' = p \<and> st' = st" using assms(1) by simp
  then show thesis using same True by blast
next
  case False
  define st1 where "st1 = (if po_parent_key p \<noteq> want \<and> po_mxid p \<noteq> [] \<and> po_in_space p
       \<and> (case po_parent p of None \<Rightarrow> [] | Some k \<Rightarrow> ss_rooms st k) \<noteq> []
     then fst (link_to_parent (pa_unlink a) (case po_parent p of None \<Rightarrow> [] | Some k \<Rightarrow> ss_rooms st k) (po_mxid p) True st)
     else st)"
  define p1 where "p1 = p\<lparr>po_parent_key := want, po_parent := Some want, po_in_space := False\<rparr>"
  define st2 where "st2 = (if ss_rooms st1 want = []
     then st1\<lparr>ss_rooms := (ss_rooms st1)(want := the (pa_create a))\<rparr> else st1)"
  obtain st3 ok where l: "link_to_parent (pa_link a) (ss_rooms st2 want) (po_mxid p) False st2 = (st3, ok)"
    by (metis prod.exhaust)
  have k: "(po_parent_key p = want \<and> po_mxid p = []) = False" "(\<not> pa_get a) = False"
    "(po_parent_key p = want \<and> po_in_space p \<and> ss_rooms st want \<noteq> []) = False"
    using False by blast+
  have eq: "(changed, p', st') =
     (if po_mxid p = [] \<or> ss_rooms st1 want = [] \<and> pa_create a = None then (True, p1, st1)
      else (True, p1\<lparr>po_in_space := ok\<rparr>, st3))"
    unfolding assms(1) [symmetric] line_parent_def Let_def want_def [symmetric]
      st1_def [symmetric] p1_def [symmetric] st2_def [symmetric] l k
    by (simp only: if_False split: if_split prod.split) blast
  show thesis
  proof (cases "po_mxid p = [] \<or> ss_rooms st1 want = [] \<and> pa_create a = None")
    case True
    then show thesis using eq linking [of False] by (auto simp: p1_def)
  next
    case False
    then have r: "ss_rooms st2 want \<noteq> []" using assms(2) by (auto simp: st2_def)
    have "p' = p\<lparr>po_parent_key := want, po_parent := Some want, po_in_space := ok\<rparr>" "st' = st3"
      using eq False by (auto simp: p1_def)
    moreover note link_to_parent_adds [OF l]
    ultimately show thesis using linking [of ok] r by simp
  qed
qed

lemma line_parent_keeps_linked:
  assumes "linked p st" "pa_create a \<noteq> Some []" "line_parent a space p st = (changed, p', st')"
  shows "linked p' st'"
  using assms(3,2) by (cases rule: line_parent_cases) (use assms(1) in \<open>auto simp: linked_def\<close>)

text \<open>C29: However the homeserver answers, a room marked as being in its space is linked to the room
  of that space both ways; and once nothing fails, a single update puts a room with an ID into
  its line's space under its own receiver, after which nothing is left to do.\<close>

theorem line_parent_settles:
  assumes "linked p st" "pa_create a \<noteq> Some []" "line_parent a space p st = (changed, p', st')"
  shows "linked p' st'
    \<and> (pa_get a \<and> pa_create a \<noteq> None \<and> pa_link a = (SendOk, SendOk) \<and> po_mxid p \<noteq> []
       \<longrightarrow> po_parent_key p' = (space, snd (po_key p)) \<and> po_in_space p'
           \<and> ss_rooms st' (space, snd (po_key p)) \<noteq> []
           \<and> (ss_rooms st' (space, snd (po_key p)), po_mxid p) \<in> ss_children st'
           \<and> line_parent b space p' st' = (False, p', st'))"
proof (intro conjI impI)
  show L: "linked p' st'" using line_parent_keeps_linked [OF assms] .
  assume ok: "pa_get a \<and> pa_create a \<noteq> None \<and> pa_link a = (SendOk, SendOk) \<and> po_mxid p \<noteq> []"
  let ?want = "(space, snd (po_key p))"
  have facts: "po_parent_key p' = ?want \<and> po_in_space p' \<and> ss_rooms st' ?want \<noteq> []
      \<and> po_key p' = po_key p \<and> po_mxid p' = po_mxid p"
    using assms(3,2) by (cases rule: line_parent_cases) (use ok in auto)
  then show "po_parent_key p' = ?want" "po_in_space p'" "ss_rooms st' ?want \<noteq> []" by blast+
  show "(ss_rooms st' ?want, po_mxid p) \<in> ss_children st'" using facts L by (simp add: linked_def)
  show "line_parent b space p' st' = (False, p', st')" using facts by (simp add: line_parent_def Let_def)
qed

definition sample_portal :: portal where
  "sample_portal =
     \<lparr>po_key = (''line2-+15551234567'', ''@a:b''), po_mxid = ''!room:b'', po_room_type = RoomDM,
      po_name = ''+15551234567 (line2)'', po_name_set = True, po_named_by_user = False,
      po_parent_key = ([], []), po_parent = None, po_in_space = False\<rparr>"

definition no_spaces :: space_store where
  "no_spaces = \<lparr>ss_rooms = (\<lambda>_. []), ss_children = {}, ss_parents = {}\<rparr>"

definition all_well :: parent_answers where
  "all_well = \<lparr>pa_get = True, pa_unlink = (SendOk, SendOk), pa_create = Some ''!space:b'', pa_link = (SendOk, SendOk)\<rparr>"

theorem user_name_is_kept_witness:
  "ci_name (get_chat_info True sample_portal) = Some ''+15551234567 (line2)''
   \<and> ci_name (get_chat_info True (fst (handle_matrix_room_name ''Mum'' sample_portal))) = None"
proof
  have "bridge_room_name ''line2-+15551234567'' = ''+15551234567 (line2)''" by code_simp
  moreover have "po_id sample_portal = ''line2-+15551234567''" "\<not> po_named_by_user sample_portal"
    by (simp_all add: sample_portal_def)
  ultimately show "ci_name (get_chat_info True sample_portal) = Some ''+15551234567 (line2)''"
    using user_name_is_kept [of True sample_portal "[]"] by simp
  show "ci_name (get_chat_info True (fst (handle_matrix_room_name ''Mum'' sample_portal))) = None"
    using user_name_is_kept [of True sample_portal "''Mum''"] by simp
qed

theorem line_parent_settles_witness:
  "let r = line_parent all_well ''line2-space'' sample_portal no_spaces in
     po_in_space (fst (snd r)) \<and> (''!space:b'', ''!room:b'') \<in> ss_children (snd (snd r))"
proof -
  obtain c p st where e: "line_parent all_well ''line2-space'' sample_portal no_spaces = (c, p, st)"
    by (metis prod_cases3)
  have "linked sample_portal no_spaces" by (simp add: linked_def sample_portal_def)
  from line_parent_settles [OF this _ e]
  have "po_in_space p" "ss_rooms st (''line2-space'', ''@a:b'') \<noteq> []"
    "(ss_rooms st (''line2-space'', ''@a:b''), ''!room:b'') \<in> ss_children st"
    by (auto simp: all_well_def sample_portal_def)
  moreover have "ss_rooms st (''line2-space'', ''@a:b'') = ''!space:b''"
    using e [symmetric]
    by (simp add: line_parent_def Let_def all_well_def sample_portal_def no_spaces_def link_to_parent_def set_space_child_def)
  ultimately show ?thesis by (simp add: e)
qed

end
