(* ===== verification/Dial_Room.thy ===== *)
theory Dial_Room
  imports Subsystem Logins Rooms
begin

section \<open>The call command and the dial room (\<open>pkg/connector/commands.go\<close>, \<open>dialroom.go\<close>)\<close>

text \<open>
  How a typed command is read, what it does, and how it is answered: every reply of the code is a
  constructor with the values it is filled with.  Placing the call is the call subsystem's; the
  room that opens for a number, and bridgev2's own messages, are arguments.
\<close>

subsection \<open>Reading\<close>

definition normalizes :: "string \<Rightarrow> bool" where
  "normalizes s = (case normalize s of Inl _ \<Rightarrow> False | Inr _ \<Rightarrow> True)"

definition split_dial_args :: "string \<Rightarrow> string \<times> string" where
  "split_dial_args raw =
     (let words = fields_of raw; joined = concat words in
      if normalizes joined \<or> length words < 2 then (joined, [])
      else (concat (butlast words), last words))"

text \<open>\<open>strings.ToLower\<close> as far as the four words go: besides the ASCII letters, the only rune that
  lowers to a letter of theirs is U+0130, a dotted capital I.\<close>

definition lower :: "string \<Rightarrow> string" where
  "lower s = map ascii_lower (replace_all s [CHR 0xC4, CHR 0xB0] ''i'')"

fun index_space :: "string \<Rightarrow> string \<Rightarrow> string \<times> string" where
  "index_space acc [] = (rev acc, [])"
| "index_space acc (c # cs) = (if leading_space (c # cs) > 0 then (rev acc, c # cs) else index_space (c # acc) cs)"

definition call_words :: "string list" where
  "call_words = [''call'', ''dial'', ''!call'', ''!dial'']"

definition dial_room_command :: "string \<Rightarrow> string option" where
  "dial_room_command text_body =
     (case index_space [] text_body of
        (first, rest) \<Rightarrow> if lower first \<in> set call_words then Some (trim_space rest) else None)"

subsection \<open>Placing the call\<close>

datatype dial_failure = NumberFailed number_error | RoomFailed | DialFailed dial_error

record room_call =
  rc_portal :: string
  rc_room :: string

text \<open>\<open>DialNumber\<close>: \<open>room\<close> is the caller's room for a portal and its owner.\<close>

definition dial_number :: "call_config \<Rightarrow> dial_env \<Rightarrow> bool \<Rightarrow> string list option \<Rightarrow> (string \<Rightarrow> (string \<times> string) option)
    \<Rightarrow> string \<Rightarrow> string \<Rightarrow> string \<Rightarrow> subsys \<Rightarrow> subsys \<times> (dial_failure + call)" where
  "dial_number cfg env lookup_ok existing room number line caller st =
     (case dial_portal_id number line existing of
        Inl e \<Rightarrow> (st, Inl (NumberFailed e))
      | Inr pid \<Rightarrow>
          (case room pid of
             None \<Rightarrow> (st, Inl RoomFailed)
           | Some r \<Rightarrow>
               (case dial_command cfg env lookup_ok pid r caller st of
                  (st', Inl e) \<Rightarrow> (st', Inl (DialFailed e))
                | (st', Inr c) \<Rightarrow> (st', Inr c))))"

datatype dial_reply =
    Usage
  | NotPermitted
  | LoginFailed
  | SayWhichLine string "string list"
  | UnusableLine string
  | UnusableNumber string phone_error
  | CallFailed string
  | Calling string string string

text \<open>\<open>runDial\<close> after the login: the reply to what dialling gave.\<close>

definition reply_to_dial :: "string \<Rightarrow> string \<Rightarrow> dial_failure + call \<Rightarrow> dial_reply" where
  "reply_to_dial number line r =
     (case r of
        Inl (NumberFailed (Ambiguous ls)) \<Rightarrow>
          SayWhichLine (case normalize number of Inr n \<Rightarrow> n | Inl _ \<Rightarrow> []) ls
      | Inl (NumberFailed (NumberInvalid ErrBadLine)) \<Rightarrow> UnusableLine line
      | Inl (NumberFailed (NumberInvalid e)) \<Rightarrow> UnusableNumber number e
      | Inl _ \<Rightarrow> CallFailed line
      | Inr c \<Rightarrow> Calling (number_from_id (c_portal c)) (line_from_id (c_portal c)) (c_room c))"

definition run_dial :: "(string \<Rightarrow> login_store \<Rightarrow> (login_error + string) \<times> login_store)
    \<Rightarrow> (string \<Rightarrow> string \<Rightarrow> subsys \<Rightarrow> subsys \<times> (dial_failure + call)) \<Rightarrow> string \<Rightarrow> string \<Rightarrow> string
    \<Rightarrow> login_store \<times> subsys \<Rightarrow> (login_store \<times> subsys) \<times> dial_reply" where
  "run_dial login place user raw dial_line st =
     (if trim_space raw = [] then (st, Usage)
      else
        let (number, said) = split_dial_args raw;
            line = (if said = [] then dial_line else said) in
        case login user (fst st) of
          (Inl ErrRecipientRefused, ls) \<Rightarrow> ((ls, snd st), NotPermitted)
        | (Inl _, ls) \<Rightarrow> ((ls, snd st), LoginFailed)
        | (Inr _, ls) \<Rightarrow>
            (case place number line (snd st) of (s, r) \<Rightarrow> ((ls, s), reply_to_dial number line r)))"

subsection \<open>The dial room\<close>

datatype room_reply =
    CommandReply dial_reply
  | TypedUnusable string phone_error
  | RoomNotOpened string
  | RoomOpened string string string

text \<open>\<open>handleDialRoomMessage\<close>, up to sending the notice: \<open>open_portal\<close> gives the room of a portal.\<close>

definition handle_dial_room_message :: "(string \<Rightarrow> login_store \<Rightarrow> (login_error + string) \<times> login_store)
    \<Rightarrow> (string \<Rightarrow> string \<Rightarrow> subsys \<Rightarrow> subsys \<times> (dial_failure + call)) \<Rightarrow> (string \<Rightarrow> string option)
    \<Rightarrow> string \<Rightarrow> string \<Rightarrow> string \<Rightarrow> login_store \<times> subsys \<Rightarrow> (login_store \<times> subsys) \<times> room_reply" where
  "handle_dial_room_message login place open_portal user line text_body st =
     (let typed = trim_space text_body in
      case dial_room_command typed of
        Some args \<Rightarrow>
          (case run_dial login place user args line st of (st', r) \<Rightarrow> (st', CommandReply r))
      | None \<Rightarrow>
          (st,
           case id_for line typed of
             Inl e \<Rightarrow> TypedUnusable typed e
           | Inr pid \<Rightarrow>
               (case open_portal pid of
                  None \<Rightarrow> RoomNotOpened (portal_name pid)
                | Some room \<Rightarrow> RoomOpened (portal_name pid) room (number_from_id pid))))"

subsection \<open>Numbers as they are typed\<close>

definition number_char :: "char \<Rightarrow> bool" where
  "number_char c = (is_digit c \<or> c \<in> set ''+-.()/'')"

definition number_word :: "string \<Rightarrow> bool" where
  "number_word w = (w \<noteq> [] \<and> list_all number_char w)"

lemma number_char_plain:
  "number_char c \<Longrightarrow> c \<notin> space_bytes \<and> c \<notin> set '';>@<'' \<and> c \<noteq> CHR '':''"
  by (auto simp: number_char_def is_digit_def space_bytes_def space_runes_def)

lemma number_word_word: "number_word w \<Longrightarrow> word w"
  using number_char_plain by (fastforce simp: number_word_def word_def list_all_iff)

lemma line_word: "line_name l \<Longrightarrow> word l"
proof -
  assume l: "line_name l"
  have "c \<notin> space_bytes" if "line_char c" for c
    using that by (auto simp: line_char_def is_alnum_def is_digit_def space_bytes_def space_runes_def)
  moreover have "list_all line_char l" "l \<noteq> []" using l by (cases l; simp add: line_char_def)+
  ultimately show "word l" by (auto simp: word_def list_all_iff)
qed

lemma ascii_lower_colon: "ascii_lower CHR '':'' = CHR '':''"
  by code_simp

lemma colon_lower: "ascii_lower c = CHR '':'' \<Longrightarrow> c = CHR '':''"
  by (auto simp: ascii_lower_def Let_def split: if_splits dest: arg_cong [where f = "of_char :: char \<Rightarrow> nat"])

text \<open>A text without the characters of URIs is its own user part.\<close>

lemma strip_uri_no_uri:
  assumes "set s \<inter> set '';>@<:'' = {}"
  shows "strip_uri s = s"
proof -
  have "\<not> has_scheme s (w @ '':'')" for w
  proof
    assume h: "has_scheme s (w @ '':'')"
    then have "map ascii_lower (take (Suc (length w)) s) = map ascii_lower w @ '':''"
      by (simp add: has_scheme_def equal_fold_def ascii_lower_colon)
    then have "CHR '':'' \<in> ascii_lower ` set (take (Suc (length w)) s)"
      by (metis in_set_conv_decomp list.set_map)
    then have "CHR '':'' \<in> set (take (Suc (length w)) s)" using colon_lower by (metis imageE)
    then show False using assms in_set_takeD [of "CHR '':''" _ s] by auto
  qed
  from this [of "''tel''"] this [of "''sips''"] this [of "''sip''"]
  have "strip_scheme s = s" by (simp add: strip_scheme_def)
  moreover have "trim_prefix s ''<'' = s" using assms by (cases s) (auto simp: trim_prefix_def)
  moreover have "set s \<inter> set '';>'' = {}" "set s \<inter> set ''@'' = {}" using assms by auto
  ultimately show ?thesis
    by (simp add: strip_uri_def split_uri_def before_any_none Let_def)
qed

lemma scan_filtered:
  "i \<noteq> 0 \<Longrightarrow> j \<noteq> 0
   \<Longrightarrow> scan_number i pl b xs = scan_number j pl b (filter (\<lambda>c. c \<notin> set separators) xs)"
proof (induction xs arbitrary: i j b pl)
  case (Cons c xs)
  have sep: "c \<in> set separators \<Longrightarrow> c \<noteq> CHR ''+'' \<and> \<not> is_digit c"
    by (auto simp: separators_def is_digit_def)
  show ?case
    using sep Cons.IH [of "Suc i" j pl b] Cons.IH [of "Suc i" "Suc j" pl "b @ [c]"] Cons.prems
    by auto
qed simp

lemma scan_later:
  assumes "filter (\<lambda>c. c \<notin> set separators) xs = filter (\<lambda>c. c \<notin> set separators) ys"
  shows "scan_number 0 pl b (c # xs) = scan_number 0 pl b (c # ys)"
  using scan_filtered [of 1 1 _ _ xs] scan_filtered [of 1 1 _ _ ys] assms by simp

lemma scan_stranger:
  "c \<in> set s \<Longrightarrow> c \<noteq> CHR ''+'' \<Longrightarrow> \<not> is_digit c \<Longrightarrow> c \<notin> set separators \<Longrightarrow> \<exists>e. scan_number i pl b s = Inl e"
  by (induction s arbitrary: i pl b) auto

lemma join_words:
  "ns \<noteq> [] \<Longrightarrow> list_all number_word ns \<Longrightarrow> \<exists>c xs ys. join '' '' ns = c # xs \<and> concat ns = c # ys
     \<and> filter (\<lambda>c. c \<notin> set separators) xs = filter (\<lambda>c. c \<notin> set separators) ys
     \<and> number_char c \<and> set xs \<subseteq> insert (CHR '' '') {c. number_char c} \<and> set ys \<subseteq> {c. number_char c}
     \<and> number_char (last (c # xs)) \<and> number_char (last (c # ys))"
proof (induction ns)
  case (Cons w ws)
  then obtain c v where w: "w = c # v" "number_char c" "list_all number_char v"
    by (cases w) (auto simp: number_word_def)
  show ?case
  proof (cases ws)
    case Nil
    then show ?thesis using w by (auto simp: list_all_iff)
  next
    case (Cons u us)
    then obtain d xs ys where IH: "join '' '' ws = d # xs" "concat ws = d # ys"
      "filter (\<lambda>c. c \<notin> set separators) xs = filter (\<lambda>c. c \<notin> set separators) ys"
      "number_char d" "set xs \<subseteq> insert (CHR '' '') {c. number_char c}" "set ys \<subseteq> {c. number_char c}"
      "number_char (last (d # xs))" "number_char (last (d # ys))"
      using Cons.IH Cons.prems by auto
    have "join '' '' (w # ws) = c # (v @ '' '' @ d # xs)" "concat (w # ws) = c # (v @ d # ys)"
      using IH(1,2) w(1) Cons by auto
    moreover have "CHR '' '' \<in> set separators" by (simp add: separators_def)
    ultimately show ?thesis using w IH(3-8) by (auto simp: list_all_iff)
  qed
qed simp

text \<open>Blanks between the words of a number do not change what it normalises to.\<close>

lemma normalize_joined:
  assumes "ns \<noteq> []" "list_all number_word ns"
  shows "normalize (join '' '' ns) = normalize (concat ns)"
proof -
  obtain c xs ys where j: "join '' '' ns = c # xs" "concat ns = c # ys"
      "filter (\<lambda>c. c \<notin> set separators) xs = filter (\<lambda>c. c \<notin> set separators) ys"
      "number_char c" "set xs \<subseteq> insert (CHR '' '') {c. number_char c}" "set ys \<subseteq> {c. number_char c}"
      "number_char (last (c # xs))" "number_char (last (c # ys))"
    using join_words [OF assms] by blast
  have t: "trim_space (c # xs) = c # xs" "trim_space (c # ys) = c # ys"
    using j(4,7,8) number_char_plain by (auto intro!: trim_space_id)
  have plain: "set (c # zs) \<inter> set '';>@<:'' = {}" if "set zs \<subseteq> insert (CHR '' '') {c. number_char c}" for zs
    using that j(4) number_char_plain by fastforce
  have "strip_uri (c # xs) = c # xs" "strip_uri (c # ys) = c # ys"
    using strip_uri_no_uri [OF plain [OF j(5)]] strip_uri_no_uri [OF plain [OF subset_insertI2 [OF j(6)]]] .
  then show ?thesis
    unfolding j(1,2) normalize_def t Let_def using scan_later [OF j(3)] by simp
qed

subsection \<open>Properties\<close>

definition has_letter :: "string \<Rightarrow> bool" where
  "has_letter l = list_ex (\<lambda>c. c \<noteq> CHR ''+'' \<and> \<not> is_digit c \<and> c \<notin> set separators) l"

lemma line_then_unusable:
  assumes "ns \<noteq> []" "list_all number_word ns" "line_name l" "has_letter l"
  shows "\<not> normalizes (concat ns @ l)"
proof -
  let ?s = "concat ns @ l"
  have n: "number_char c" if "c \<in> set (concat ns)" for c
    using that assms(2) by (auto simp: list_all_iff number_word_def)
  have l: "list_all line_char l" "l \<noteq> []" using assms(3) by (cases l; simp add: line_char_def)+
  have lc: "c \<notin> space_bytes \<and> c \<notin> set '';>@<:''" if "c \<in> set l" for c
    using that l(1) by (auto simp: list_all_iff line_char_def is_alnum_def is_digit_def space_bytes_def space_runes_def)
  have plain: "set ?s \<inter> set '';>@<:'' = {}"
    using n number_char_plain lc by fastforce
  have sp: "set ?s \<inter> space_bytes = {}"
    using n number_char_plain lc by fastforce
  obtain c where "c \<in> set ?s" "c \<noteq> CHR ''+''" "\<not> is_digit c" "c \<notin> set separators"
    using assms(4) by (auto simp: has_letter_def list_ex_iff)
  then obtain e where "scan_number 0 False [] ?s = Inl e" using scan_stranger by blast
  then show ?thesis
    by (simp add: normalizes_def normalize_def trim_space_clean [OF sp] strip_uri_no_uri [OF plain] l(2))
qed

text \<open>A number typed in groups is read as one number, and a line after it as the line, whenever
  the line's name has a letter or an underscore.\<close>

theorem dial_args_are_read:
  assumes "ns \<noteq> []" "list_all number_word ns"
  shows "(normalizes (concat ns) \<longrightarrow> split_dial_args (join '' '' ns) = (concat ns, []))
    \<and> (line_name l \<and> has_letter l \<longrightarrow> split_dial_args (join '' '' (ns @ [l])) = (concat ns, l))"
proof -
  have w: "list_all word ns" using assms(2) number_word_word by (auto simp: list_all_iff)
  have "fields_of (join '' '' ns) = ns" using fields_join [OF w] .
  moreover have "fields_of (join '' '' (ns @ [l])) = ns @ [l]" if "line_name l"
    using fields_join [of "ns @ [l]"] w line_word [OF that] by simp
  moreover have "length (ns @ [l]) \<ge> 2" using assms(1) by (cases ns) auto
  ultimately show ?thesis
    using line_then_unusable [OF assms] assms(1) by (simp add: split_dial_args_def Let_def)
qed

theorem dial_args_are_read_witness:
  "split_dial_args ''+1 555 1234567 home'' = (''+15551234567'', ''home'')"
  using dial_args_are_read [of "[''+1'', ''555'', ''1234567'']" "''home''"]
  by (simp add: number_word_def number_char_def is_digit_def has_letter_def separators_def is_alnum_def line_char_def)

text \<open>A SIP URI with a line after it is one number to the parser: the line becomes part of the
  host, and the call goes to the number's line-less room instead of the room on the line.\<close>

theorem uri_swallows_the_line:
  "split_dial_args ''sip:+15551234567@pbx home'' = (''sip:+15551234567@pbxhome'', [])
   \<and> dial_portal_id ''sip:+15551234567@pbxhome'' [] (Some []) = Inr ''15551234567''
   \<and> dial_portal_id ''sip:+15551234567@pbx'' ''home'' (Some []) = Inr ''home-+15551234567''"
  by (intro conjI) code_simp+

lemma dial_room_number:
  assumes "ns \<noteq> []" "list_all number_word ns"
  shows "trim_space (join '' '' ns) = join '' '' ns \<and> dial_room_command (join '' '' ns) = None"
proof -
  obtain c xs where j: "join '' '' ns = c # xs" "number_char c" "number_char (last (c # xs))"
    using join_words [OF assms] by blast
  have t: "trim_space (c # xs) = c # xs"
    using j(2,3) number_char_plain by (auto intro!: trim_space_id)
  have head: "\<exists>b. fst (index_space acc s) = rev acc @ b" for acc s
    by (induction acc s rule: index_space.induct) auto
  have "fst (index_space [] (c # xs)) = fst (index_space [c] xs)"
    using number_char_plain [OF j(2)] by (simp add: leading_space_word)
  then obtain b where b: "fst (index_space [] (c # xs)) = c # b" using head [of "[c]" xs] by auto
  have "c \<noteq> CHR 0xC4" "ascii_lower c = c" "c \<noteq> CHR ''c''" "c \<noteq> CHR ''d''" "c \<noteq> CHR ''!''"
    using j(2) by (auto simp: number_char_def is_digit_def ascii_lower_def Let_def)
  then have "lower (c # b) \<notin> set call_words"
    by (auto simp: lower_def call_words_def replace_all_def)
  moreover obtain rest where "index_space [] (c # xs) = (c # b, rest)" using b by (metis prod.collapse)
  ultimately show ?thesis using t unfolding j(1) dial_room_command_def by simp
qed

lemma call_word_split:
  assumes "ns \<noteq> []" "list_all number_word ns"
  shows "trim_space (''!call '' @ join '' '' ns) = ''!call '' @ join '' '' ns"
    and "dial_room_command (''!call '' @ join '' '' ns) = Some (join '' '' ns)"
proof -
  obtain c xs where j: "join '' '' ns = c # xs" "number_char c" "number_char (last (c # xs))"
    using join_words [OF assms] by blast
  have "last (''!call '' @ c # xs) \<notin> space_bytes" using j(3) number_char_plain by simp
  then show "trim_space (''!call '' @ join '' '' ns) = ''!call '' @ join '' '' ns"
    unfolding j(1) by (intro trim_space_id) (simp_all add: space_bytes_def space_runes_def)
  have l: "leading_space (CHR ''!'' # s) = 0" "leading_space (CHR ''c'' # s) = 0"
      "leading_space (CHR ''a'' # s) = 0" "leading_space (CHR ''l'' # s) = 0" for s
    by (rule leading_space_none, simp add: space_bytes_def space_runes_def)+
  have i: "index_space [] (''!call '' @ c # xs) = (''!call'', CHR '' '' # c # xs)"
    by (simp add: l leading_space_blank)
  have "lower ''!call'' = ''!call''" by code_simp
  moreover have "trim_space (CHR '' '' # c # xs) = c # xs"
  proof -
    have "trim_left (CHR '' '' # c # xs) = trim_left (c # xs)"
      using trim_left.simps [of "CHR '' '' # c # xs"] by (simp add: leading_space_blank Let_def)
    moreover have "trim_space (c # xs) = c # xs"
      using j(2,3) number_char_plain by (auto intro!: trim_space_id)
    ultimately show ?thesis by (simp add: trim_space_def)
  qed
  ultimately show "dial_room_command (''!call '' @ join '' '' ns) = Some (join '' '' ns)"
    unfolding j(1) by (simp only: dial_room_command_def i) (simp add: call_words_def)
qed

text \<open>C36: In a line's dial room, a number typed in groups opens the very portal that \<open>!call\<close> with the
  same number calls: its room on that line, whatever rooms the number has elsewhere.\<close>

theorem dial_room_agrees_with_call:
  assumes "ns \<noteq> []" "list_all number_word ns" "id_for line (concat ns) = Inr pid" "line \<noteq> []"
    and "login user (fst st) = (Inr u, ls)" "open_portal pid = Some room"
  shows "handle_dial_room_message login place open_portal user line (join '' '' ns) st
      = (st, RoomOpened (portal_name pid) room (number_from_id pid))
    \<and> handle_dial_room_message login place open_portal user line (''!call '' @ join '' '' ns) st
      = (let (s, r) = place (concat ns) line (snd st) in ((ls, s), CommandReply (reply_to_dial (concat ns) line r)))
    \<and> dial_portal_id (concat ns) line existing = Inr pid
    \<and> line_from_id pid = line \<and> normalize (concat ns) = Inr (number_from_id pid)"
proof (intro conjI)
  note D = dial_room_number [OF assms(1,2)] and C = call_word_split [OF assms(1,2)]
  have n: "normalize (join '' '' ns) = normalize (concat ns)" using normalize_joined [OF assms(1,2)] .
  have "id_for line (join '' '' ns) = Inr pid" using assms(3) by (simp add: id_for_def n)
  then show "handle_dial_room_message login place open_portal user line (join '' '' ns) st
      = (st, RoomOpened (portal_name pid) room (number_from_id pid))"
    using D assms(6) by (simp add: handle_dial_room_message_def Let_def)
  note F = id_for_reads_back [OF assms(3)]
  then show "line_from_id pid = line" "normalize (concat ns) = Inr (number_from_id pid)" by blast+
  have "normalizes (concat ns)" using F by (simp add: normalizes_def)
  then have split: "split_dial_args (join '' '' ns) = (concat ns, [])"
    using fields_join [of ns] number_word_word assms(2)
    by (simp add: split_dial_args_def Let_def list_all_iff)
  have "join '' '' ns \<noteq> []" using join_words [OF assms(1,2)] by auto
  then show "handle_dial_room_message login place open_portal user line (''!call '' @ join '' '' ns) st
      = (let (s, r) = place (concat ns) line (snd st) in ((ls, s), CommandReply (reply_to_dial (concat ns) line r)))"
    using C D split assms(5)
    by (simp add: handle_dial_room_message_def run_dial_def Let_def split: prod.split)
  show "dial_portal_id (concat ns) line existing = Inr pid"
    using assms(3,4) by (simp add: dial_portal_id_def)
qed

theorem dial_room_agrees_with_call_witness:
  "snd (handle_dial_room_message (\<lambda>u s. (Inr u, s)) (\<lambda>n l s. (s, Inl RoomFailed)) (\<lambda>p. Some ''!r:b'') ''@a:b''
       ''home'' ''+1 555 1234567'' (no_logins, new_subsys))
     = RoomOpened (portal_name ''home-+15551234567'') ''!r:b'' (number_from_id ''home-+15551234567'')"
proof -
  have "id_for ''home'' (concat [''+1'', ''555'', ''1234567'']) = Inr ''home-+15551234567''" by code_simp
  from dial_room_agrees_with_call [OF _ _ this, of "\<lambda>u s. (Inr u, s)" "''@a:b''" "(no_logins, new_subsys)" "''@a:b''" no_logins
      "\<lambda>p. Some ''!r:b''" "''!r:b''" "\<lambda>n l s. (s, Inl RoomFailed)"]
  show ?thesis by (simp add: number_word_def number_char_def is_digit_def)
qed

end
