(* ===== verification/Line_Members.thy ===== *)
theory Line_Members
  imports Logins Rooms
begin

section \<open>Members of lines (\<open>pkg/connector/linemembers.go\<close>, \<open>config.go\<close>)\<close>

text \<open>
  The logins and rooms the members of a line get at the start.  \<open>line_members\<close> is a Go map, here
  the list of its entries in the order a range happens to visit them.
\<close>

type_synonym line_members = "(string \<times> string list) list"

definition member_entry :: "string \<Rightarrow> string \<Rightarrow> string" where
  "member_entry line user = line @ '' '' @ user"

definition member_entries :: "line_members \<Rightarrow> string list" where
  "member_entries ms = remdups_adj (sort (concat (map (\<lambda>(line, users). map (member_entry line) users) ms)))"

definition lines_of :: "line_members \<Rightarrow> string \<Rightarrow> string list" where
  "lines_of ms user = sort (map fst (filter (\<lambda>(line, users). user \<in> set users) ms))"

text \<open>\<open>strings.Cut(entry, " ")\<close>.\<close>

definition cut_entry :: "string \<Rightarrow> string \<times> string" where
  "cut_entry e = (case split_at_sub e '' '' of None \<Rightarrow> (e, []) | Some r \<Rightarrow> r)"

text \<open>The entries of the last start that are gone.\<close>

definition gone_members :: "string \<Rightarrow> string list \<Rightarrow> string list" where
  "gone_members previous current =
     (if previous = [] then [] else filter (\<lambda>e. e \<notin> set current) (split_on (CHR 0x0A) previous))"

definition ensure_member :: "(string \<Rightarrow> bool) \<Rightarrow> (string \<Rightarrow> (string \<times> string) option)
    \<Rightarrow> (string \<Rightarrow> login_answers) \<Rightarrow> string \<Rightarrow> login_store \<Rightarrow> login_store" where
  "ensure_member permitted parse a entry st =
     (case cut_entry entry of
        (line, user) \<Rightarrow>
          (case space_id_for line of
             Inl _ \<Rightarrow> st
           | Inr _ \<Rightarrow> if \<not> is_user_id parse user then st
                     else snd (ensure_login permitted (a entry) id user True st)))"

definition ensure_line_member_logins :: "(string \<Rightarrow> bool) \<Rightarrow> (string \<Rightarrow> (string \<times> string) option)
    \<Rightarrow> (string \<Rightarrow> login_answers) \<Rightarrow> line_members \<Rightarrow> login_store \<Rightarrow> login_store \<times> string" where
  "ensure_line_member_logins permitted parse a ms st =
     (fold (ensure_member permitted parse a) (member_entries ms) st, join [CHR 0x0A] (member_entries ms))"

subsection \<open>Rooms of a line\<close>

text \<open>The rooms by portal key, and the spaces listed in the login's personal space.\<close>

record line_rooms =
  lr_rooms :: "portal_key \<Rightarrow> string"
  lr_listed :: "portal_key set"

record room_answers =
  ra_get :: "string \<Rightarrow> bool"
  ra_create :: "string \<Rightarrow> string option"
  ra_list :: "string \<Rightarrow> bool"

definition ensure_room :: "room_answers \<Rightarrow> string \<Rightarrow> string \<Rightarrow> line_rooms \<Rightarrow> line_rooms \<times> bool" where
  "ensure_room a recv pid st =
     (if \<not> ra_get a pid then (st, False)
      else if lr_rooms st (pid, recv) \<noteq> [] then (st, True)
      else (case ra_create a pid of
          None \<Rightarrow> (st, False)
        | Some room \<Rightarrow> (st\<lparr>lr_rooms := (lr_rooms st)((pid, recv) := room)\<rparr>, True)))"

definition list_in_personal_space :: "room_answers \<Rightarrow> string \<Rightarrow> string \<Rightarrow> line_rooms \<Rightarrow> line_rooms \<times> bool" where
  "list_in_personal_space a recv pid st =
     (if (pid, recv) \<in> lr_listed st then (st, True)
      else if ra_list a pid then (st\<lparr>lr_listed := insert (pid, recv) (lr_listed st)\<rparr>, True)
      else (st, False))"

definition ensure_dial_room :: "room_answers \<Rightarrow> string \<Rightarrow> string \<Rightarrow> line_rooms \<Rightarrow> line_rooms" where
  "ensure_dial_room a recv line st =
     (case dial_id_for line of Inl _ \<Rightarrow> st | Inr dial \<Rightarrow> fst (ensure_room a recv dial st))"

definition ensure_line_room :: "room_answers \<Rightarrow> bool \<Rightarrow> string \<Rightarrow> string \<Rightarrow> line_rooms \<Rightarrow> line_rooms" where
  "ensure_line_room a line_spaces recv line st =
     (if line_spaces then
        (case space_id_for line of
           Inl _ \<Rightarrow> st
         | Inr space \<Rightarrow>
             (case ensure_room a recv space st of
                (st1, False) \<Rightarrow> st1
              | (st1, True) \<Rightarrow>
                  (case list_in_personal_space a recv space st1 of
                     (st2, False) \<Rightarrow> st2
                   | (st2, True) \<Rightarrow> ensure_dial_room a recv line st2)))
      else ensure_dial_room a recv line st)"

definition ensure_line_rooms :: "room_answers \<Rightarrow> bool \<Rightarrow> line_members \<Rightarrow> string \<Rightarrow> string \<Rightarrow> line_rooms \<Rightarrow> line_rooms" where
  "ensure_line_rooms a line_spaces ms login user st =
     (if login = legacy_login_id then st
      else fold (ensure_line_room a line_spaces login) (lines_of ms user) st)"

subsection \<open>Properties\<close>

lemma set_member_entries:
  "set (member_entries ms) = {member_entry line u | line u us. (line, us) \<in> set ms \<and> u \<in> set us}"
  by (fastforce simp: member_entries_def)

lemma line_no_space: "line_name line \<Longrightarrow> CHR '' '' \<notin> set line"
  by (cases line) (auto simp: list_all_iff line_char_def is_alnum_def is_digit_def)

lemma split_at_space: "CHR '' '' \<notin> set l \<Longrightarrow> split_at_sub (l @ CHR '' '' # u) '' '' = Some (l, u)"
  by (induction l) auto

lemma cut_member_entry: "line_name line \<Longrightarrow> cut_entry (member_entry line u) = (line, u)"
  using split_at_space [OF line_no_space] by (simp add: cut_entry_def member_entry_def)

lemma cut_entry_inv: "cut_entry e = (line, u) \<Longrightarrow> u \<noteq> [] \<Longrightarrow> e = member_entry line u"
  by (auto simp: cut_entry_def member_entry_def split: option.splits dest: split_at_sub_Some)

lemma space_id_for_Inr: "(\<exists>s. space_id_for line = Inr s) \<longleftrightarrow> line_name line"
  by (auto simp: space_id_for_def line_room_id_def)

definition entry_admits :: "(string \<Rightarrow> bool) \<Rightarrow> (string \<Rightarrow> (string \<times> string) option) \<Rightarrow> string \<Rightarrow> string \<Rightarrow> bool" where
  "entry_admits permitted parse e u =
     (permitted u \<and> is_user_id parse u \<and> snd (cut_entry e) = u \<and> line_name (fst (cut_entry e)))"

lemma ensure_member_logins:
  "set (ls_logins st) \<subseteq> set (ls_logins (ensure_member permitted parse a e st))
   \<and> (\<forall>u \<in> set (ls_logins (ensure_member permitted parse a e st)).
        u \<in> set (ls_logins st) \<or> entry_admits permitted parse e u)
   \<and> (\<forall>u. a e = answering \<and> entry_admits permitted parse e u
        \<longrightarrow> u \<in> set (ls_logins (ensure_member permitted parse a e st)))"
  using space_id_for_Inr [of "fst (cut_entry e)"]
  by (auto simp: ensure_member_def entry_admits_def ensure_login_def ensure_locked_def add_user_def
      login_id_for_def answering_def Let_def split: prod.splits sum.splits)

lemma ensure_members_logins:
  "set (ls_logins st) \<subseteq> set (ls_logins (fold (ensure_member permitted parse a) es st))
   \<and> (\<forall>u \<in> set (ls_logins (fold (ensure_member permitted parse a) es st)).
        u \<in> set (ls_logins st) \<or> (\<exists>e \<in> set es. entry_admits permitted parse e u))
   \<and> (\<forall>e \<in> set es. \<forall>u. a e = answering \<and> entry_admits permitted parse e u
        \<longrightarrow> u \<in> set (ls_logins (fold (ensure_member permitted parse a) es st)))"
proof (induction es arbitrary: st)
  case (Cons e es)
  let ?st = "ensure_member permitted parse a e st"
  show ?case using Cons [of ?st] ensure_member_logins [of st permitted parse a e]
    by (simp, blast)
qed simp

text \<open>Every permitted Matrix user listed under a usable line has a login after the start, however
  the map is ranged over and whatever the other entries are, and nobody else gets one.\<close>

theorem members_get_logins:
  assumes "\<And>e. a e = answering" "\<not> is_user_id parse []"
  shows "set (ls_logins (fst (ensure_line_member_logins permitted parse a ms st))) =
    set (ls_logins st) \<union> {u. permitted u \<and> is_user_id parse u
       \<and> (\<exists>line. line_name line \<and> member_entry line u \<in> set (member_entries ms))}"
proof -
  have "(\<exists>e \<in> set (member_entries ms). entry_admits permitted parse e u) \<longleftrightarrow>
      permitted u \<and> is_user_id parse u \<and> (\<exists>line. line_name line \<and> member_entry line u \<in> set (member_entries ms))" for u
  proof
    assume "\<exists>e \<in> set (member_entries ms). entry_admits permitted parse e u"
    then obtain e where e: "e \<in> set (member_entries ms)" "permitted u" "is_user_id parse u"
        "cut_entry e = (fst (cut_entry e), u)" "line_name (fst (cut_entry e))"
      by (auto simp: entry_admits_def prod_eq_iff)
    have "u \<noteq> []" using e(3) assms(2) by auto
    then have "e = member_entry (fst (cut_entry e)) u" using cut_entry_inv e(4) by blast
    then show "permitted u \<and> is_user_id parse u
        \<and> (\<exists>line. line_name line \<and> member_entry line u \<in> set (member_entries ms))"
      using e(1,2,3,5) by (intro conjI exI [of _ "fst (cut_entry e)"]) simp_all
  next
    assume "permitted u \<and> is_user_id parse u
        \<and> (\<exists>line. line_name line \<and> member_entry line u \<in> set (member_entries ms))"
    then obtain line where "permitted u" "is_user_id parse u" "line_name line"
        "member_entry line u \<in> set (member_entries ms)" by blast
    moreover from this have "entry_admits permitted parse (member_entry line u) u"
      by (simp add: entry_admits_def cut_member_entry)
    ultimately show "\<exists>e \<in> set (member_entries ms). entry_admits permitted parse e u" by blast
  qed
  moreover have "u \<in> set (ls_logins (fst (ensure_line_member_logins permitted parse a ms st))) \<longleftrightarrow>
      u \<in> set (ls_logins st) \<or> (\<exists>e \<in> set (member_entries ms). entry_admits permitted parse e u)" for u
    using ensure_members_logins [of st permitted parse a "member_entries ms"] assms(1)
    unfolding ensure_line_member_logins_def fst_conv by blast
  ultimately show ?thesis by (simp add: set_eq_iff)
qed

theorem members_get_logins_witness:
  "set (ls_logins (fst (ensure_line_member_logins (\<lambda>_. True) sample_parse (\<lambda>_. answering)
      [(''line2'', [''@a:b''])] no_logins))) = {''@a:b''}"
proof -
  have e: "set (member_entries [(''line2'', [''@a:b''])]) = {''line2 @a:b''}"
    by (simp add: member_entries_def member_entry_def)
  have u: "is_user_id sample_parse u \<longleftrightarrow> u = ''@a:b''" for u
    by (simp add: is_user_id_def sample_parse_def)
  have "line_name ''line2''" by code_simp
  then have "(\<exists>line. line_name line \<and> member_entry line ''@a:b'' \<in> {''line2 @a:b''})"
    by (intro exI [of _ "''line2''"]) (simp add: member_entry_def)
  then have "{u. True \<and> u = ''@a:b'' \<and> (\<exists>line. line_name line \<and> member_entry line u \<in> {''line2 @a:b''})}
      = {''@a:b''}" by blast
  then show ?thesis
    using members_get_logins [of "\<lambda>_. answering" sample_parse "\<lambda>_. True" "[(''line2'', [''@a:b''])]" no_logins]
    unfolding u e by (simp add: no_logins_def)
qed

lemma sorted_remdups_adj_strict: "sorted xs \<Longrightarrow> sorted_wrt (<) (remdups_adj (xs :: 'a :: linorder list))"
proof (induction xs rule: remdups_adj.induct)
  case (3 x y xs)
  then show ?case by (auto simp: less_le)
qed simp_all

text \<open>The entries kept for the next start do not depend on the order the map was ranged over,
  and are in order, each once.\<close>

theorem member_entries_canonical:
  assumes "set ms = set ms'"
  shows "member_entries ms = member_entries ms' \<and> sorted (member_entries ms) \<and> distinct (member_entries ms)"
proof -
  have sd: "sorted (member_entries m) \<and> distinct (member_entries m)" for m
    using sorted_remdups_adj_strict [of "sort (concat (map (\<lambda>(line, users). map (member_entry line) users) m))"]
    by (simp add: member_entries_def strict_sorted_iff)
  moreover have "set (member_entries ms) = set (member_entries ms')"
    using assms by (simp add: set_member_entries)
  ultimately show ?thesis using sorted_distinct_set_unique by blast
qed

theorem member_entries_canonical_witness:
  "member_entries [(''b'', [''@x:y'']), (''a'', [''@x:y'', ''@x:y''])]
     = member_entries [(''a'', [''@x:y'', ''@x:y'']), (''b'', [''@x:y''])]"
  using member_entries_canonical [of "[(''b'', [''@x:y'']), (''a'', [''@x:y'', ''@x:y''])]"
      "[(''a'', [''@x:y'', ''@x:y'']), (''b'', [''@x:y''])]"] by auto

end
