(* ===== verification/Callaudit.thy ===== *)
theory Callaudit
  imports Prelude
begin

section \<open>The call audit (\<open>pkg/callaudit/callaudit.go\<close>, \<open>cmd/callaudit/main.go\<close>)\<close>

text \<open>
  The verdict on a finished call, the reading of a log line and of a log, and the exit status of a
  run.  The JSON decoder is a parameter: it is handed a text and returns the payload of the object
  at its start.  The log is a byte string and whether reading it ended in an error; \<open>bufio.Scanner\<close>
  is modelled with the line length the code sets.  Prometheus is left out but for its labels.
\<close>

subsection \<open>Verdicts\<close>

definition log_marker :: string where "log_marker = ''call statistics''"

definition direction_names :: "string list" where
  "direction_names = [''inbound'', ''outbound'', ''unknown'']"

definition audit_direction :: "string \<Rightarrow> string" where
  "audit_direction v = (if v = ''inbound'' \<or> v = ''outbound'' then v else ''unknown'')"

definition verdicts :: "string list" where
  "verdicts = [''both'', ''sip_only'', ''matrix_only'', ''none'', ''too_short'']"

definition default_min_packets :: int where "default_min_packets = 25"

record call_stats =
  cs_direction :: string
  cs_call_id :: string
  cs_sip_audio :: int
  cs_room_input :: int
  cs_subscribes :: int
  cs_published :: int

text \<open>The sum is one of \<open>int64\<close>, so it wraps.\<close>

definition audio :: "call_stats \<Rightarrow> int \<Rightarrow> string" where
  "audio s min_packets =
     (let m = (if min_packets < 1 then 1 else min_packets) in
      if i64 (i64 (cs_sip_audio s + cs_room_input s) + cs_published s) < m then ''too_short''
      else if cs_sip_audio s > 0 \<and> cs_room_input s > 0 then ''both''
      else if cs_sip_audio s > 0 then ''sip_only''
      else if cs_room_input s > 0 then ''matrix_only''
      else ''none'')"

definition summary :: "call_stats \<Rightarrow> int \<Rightarrow> string" where
  "summary s m =
     ''call='' @ cs_call_id s @ '' direction='' @ cs_direction s @ '' audio='' @ audio s m
     @ '' subs='' @ show_int (cs_subscribes s) @ '' room_in='' @ show_int (cs_room_input s)
     @ '' sip_audio='' @ show_int (cs_sip_audio s) @ '' published='' @ show_int (cs_published s)"

subsection \<open>Lines\<close>

record room_stats =
  rs_input :: int
  rs_subscribes :: int
  rs_published :: int

record payload =
  pl_msg :: string
  pl_direction :: string
  pl_call_id :: string
  pl_stats :: "(int option \<times> room_stats option) option"

datatype line_result = NotOurs | Malformed | Parsed_Stats call_stats

definition stats_of :: "payload \<Rightarrow> line_result" where
  "stats_of p =
     (case pl_stats p of
        Some (Some port, Some room) \<Rightarrow>
          Parsed_Stats \<lparr>cs_direction = audit_direction (pl_direction p), cs_call_id = pl_call_id p,
            cs_sip_audio = port, cs_room_input = rs_input room, cs_subscribes = rs_subscribes room,
            cs_published = rs_published room\<rparr>
      | _ \<Rightarrow> Malformed)"

definition parse_line :: "(string \<Rightarrow> payload option) \<Rightarrow> string \<Rightarrow> line_result" where
  "parse_line decode line =
     (let trimmed = trim_space line in
      if has_prefix trimmed ''{''
      then (case decode trimmed of
              None \<Rightarrow> NotOurs
            | Some p \<Rightarrow> if pl_msg p \<noteq> log_marker then NotOurs else stats_of p)
      else (case split_at_sub trimmed log_marker of
              None \<Rightarrow> NotOurs
            | Some (_, rest) \<Rightarrow>
                (case split_at_sub (log_marker @ rest) ''{'' of
                   None \<Rightarrow> Malformed
                 | Some (_, obj) \<Rightarrow>
                     (case decode (CHR ''{'' # obj) of None \<Rightarrow> Malformed | Some p \<Rightarrow> stats_of p))))"

text \<open>\<open>bufio.ScanLines\<close>: lines end in a newline, the last one need not; a carriage return at the
  end of a line is dropped.\<close>

definition max_line :: nat where "max_line = 1024 * 1024"

definition raw_lines :: "string \<Rightarrow> string list" where
  "raw_lines s = (let ls = split_on (CHR 0x0A) s in if last ls = [] then butlast ls else ls)"

definition drop_cr :: "string \<Rightarrow> string" where
  "drop_cr l = (if l \<noteq> [] \<and> last l = CHR 0x0D then butlast l else l)"

text \<open>A line that does not fit the buffer, its newline included, ends the scan with an error.\<close>

definition read_lines :: "string list \<Rightarrow> string list \<times> bool" where
  "read_lines ls =
     (map drop_cr (takeWhile (\<lambda>l. length l < max_line) ls), list_all (\<lambda>l. length l < max_line) ls)"

fun scan_parsed :: "(string \<Rightarrow> payload option) \<Rightarrow> string list \<Rightarrow> call_stats list \<times> nat" where
  "scan_parsed decode [] = ([], 0)"
| "scan_parsed decode (l # ls) =
     (let (ss, bad) = scan_parsed decode ls in
      case parse_line decode l of
        NotOurs \<Rightarrow> (ss, bad)
      | Malformed \<Rightarrow> (ss, bad + 1)
      | Parsed_Stats s \<Rightarrow> (s # ss, bad))"

text \<open>\<open>Scan\<close>: the calls, the number of unreadable lines, and whether it ended without an error.\<close>

definition audit_scan :: "(string \<Rightarrow> payload option) \<Rightarrow> string \<times> bool \<Rightarrow> call_stats list \<times> nat \<times> bool" where
  "audit_scan decode input =
     (let (ls, fits) = read_lines (raw_lines (fst input));
          (ss, bad) = scan_parsed decode ls in
      (ss, bad, fits \<and> snd input))"

subsection \<open>A run\<close>

record audit_options =
  ao_min_packets :: int
  ao_require_calls :: int
  ao_fail_on :: "string list"
  ao_quiet :: bool

definition split_verdicts :: "string \<Rightarrow> string list" where
  "split_verdicts s = filter (\<lambda>v. v \<noteq> []) (map trim_space (split_on (CHR '','') s))"

definition default_fail_on :: string where
  "default_fail_on = ''sip_only,matrix_only,none''"

definition options_valid :: "audit_options \<Rightarrow> bool" where
  "options_valid o' =
     (1 \<le> ao_min_packets o' \<and> 0 \<le> ao_require_calls o' \<and> list_all (\<lambda>v. v \<in> set verdicts) (ao_fail_on o'))"

definition count_of :: "call_stats list \<Rightarrow> int \<Rightarrow> string \<Rightarrow> nat" where
  "count_of ss m v = length (filter (\<lambda>s. audio s m = v) ss)"

text \<open>The text written to standard output.\<close>

definition totals_line :: "call_stats list \<Rightarrow> int \<Rightarrow> nat \<Rightarrow> string" where
  "totals_line ss m bad =
     (let parts = sort (map (\<lambda>v. v @ ''='' @ dec (count_of ss m v)) (remdups (map (\<lambda>s. audio s m) ss))) in
      dec (length ss) @ '' call(s)'' @ (if parts = [] then [] else '': '' @ join '' '' parts)
      @ (if bad > 0 then '', '' @ dec bad @ '' unreadable'' else []))"

definition audit_run :: "(string \<Rightarrow> payload option) \<Rightarrow> string \<times> bool \<Rightarrow> audit_options \<Rightarrow> int \<times> string list" where
  "audit_run decode input o' =
     (case audit_scan decode input of
        (ss, bad, ok) \<Rightarrow>
          let m = ao_min_packets o';
              calls = (if ao_quiet o' then [] else map (\<lambda>s. summary s m) ss) in
          if \<not> ok then (2, calls)
          else
            (if int (length ss) < ao_require_calls o' then 2
             else if bad > 0 then 2
             else if list_ex (\<lambda>v. count_of ss m v > 0) (ao_fail_on o') then 1
             else 0,
             calls @ [totals_line ss m bad]))"

text \<open>\<open>main\<close>: the exit status, with the flags as given.\<close>

definition audit_main :: "(string \<Rightarrow> payload option) \<Rightarrow> string \<times> bool \<Rightarrow> int \<Rightarrow> int \<Rightarrow> string \<Rightarrow> bool \<Rightarrow> int \<times> string list" where
  "audit_main decode input min_packets require_calls fail_on quiet =
     (let o' = \<lparr>ao_min_packets = min_packets, ao_require_calls = require_calls,
               ao_fail_on = split_verdicts fail_on, ao_quiet = quiet\<rparr> in
      if options_valid o' then audit_run decode input o' else (2, []))"

subsection \<open>Properties\<close>

definition calls_of :: "(string \<Rightarrow> payload option) \<Rightarrow> string list \<Rightarrow> call_stats list" where
  "calls_of decode ls = concat (map (\<lambda>l. case parse_line decode l of Parsed_Stats s \<Rightarrow> [s] | _ \<Rightarrow> []) ls)"

lemma scan_parsed_eq:
  "scan_parsed decode ls
     = (calls_of decode ls, length (filter (\<lambda>l. parse_line decode l = Malformed) ls))"
  by (induction ls) (auto simp: calls_of_def split: line_result.split)

lemma audio_verdict [simp]: "audio s m \<in> set verdicts"
  by (simp add: audio_def verdicts_def Let_def)

lemma count_of_pos: "count_of ss m v > 0 \<longleftrightarrow> (\<exists>s \<in> set ss. audio s m = v)"
  by (auto simp: count_of_def filter_empty_conv)

lemma scan_ok:
  assumes "list_all (\<lambda>l. length l < max_line) (raw_lines s)"
  shows "audit_scan decode (s, True)
    = (calls_of decode (map drop_cr (raw_lines s)),
       length (filter (\<lambda>l. parse_line decode l = Malformed) (map drop_cr (raw_lines s))), True)"
  using assms
  by (simp add: audit_scan_def read_lines_def scan_parsed_eq Let_def list_all_iff takeWhile_eq_all_conv [THEN iffD2])

lemma run_status:
  "fst (audit_run decode (s, rd) o') =
     (if \<not> list_all (\<lambda>l. length l < max_line) (raw_lines s) \<or> \<not> rd then 2
      else let ls = map drop_cr (raw_lines s); ss = calls_of decode ls in
        if int (length ss) < ao_require_calls o' then 2
        else if (\<exists>l \<in> set ls. parse_line decode l = Malformed) then 2
        else if (\<exists>c \<in> set ss. audio c (ao_min_packets o') \<in> set (ao_fail_on o')) then 1 else 0)"
proof (cases "list_all (\<lambda>l. length l < max_line) (raw_lines s) \<and> rd")
  case True
  moreover have "list_ex (\<lambda>v. count_of ss m v > 0) fs \<longleftrightarrow> (\<exists>c \<in> set ss. audio c m \<in> set fs)" for ss m fs
    by (auto simp: list_ex_iff count_of_pos)
  ultimately show ?thesis
    by (auto simp: audit_run_def scan_ok Let_def filter_empty_conv)
next
  case False
  then show ?thesis
    by (auto simp: audit_run_def audit_scan_def read_lines_def Let_def split: prod.split)
qed

text \<open>C32: The exit status is the assertion: a run exits 0 exactly if the whole log could be read, no
  statistics line in it was unreadable, it held as many calls as required, and none of their
  verdicts is one that fails the run; it exits 1 exactly if only the last of these is not so.\<close>

theorem exit_status_is_the_assertion:
  "let ls = map drop_cr (raw_lines s); ss = calls_of decode ls;
       proved = (rd \<and> (\<forall>l \<in> set (raw_lines s). length l < max_line)
                 \<and> (\<forall>l \<in> set ls. parse_line decode l \<noteq> Malformed)
                 \<and> ao_require_calls o' \<le> int (length ss));
       silent = (\<exists>c \<in> set ss. audio c (ao_min_packets o') \<in> set (ao_fail_on o')) in
   fst (audit_run decode (s, rd) o') = (if proved then if silent then 1 else 0 else 2)"
  unfolding run_status by (auto simp: Let_def list_all_iff)

lemma small_sum: "0 \<le> a \<Longrightarrow> 0 \<le> b \<Longrightarrow> 0 \<le> c \<Longrightarrow> a < 2 ^ 61 \<Longrightarrow> b < 2 ^ 61 \<Longrightarrow> c < 2 ^ 61
    \<Longrightarrow> i64 (i64 (a + b) + c) = a + b + c"
  by (simp add: i64_id)

lemma default_flags: "split_verdicts default_fail_on = [''sip_only'', ''matrix_only'', ''none'']"
  by code_simp

text \<open>A judged call that carried audio in one direction only, or in none, never lets a run with
  the default verdicts pass, whatever else the log holds.\<close>

theorem silent_call_never_passes:
  assumes "c \<in> set (calls_of decode (map drop_cr (raw_lines s)))"
    and "cs_sip_audio c = 0 \<or> cs_room_input c = 0"
    and "0 \<le> cs_sip_audio c" "0 \<le> cs_room_input c" "0 \<le> cs_published c"
    and "cs_sip_audio c < 2 ^ 61" "cs_room_input c < 2 ^ 61" "cs_published c < 2 ^ 61"
    and "mp \<le> cs_sip_audio c + cs_room_input c + cs_published c"
  shows "fst (audit_main decode (s, rd) mp req default_fail_on quiet) \<noteq> 0"
proof -
  have "audio c mp \<in> {''sip_only'', ''matrix_only'', ''none''}" if "1 \<le> mp"
    using assms(2-9) that by (auto simp: audio_def small_sum Let_def)
  then show ?thesis
    using assms(1) by (auto simp: audit_main_def options_valid_def run_status default_flags Let_def)
qed

text \<open>A log whose calls were all too short to be judged passes with the default flags, though
  not one call is known to have carried audio.\<close>

theorem all_too_short_is_green:
  assumes "\<forall>l \<in> set (raw_lines s). length l < max_line"
    and "\<forall>l \<in> set (raw_lines s). parse_line decode (drop_cr l) \<noteq> Malformed"
    and "calls_of decode (map drop_cr (raw_lines s)) \<noteq> []"
    and "\<forall>c \<in> set (calls_of decode (map drop_cr (raw_lines s))). audio c default_min_packets = ''too_short''"
  shows "fst (audit_main decode (s, True) default_min_packets 1 default_fail_on quiet) = 0"
proof -
  have "1 \<le> int (length (calls_of decode (map drop_cr (raw_lines s))))"
    using assms(3) by (cases "calls_of decode (map drop_cr (raw_lines s))") auto
  moreover have "(\<forall>v \<in> set (split_verdicts default_fail_on). v \<in> set verdicts)
      \<and> ''too_short'' \<notin> set (split_verdicts default_fail_on)"
    by (simp add: default_flags verdicts_def)
  ultimately show ?thesis
    using assms(1,2,4)
    by (auto simp: audit_main_def options_valid_def run_status default_min_packets_def list_all_iff Let_def)
qed

text \<open>Whatever a log line says, the verdict on its call and its direction are of the closed sets
  whose label combinations the recorder sets up.\<close>

theorem labels_are_closed:
  assumes "parse_line decode line = Parsed_Stats c"
  shows "audio c m \<in> set verdicts \<and> cs_direction c \<in> set direction_names"
  using assms
  by (auto simp: parse_line_def stats_of_def audit_direction_def direction_names_def Let_def
      split: if_splits option.splits prod.splits)

text \<open>A line with a decoder that knows two objects.\<close>

definition sample_decode :: "string \<Rightarrow> payload option" where
  "sample_decode t =
     (if t = ''{silent}'' then
        Some \<lparr>pl_msg = [], pl_direction = ''outbound'', pl_call_id = ''SCL_1'',
              pl_stats = Some (Some 956, Some \<lparr>rs_input = 0, rs_subscribes = 0, rs_published = 950\<rparr>)\<rparr>
      else if t = ''{short}'' then
        Some \<lparr>pl_msg = [], pl_direction = ''outbound'', pl_call_id = ''SCL_2'',
              pl_stats = Some (Some 0, Some \<lparr>rs_input = 0, rs_subscribes = 0, rs_published = 0\<rparr>)\<rparr>
      else None)"

definition silent_line :: string where "silent_line = ''INFO call statistics {silent}''"
definition short_line :: string where "short_line = ''INFO call statistics {short}''"

definition silent_call :: call_stats where
  "silent_call = \<lparr>cs_direction = ''outbound'', cs_call_id = ''SCL_1'', cs_sip_audio = 956, cs_room_input = 0,
     cs_subscribes = 0, cs_published = 950\<rparr>"

definition short_call :: call_stats where
  "short_call = \<lparr>cs_direction = ''outbound'', cs_call_id = ''SCL_2'', cs_sip_audio = 0, cs_room_input = 0,
     cs_subscribes = 0, cs_published = 0\<rparr>"

lemma sample_lines:
  "map drop_cr (raw_lines silent_line) = [silent_line]" "raw_lines short_line = [short_line]"
  "drop_cr short_line = short_line"
  "parse_line sample_decode silent_line = Parsed_Stats silent_call"
  "parse_line sample_decode short_line = Parsed_Stats short_call"
  "audio short_call default_min_packets = ''too_short''"
  by code_simp+

theorem silent_call_never_passes_witness:
  "fst (audit_main sample_decode (silent_line, True) 25 1 default_fail_on False) \<noteq> 0"
  by (rule silent_call_never_passes [of silent_call])
     (simp_all add: sample_lines calls_of_def silent_call_def)

theorem all_too_short_is_green_witness:
  "fst (audit_main sample_decode (short_line, True) default_min_packets 1 default_fail_on False) = 0"
  by (rule all_too_short_is_green)
     (simp_all add: sample_lines calls_of_def, simp add: short_line_def max_line_def)

theorem labels_are_closed_witness:
  "audio silent_call 25 \<in> set verdicts \<and> cs_direction silent_call \<in> set direction_names"
  by (rule labels_are_closed [OF sample_lines(4)])

theorem exit_status_is_the_assertion_witness:
  "fst (audit_run sample_decode (silent_line, True)
     \<lparr>ao_min_packets = 25, ao_require_calls = 1, ao_fail_on = [''sip_only''], ao_quiet = False\<rparr>) = 1"
  using exit_status_is_the_assertion [of silent_line sample_decode True
      "\<lparr>ao_min_packets = 25, ao_require_calls = 1, ao_fail_on = [''sip_only''], ao_quiet = False\<rparr>"]
  by (simp add: sample_lines calls_of_def Let_def, simp add: silent_call_def audio_def i64_def silent_line_def
      raw_lines_def max_line_def)

end
