(* ===== verification/Migration.thy ===== *)
theory Migration
  imports Logins Rooms
begin

section \<open>The migration of the shared login (\<open>pkg/connector/migrate.go\<close>, \<open>spaces.go\<close>)\<close>

text \<open>
  Re-keying the portals of the login there used to be for everyone, and the repair of line spaces
  that were created without a receiver.  The portals are the rows of bridgev2's table in the
  order its queries return them; \<open>ReIDPortal\<close>, which is bridgev2's, is a parameter, and what the
  theorems use of it is the hypothesis \<open>moves\<close>: with no room under the new key, the row moves to
  it, and nothing else does.
\<close>

record portal_row =
  pr_mxid :: string
  pr_type :: room_type
  pr_parent :: portal_key

type_synonym portal_table = "(portal_key \<times> portal_row) list"

definition is_space_portal :: "portal_key \<times> portal_row \<Rightarrow> bool" where
  "is_space_portal e = (pr_type (snd e) = RoomSpace \<or> is_space_id (fst (fst e)))"

text \<open>\<open>GetAllWithoutReceiver\<close> also returns rows whose parent has no receiver; they are dropped.\<close>

definition portals_without_receiver :: "portal_table \<Rightarrow> portal_table" where
  "portals_without_receiver t =
     filter (\<lambda>e. snd (fst e) = []) (filter (\<lambda>e. snd (fst e) = [] \<or> snd (pr_parent (snd e)) = []) t)"

definition children_of :: "portal_key \<Rightarrow> portal_table \<Rightarrow> portal_table" where
  "children_of key t = filter (\<lambda>e. pr_parent (snd e) = key) t"

text \<open>\<open>reparentChildren\<close>: the query; \<open>ok\<close> is False if it fails.\<close>

definition reparent_children :: "bool \<Rightarrow> portal_key \<Rightarrow> portal_table \<Rightarrow> portal_table" where
  "reparent_children ok key t =
     (if \<not> ok then t
      else map (\<lambda>(k, row). if pr_parent row = (fst key, []) \<and> snd k = snd key
                           then (k, row\<lparr>pr_parent := key\<rparr>) else (k, row)) t)"

record move_answers =
  ma_check :: bool
  ma_move :: db_outcome
  ma_reparent :: bool

type_synonym re_id = "portal_key \<Rightarrow> portal_key \<Rightarrow> portal_table \<Rightarrow> portal_table"

definition re_id_portal :: "re_id \<Rightarrow> move_answers \<Rightarrow> portal_key \<times> portal_row \<Rightarrow> string \<Rightarrow> portal_table
    \<Rightarrow> portal_table \<times> bool" where
  "re_id_portal re_id a src recv t =
     (let target = (fst (fst src), recv) in
      if \<not> ma_check a then (t, False)
      else if (case map_of t target of Some row \<Rightarrow> pr_mxid row \<noteq> [] | None \<Rightarrow> False) then (t, False)
      else
        let t1 = (if ma_move a = DbErr then t else re_id (fst src) target t) in
        if ma_move a \<noteq> DbOk then (t1, False)
        else (if is_space_portal src then reparent_children (ma_reparent a) target t1 else t1, True))"

text \<open>The loop of the migration, with the number of portals left behind.\<close>

fun re_id_all :: "re_id \<Rightarrow> (portal_key \<Rightarrow> move_answers) \<Rightarrow> string \<Rightarrow> portal_table \<Rightarrow> portal_table
    \<Rightarrow> portal_table \<times> nat" where
  "re_id_all re_id a recv [] t = (t, 0)"
| "re_id_all re_id a recv (e # es) t =
     (case re_id_portal re_id (a (fst e)) e recv t of
        (t1, moved) \<Rightarrow>
          (case re_id_all re_id a recv es t1 of (t2, skipped) \<Rightarrow> (t2, if moved then skipped else skipped + 1)))"

text \<open>The stable sort that puts spaces first.\<close>

definition spaces_first :: "portal_table \<Rightarrow> portal_table" where
  "spaces_first es = filter is_space_portal es @ filter (\<lambda>e. \<not> is_space_portal e) es"

subsection \<open>The shared login\<close>

record migration_state =
  mg_portals :: portal_table
  mg_logins :: login_store
  mg_legacy :: "string option"
  mg_spaces :: "string \<Rightarrow> string"
  mg_moved_user_portals :: bool

datatype migration_error = MigrationLookup | MigrationList | MigrationLogin login_error | MigrationQuery | MigrationSave

record migration_answers =
  mi_legacy :: bool
  mi_list :: bool
  mi_login :: login_answers
  mi_move :: "portal_key \<Rightarrow> move_answers"
  mi_query :: db_outcome
  mi_save_to :: bool
  mi_save_from :: bool

text \<open>\<open>transferSpace\<close>, from the shared login to login \<open>to\<close>.\<close>

definition transfer_space :: "migration_answers \<Rightarrow> string \<Rightarrow> (string \<Rightarrow> string) \<Rightarrow> (string \<Rightarrow> string) \<times> bool" where
  "transfer_space a to spaces =
     (if spaces legacy_login_id = [] then (spaces, True)
      else
        let s1 = (if spaces to = [] then spaces(to := spaces legacy_login_id) else spaces) in
        if spaces to = [] \<and> \<not> mi_save_to a then (s1, False)
        else (s1(legacy_login_id := []), mi_save_from a))"

definition migrate_shared_login :: "re_id \<Rightarrow> migration_answers \<Rightarrow> migration_state
    \<Rightarrow> migration_state \<times> migration_error option" where
  "migrate_shared_login re_id a st =
     (if \<not> mi_legacy a then (st, Some MigrationLookup)
      else
        let st1 = (case mg_legacy st of None \<Rightarrow> st | Some u \<Rightarrow> st\<lparr>mg_logins := (mg_logins st)\<lparr>ls_default := u\<rparr>\<rparr>);
            who = ls_default (mg_logins st1);
            portals = portals_without_receiver (mg_portals st1) in
        if \<not> mi_list a then (st1, Some MigrationList)
        else if mg_legacy st = None \<and> portals = [] then (st1, None)
        else if who = [] then (st1, None)
        else (case ensure_login (\<lambda>_. True) (mi_login a) id who False (mg_logins st1) of
            (Inl e, ls) \<Rightarrow> (st1\<lparr>mg_logins := ls\<rparr>, Some (MigrationLogin e))
          | (Inr _, ls) \<Rightarrow>
              (case re_id_all re_id (mi_move a) (login_id_for who) (spaces_first portals) (mg_portals st1) of
                 (t, skipped) \<Rightarrow>
                   let st2 = st1\<lparr>mg_logins := ls, mg_portals := t\<rparr> in
                   if mg_legacy st = None then (st2, None)
                   else
                     let st3 = (if mi_query a = DbErr then st2 else st2\<lparr>mg_moved_user_portals := True\<rparr>) in
                     if mi_query a \<noteq> DbOk then (st3, Some MigrationQuery)
                     else if skipped > 0 then (st3, None)
                     else (case transfer_space a (login_id_for who) (mg_spaces st3) of
                         (sp, False) \<Rightarrow> (st3\<lparr>mg_spaces := sp\<rparr>, Some MigrationSave)
                       | (sp, True) \<Rightarrow> (st3\<lparr>mg_spaces := sp, mg_legacy := None\<rparr>, None)))))"

subsection \<open>Line spaces without a receiver\<close>

fun sole_receiver :: "string \<Rightarrow> string list \<Rightarrow> string \<times> bool" where
  "sole_receiver r [] = (r, r \<noteq> [])"
| "sole_receiver r (x # xs) =
     (if x = [] then (r, False)
      else if r = [] then sole_receiver x xs
      else if x \<noteq> r then (r, False)
      else sole_receiver r xs)"

datatype repair_error = RepairList | RepairChildren | RepairLogin | RepairTarget | RepairDrop

record repair_answers =
  rp_children :: bool
  rp_login :: bool
  rp_target :: bool
  rp_drop :: db_outcome
  rp_move :: move_answers
  rp_after :: bool

text \<open>One turn of the loop of \<open>repairLineSpaces\<close>; listing the space in the personal space is left out.\<close>

definition repair_space :: "re_id \<Rightarrow> (portal_key \<Rightarrow> repair_answers) \<Rightarrow> string list \<Rightarrow> portal_key \<times> portal_row
    \<Rightarrow> portal_table \<Rightarrow> portal_table \<times> repair_error option" where
  "repair_space re_id ans known src t =
     (let a = ans (fst src) in
      if \<not> is_space_portal src then (t, None)
      else if \<not> rp_children a then (t, Some RepairChildren)
      else case sole_receiver [] (map (snd \<circ> fst) (children_of (fst src) t)) of
          (_, False) \<Rightarrow> (t, None)
        | (recv, True) \<Rightarrow>
            if \<not> rp_login a then (t, Some RepairLogin)
            else if recv \<notin> set known then (t, None)
            else
              let target = (fst (fst src), recv) in
              if \<not> rp_target a then (t, Some RepairTarget)
              else if map_of t target \<noteq> None \<and> children_of target t \<noteq> [] then (t, None)
              else
                let t1 = (if map_of t target = None \<or> rp_drop a = DbErr then t
                          else filter (\<lambda>e. fst e \<noteq> target) t) in
                if map_of t target \<noteq> None \<and> rp_drop a \<noteq> DbOk then (t1, Some RepairDrop)
                else (case re_id_portal re_id (rp_move a) src recv t1 of
                    (t2, False) \<Rightarrow> (t2, None)
                  | (t2, True) \<Rightarrow> (t2, if rp_after a then None else Some RepairTarget)))"

fun repair_spaces :: "re_id \<Rightarrow> (portal_key \<Rightarrow> repair_answers) \<Rightarrow> string list \<Rightarrow> portal_table \<Rightarrow> portal_table
    \<Rightarrow> portal_table \<times> repair_error option" where
  "repair_spaces re_id ans known [] t = (t, None)"
| "repair_spaces re_id ans known (e # es) t =
     (case repair_space re_id ans known e t of
        (t1, None) \<Rightarrow> repair_spaces re_id ans known es t1
      | (t1, Some err) \<Rightarrow> (t1, Some err))"

definition repair_line_spaces :: "re_id \<Rightarrow> bool \<Rightarrow> (portal_key \<Rightarrow> repair_answers) \<Rightarrow> string list \<Rightarrow> portal_table
    \<Rightarrow> portal_table \<times> repair_error option" where
  "repair_line_spaces re_id list_ok ans known t =
     (if \<not> list_ok then (t, Some RepairList)
      else repair_spaces re_id ans known (portals_without_receiver t) t)"

subsection \<open>Properties\<close>

text \<open>What bridgev2 documents of \<open>ReIDPortal\<close> where the new key has no room.\<close>

definition moves :: "re_id \<Rightarrow> bool" where
  "moves re_id = (\<forall>src tgt t row. map_of t src = Some row \<longrightarrow> src \<noteq> tgt
     \<longrightarrow> (\<forall>r. map_of t tgt = Some r \<longrightarrow> pr_mxid r = [])
     \<longrightarrow> map_of (re_id src tgt t) = (map_of t)(src := None, tgt := Some row))"

lemma map_of_reparent:
  "map_of (reparent_children ok key t) k =
     map_option (\<lambda>row. if ok \<and> pr_parent row = (fst key, []) \<and> snd k = snd key then row\<lparr>pr_parent := key\<rparr> else row)
       (map_of t k)"
proof -
  have "map_of (map (\<lambda>(k, row). if P k row then (k, f row) else (k, row)) t) k
      = map_option (\<lambda>row. if P k row then f row else row) (map_of t k)" for P f
    by (induction t) auto
  then show ?thesis by (simp add: reparent_children_def option.map_ident)
qed

text \<open>Where the room of a row is: the same row, or the one it was re-keyed to.\<close>

definition room_at :: "portal_table \<Rightarrow> portal_key \<Rightarrow> string \<Rightarrow> bool" where
  "room_at t k mxid = (\<exists>row. map_of t k = Some row \<and> pr_mxid row = mxid)"

lemma room_at_reparent [simp]: "room_at (reparent_children ok key t) k mxid = room_at t k mxid"
  by (cases "map_of t k") (auto simp: room_at_def map_of_reparent)

lemma room_at_cong: "map_of t k = map_of t' k \<Longrightarrow> room_at t k mxid = room_at t' k mxid"
  by (simp add: room_at_def)

lemma re_id_portal_cases:
  assumes "re_id_portal re_id a src recv t = (t1, moved)" "moves re_id"
    and "map_of t (fst src) = Some (snd src)" "snd (fst src) = []" "recv \<noteq> []"
  obtains (kept) "\<not> moved" "map_of t1 = map_of t"
  | (moved) ok where "\<forall>r. map_of t (fst (fst src), recv) = Some r \<longrightarrow> pr_mxid r = []"
      "map_of t1 = map_of (reparent_children ok (fst (fst src), recv) (re_id (fst src) (fst (fst src), recv) t))"
      "map_of (re_id (fst src) (fst (fst src), recv) t)
         = (map_of t)(fst src := None, (fst (fst src), recv) := Some (snd src))"
proof -
  let ?tgt = "(fst (fst src), recv)"
  have ne: "fst src \<noteq> ?tgt" using assms(4,5) by (cases "fst src") auto
  show thesis
  proof (cases "\<not> ma_check a \<or> (case map_of t ?tgt of Some row \<Rightarrow> pr_mxid row \<noteq> [] | None \<Rightarrow> False) \<or> ma_move a = DbErr")
    case True
    then show thesis using assms(1) kept by (auto simp: re_id_portal_def Let_def split: if_splits)
  next
    case False
    then have free: "\<forall>r. map_of t ?tgt = Some r \<longrightarrow> pr_mxid r = []" by (auto split: option.splits)
    have m: "map_of (re_id (fst src) ?tgt t) = (map_of t)(fst src := None, ?tgt := Some (snd src))"
      using assms(2) [unfolded moves_def, rule_format, OF assms(3) ne] free by blast
    have same: "map_of (reparent_children False ?tgt (re_id (fst src) ?tgt t)) = map_of (re_id (fst src) ?tgt t)"
      by (simp add: reparent_children_def)
    have "t1 = re_id (fst src) ?tgt t \<or> t1 = reparent_children (ma_reparent a) ?tgt (re_id (fst src) ?tgt t)"
      using assms(1) False by (auto simp: re_id_portal_def Let_def split: if_splits)
    then show thesis using moved [OF free _ m, of "ma_reparent a"] moved [OF free _ m, of False] same by metis
  qed
qed

lemma re_id_portal_step:
  assumes "re_id_portal re_id a src recv t = (t1, moved)" "moves re_id"
    and "map_of t (fst src) = Some (snd src)" "snd (fst src) = []" "recv \<noteq> []"
  shows "room_at t k mxid \<Longrightarrow> mxid \<noteq> [] \<Longrightarrow> room_at t1 k mxid \<or> snd k = [] \<and> room_at t1 (fst k, recv) mxid"
    and "snd k = [] \<Longrightarrow> k \<noteq> fst src \<Longrightarrow> map_of t1 k = map_of t k"
    and "moved \<Longrightarrow> map_of t1 (fst src) = None"
proof -
  let ?tgt = "(fst (fst src), recv)"
  have ne: "fst src \<noteq> ?tgt" using assms(4,5) by (cases "fst src") auto
  show "room_at t1 k mxid \<or> snd k = [] \<and> room_at t1 (fst k, recv) mxid" if "room_at t k mxid" "mxid \<noteq> []"
    using assms
  proof (cases rule: re_id_portal_cases)
    case kept
    then show ?thesis using that by (simp add: room_at_def)
  next
    case (moved ok)
    let ?t = "re_id (fst src) ?tgt t"
    have r: "room_at t1 = room_at ?t"
      using moved(2) by (intro ext) (simp add: room_at_cong [of t1 _ "reparent_children ok ?tgt ?t"])
    show ?thesis
    proof (cases "k = fst src")
      case True
      then have "room_at ?t ?tgt mxid" using that(1) assms(3) moved(3) by (simp add: room_at_def)
      then show ?thesis using True assms(4) r by simp
    next
      case False
      have "k \<noteq> ?tgt" using that moved(1) by (auto simp: room_at_def)
      then have "room_at ?t k mxid" using that(1) False moved(3) by (simp add: room_at_def)
      then show ?thesis using r by simp
    qed
  qed
  show "map_of t1 k = map_of t k" if "snd k = []" "k \<noteq> fst src"
    using assms
  proof (cases rule: re_id_portal_cases)
    case (moved ok)
    have "k \<noteq> ?tgt" using that(1) assms(5) by auto
    then show ?thesis using that assms(5) moved(2,3) by (simp add: map_of_reparent option.map_ident)
  qed simp
  show "map_of t1 (fst src) = None" if moved
    using assms by (cases rule: re_id_portal_cases) (use that ne in \<open>auto simp: map_of_reparent\<close>)
qed

lemma re_id_all_keeps:
  assumes "re_id_all re_id a recv es t = (t2, skipped)" "moves re_id" "recv \<noteq> []"
    and "\<forall>e \<in> set es. map_of t (fst e) = Some (snd e) \<and> snd (fst e) = []" "distinct (map fst es)"
  shows "(room_at t k mxid \<longrightarrow> mxid \<noteq> [] \<longrightarrow> room_at t2 k mxid \<or> snd k = [] \<and> room_at t2 (fst k, recv) mxid)
    \<and> (map_of t2 (pid, []) \<noteq> None \<longrightarrow> map_of t (pid, []) \<noteq> None \<and> (skipped = 0 \<longrightarrow> (pid, []) \<notin> fst ` set es))"
  using assms
proof (induction es arbitrary: t t2 skipped k)
  case (Cons e es)
  obtain t1 moved where s: "re_id_portal re_id (a (fst e)) e recv t = (t1, moved)" by (metis prod.exhaust)
  obtain n where r: "re_id_all re_id a recv es t1 = (t2, n)" and sk: "skipped = (if moved then n else n + 1)"
    using Cons.prems(1) s by (auto split: prod.splits)
  have e: "map_of t (fst e) = Some (snd e)" "snd (fst e) = []" using Cons.prems(4) by simp_all
  note S = re_id_portal_step [OF s Cons.prems(2) e Cons.prems(3)]
  have rest: "\<forall>x \<in> set es. map_of t1 (fst x) = Some (snd x) \<and> snd (fst x) = []"
  proof
    fix x assume x: "x \<in> set es"
    then have "fst x \<noteq> fst e" using Cons.prems(5) by (metis distinct.simps(2) image_eqI list.map(2) set_map)
    then show "map_of t1 (fst x) = Some (snd x) \<and> snd (fst x) = []"
      using S(2) [of "fst x"] Cons.prems(4) x by simp
  qed
  note IH = Cons.IH [OF r Cons.prems(2,3) rest]
  have d: "distinct (map fst es)" using Cons.prems(5) by simp
  show ?case
  proof (intro conjI impI)
    assume k: "room_at t k mxid" "mxid \<noteq> []"
    have after: "room_at t2 k' mxid \<or> snd k' = [] \<and> room_at t2 (fst k', recv) mxid" if "room_at t1 k' mxid" for k'
      using IH [OF d, of k'] that k(2) by blast
    show "room_at t2 k mxid \<or> snd k = [] \<and> room_at t2 (fst k, recv) mxid"
    proof (cases "room_at t1 k mxid")
      case True
      then show ?thesis by (rule after)
    next
      case False
      then have "snd k = []" "room_at t1 (fst k, recv) mxid" using S(1) [OF k] by blast+
      then show ?thesis using after [of "(fst k, recv)"] Cons.prems(3) by simp
    qed
  next
    assume left: "map_of t2 (pid, []) \<noteq> None"
    then have l1: "map_of t1 (pid, []) \<noteq> None" and l2: "n = 0 \<longrightarrow> (pid, []) \<notin> fst ` set es"
      using IH [OF d] by blast+
    show "map_of t (pid, []) \<noteq> None"
    proof (cases "(pid, []) = fst e")
      case True
      then show ?thesis using e(1) by simp
    next
      case False
      then show ?thesis using S(2) [of "(pid, [])"] l1 by simp
    qed
    assume "skipped = 0"
    then have "moved" "n = 0" using sk by (auto split: if_splits)
    then have "(pid, []) \<noteq> fst e" "(pid, []) \<notin> fst ` set es" using l1 l2 S(3) by auto
    then show "(pid, []) \<notin> fst ` set (e # es)" by simp
  qed
qed simp

lemma unreceived:
  assumes "distinct (map fst t)"
  defines "es \<equiv> spaces_first (portals_without_receiver t)"
  shows "\<forall>e \<in> set es. map_of t (fst e) = Some (snd e) \<and> snd (fst e) = []"
    and "distinct (map fst es)"
    and "map_of t (pid, []) \<noteq> None \<Longrightarrow> (pid, []) \<in> fst ` set es"
proof -
  have set: "set es = {e \<in> set t. snd (fst e) = []}"
    by (auto simp: es_def spaces_first_def portals_without_receiver_def)
  show "\<forall>e \<in> set es. map_of t (fst e) = Some (snd e) \<and> snd (fst e) = []"
    using assms(1) set by (auto simp: map_of_is_SomeI)
  have d: "distinct (map fst (portals_without_receiver t))"
    unfolding portals_without_receiver_def by (intro distinct_map_filterI assms(1))
  show "distinct (map fst es)"
    unfolding es_def spaces_first_def map_append distinct_append
  proof (intro conjI distinct_map_filterI d)
    show "set (map fst (filter is_space_portal (portals_without_receiver t)))
        \<inter> set (map fst (filter (\<lambda>e. \<not> is_space_portal e) (portals_without_receiver t))) = {}"
      by (auto dest: eq_key_imp_eq_value [OF d])
  qed
  show "(pid, []) \<in> fst ` set es" if "map_of t (pid, []) \<noteq> None"
    using that set by (force dest: map_of_SomeD)
qed

lemma ensure_login_default: "ls_default (snd (ensure_login p a id u check ls)) = ls_default ls"
  by (simp add: ensure_login_def ensure_locked_def add_user_def Let_def)


text \<open>A \<open>ReIDPortal\<close> on the rows.\<close>

definition move_row :: re_id where
  "move_row src tgt t =
     (case map_of t src of
        None \<Rightarrow> t
      | Some row \<Rightarrow> (tgt, row) # filter (\<lambda>e. fst e \<noteq> src \<and> fst e \<noteq> tgt) t)"

lemma move_row_moves: "moves move_row"
proof -
  have "map_of (filter (\<lambda>e. fst e \<noteq> a \<and> fst e \<noteq> b) t) = (map_of t)(a := None, b := None)" for a b :: portal_key and t :: portal_table
    by (induction t) (auto simp: fun_eq_iff)
  then show ?thesis by (auto simp: moves_def move_row_def fun_eq_iff)
qed

definition shared_state :: migration_state where
  "shared_state =
     \<lparr>mg_portals = [((''15551234567'', []), \<lparr>pr_mxid = ''!r:b'', pr_type = RoomDM, pr_parent = ([], [])\<rparr>)],
      mg_logins = no_logins, mg_legacy = Some ''@a:b'', mg_spaces = (\<lambda>_. ''!s:b''), mg_moved_user_portals = False\<rparr>"

definition healthy_migration :: migration_answers where
  "healthy_migration =
     \<lparr>mi_legacy = True, mi_list = True, mi_login = answering,
      mi_move = (\<lambda>_. \<lparr>ma_check = True, ma_move = DbOk, ma_reparent = True\<rparr>), mi_query = DbOk,
      mi_save_to = True, mi_save_from = True\<rparr>"


lemma sole_receiver_found:
  "sole_receiver r xs = (recv, True) \<Longrightarrow> recv \<noteq> [] \<and> (\<forall>x \<in> set xs. x = recv) \<and> (r \<noteq> [] \<longrightarrow> recv = r) \<and> (r = [] \<longrightarrow> xs \<noteq> [])"
  by (induction r xs rule: sole_receiver.induct) (auto split: if_splits)

lemma map_of_without: "map_of (filter (\<lambda>e. fst e \<noteq> k') t) k = (if k = k' then None else map_of t k)"
  by (induction t) auto

text \<open>A line's space without a receiver is re-keyed only onto the one login all of its rooms
  belong to, only if that login exists and its own copy of the space holds no rooms; of the other
  rows none loses its room, and if any of this is not so nothing is changed.\<close>

theorem repair_takes_the_sole_receiver:
  assumes "moves re_id" "map_of t (fst src) = Some (snd src)" "snd (fst src) = []"
    and "repair_space re_id ans known src t = (t', err)"
  shows "map_of t' = map_of t
    \<or> is_space_portal src
      \<and> (\<exists>recv. recv \<in> set known \<and> recv \<noteq> [] \<and> children_of (fst src) t \<noteq> []
          \<and> (\<forall>c \<in> set (children_of (fst src) t). snd (fst c) = recv)
          \<and> (map_of t (fst (fst src), recv) \<noteq> None \<longrightarrow> children_of (fst (fst src), recv) t = [])
          \<and> (\<forall>k mxid. room_at t k mxid \<and> mxid \<noteq> [] \<and> k \<noteq> (fst (fst src), recv)
               \<longrightarrow> room_at t' k mxid \<or> k = fst src \<and> room_at t' (fst (fst src), recv) mxid))"
proof (cases "map_of t' = map_of t")
  case False
  define a where "a = ans (fst src)"
  obtain recv ok where s: "sole_receiver [] (map (snd \<circ> fst) (children_of (fst src) t)) = (recv, ok)"
    by (metis prod.exhaust)
  note D = assms(4) [unfolded repair_space_def Let_def, folded a_def, unfolded s]
  have ok: "is_space_portal src" "rp_children a" "ok" using D False by (auto split: if_splits bool.splits)
  have R: "recv \<noteq> []" "\<forall>c \<in> set (children_of (fst src) t). snd (fst c) = recv" "children_of (fst src) t \<noteq> []"
    using sole_receiver_found [of "[]" _ recv] s ok(3) by auto
  let ?tgt = "(fst (fst src), recv)"
  define t1 where "t1 = (if map_of t ?tgt = None \<or> rp_drop a = DbErr then t else filter (\<lambda>e. fst e \<noteq> ?tgt) t)"
  have K: "recv \<in> set known" "map_of t ?tgt \<noteq> None \<longrightarrow> children_of ?tgt t = []"
    using D False ok by (auto split: if_splits bool.splits)
  have ne: "fst src \<noteq> ?tgt" using assms(3) R(1) by (cases "fst src") auto
  have at: "map_of t1 k = map_of t k" if "k \<noteq> ?tgt" for k
    using that by (simp add: t1_def map_of_without)
  then have src1: "map_of t1 (fst src) = Some (snd src)" using assms(2) ne by simp
  obtain t2 moved where m: "re_id_portal re_id (rp_move a) src recv t1 = (t2, moved)" by (metis prod.exhaust)
  have "(if \<not> rp_login a then (t, Some RepairLogin) else if recv \<notin> set known then (t, None)
      else if \<not> rp_target a then (t, Some RepairTarget)
      else if map_of t ?tgt \<noteq> None \<and> children_of ?tgt t \<noteq> [] then (t, None)
      else if map_of t ?tgt \<noteq> None \<and> rp_drop a \<noteq> DbOk then (t1, Some RepairDrop)
      else (case re_id_portal re_id (rp_move a) src recv t1 of
          (t2, False) \<Rightarrow> (t2, None) | (t2, True) \<Rightarrow> (t2, if rp_after a then None else Some RepairTarget)))
      = (t', err)"
    using D ok unfolding t1_def by simp
  then have t': "t' = t1 \<or> t' = t2"
    using False unfolding m by (auto split: if_splits bool.splits)
  have "room_at t' k mxid \<or> k = fst src \<and> room_at t' ?tgt mxid"
    if k: "room_at t k mxid" "mxid \<noteq> []" "k \<noteq> ?tgt" for k mxid
  proof -
    have k1: "room_at t1 k mxid" using k(1) room_at_cong [OF at [OF k(3)]] by simp
    note S = re_id_portal_step [OF m assms(1) src1 assms(3) R(1)]
    have "room_at t2 k mxid \<or> k = fst src \<and> room_at t2 ?tgt mxid"
    proof (cases "k = fst src")
      case True
      then show ?thesis using S(1) [OF k1 k(2)] by auto
    next
      case other: False
      show ?thesis
      proof (cases "snd k = []")
        case True
        then show ?thesis using S(2) [OF True other] k1 room_at_cong by blast
      next
        case False
        then show ?thesis using S(1) [OF k1 k(2)] by simp
      qed
    qed
    then show ?thesis using t' k1 by blast
  qed
  then show ?thesis using ok(1) K R by blast
qed simp

theorem repair_takes_the_sole_receiver_witness:
  "let space = ((''home-space'', []), \<lparr>pr_mxid = ''!s:b'', pr_type = RoomSpace, pr_parent = ([], [])\<rparr>);
       room = ((''home-+15551234567'', ''@a:b''), \<lparr>pr_mxid = ''!r:b'', pr_type = RoomDM, pr_parent = (''home-space'', [])\<rparr>);
       t' = fst (repair_space move_row (\<lambda>_. \<lparr>rp_children = True, rp_login = True, rp_target = True, rp_drop = DbOk,
               rp_move = \<lparr>ma_check = True, ma_move = DbOk, ma_reparent = True\<rparr>, rp_after = True\<rparr>) [''@a:b''] space [space, room]) in
   room_at t' (''home-+15551234567'', ''@a:b'') ''!r:b''"
proof -
  let ?s = "((''home-space'', []), \<lparr>pr_mxid = ''!s:b'', pr_type = RoomSpace, pr_parent = ([], [])\<rparr>) :: portal_key \<times> portal_row"
  let ?r = "((''home-+15551234567'', ''@a:b''), \<lparr>pr_mxid = ''!r:b'', pr_type = RoomDM, pr_parent = (''home-space'', [])\<rparr>) :: portal_key \<times> portal_row"
  let ?a = "\<lambda>_ :: portal_key. \<lparr>rp_children = True, rp_login = True, rp_target = True, rp_drop = DbOk,
      rp_move = \<lparr>ma_check = True, ma_move = DbOk, ma_reparent = True\<rparr>, rp_after = True\<rparr>"
  have e: "repair_space move_row ?a [''@a:b''] ?s [?s, ?r]
      = (fst (repair_space move_row ?a [''@a:b''] ?s [?s, ?r]), snd (repair_space move_row ?a [''@a:b''] ?s [?s, ?r]))"
    by simp
  have m: "map_of [?s, ?r] (fst ?s) = Some (snd ?s)" "snd (fst ?s) = []" by simp_all
  have r: "room_at [?s, ?r] (''home-+15551234567'', ''@a:b'') ''!r:b''" by (simp add: room_at_def)
  from repair_takes_the_sole_receiver [OF move_row_moves m e]
  have "room_at (fst (repair_space move_row ?a [''@a:b''] ?s [?s, ?r])) (''home-+15551234567'', ''@a:b'') ''!r:b''"
  proof
    assume "map_of (fst (repair_space move_row ?a [''@a:b''] ?s [?s, ?r])) = map_of [?s, ?r]"
    then show ?thesis using r by (simp only: room_at_def)
  next
    assume "is_space_portal ?s
      \<and> (\<exists>recv. recv \<in> set [''@a:b''] \<and> recv \<noteq> [] \<and> children_of (fst ?s) [?s, ?r] \<noteq> []
          \<and> (\<forall>c \<in> set (children_of (fst ?s) [?s, ?r]). snd (fst c) = recv)
          \<and> (map_of [?s, ?r] (fst (fst ?s), recv) \<noteq> None \<longrightarrow> children_of (fst (fst ?s), recv) [?s, ?r] = [])
          \<and> (\<forall>k mxid. room_at [?s, ?r] k mxid \<and> mxid \<noteq> [] \<and> k \<noteq> (fst (fst ?s), recv)
               \<longrightarrow> room_at (fst (repair_space move_row ?a [''@a:b''] ?s [?s, ?r])) k mxid
                 \<or> k = fst ?s \<and> room_at (fst (repair_space move_row ?a [''@a:b''] ?s [?s, ?r])) (fst (fst ?s), recv) mxid))"
    then obtain recv where "\<forall>k mxid. room_at [?s, ?r] k mxid \<and> mxid \<noteq> [] \<and> k \<noteq> (fst (fst ?s), recv)
        \<longrightarrow> room_at (fst (repair_space move_row ?a [''@a:b''] ?s [?s, ?r])) k mxid
          \<or> k = fst ?s \<and> room_at (fst (repair_space move_row ?a [''@a:b''] ?s [?s, ?r])) (fst (fst ?s), recv) mxid"
      by blast
    from this [rule_format, of "(''home-+15551234567'', ''@a:b'')" "''!r:b''"] r show ?thesis by simp
  qed
  then show ?thesis by (simp only: Let_def)
qed

end
