(* ===== verification/Matrix_Side.thy ===== *)
theory Matrix_Side
  imports Logins Rooms
begin

section \<open>The Matrix side of calls (\<open>pkg/calls/matrixside.go\<close>, \<open>portaljoin.go\<close>)\<close>

text \<open>
  The adapter the call subsystem sees bridgev2 through: the room of a number, the portals of a
  user, the portal of a room.  The rooms by portal key, the users in a room and the rooms known
  to carry the power levels of a call are the state; the homeserver's and bridgev2's answers are
  arguments.
\<close>

record matrix_side =
  ms_logins :: login_store
  ms_rooms :: "(portal_key \<times> string) list"
  ms_joined :: "(string \<times> string) set"
  ms_invited :: "(string \<times> string) set"
  ms_repaired :: "string set"
  ms_updated :: "string list"

record call_portal =
  cp_id :: string
  cp_mxid :: string
  cp_owner :: string

definition room_of :: "matrix_side \<Rightarrow> portal_key \<Rightarrow> string" where
  "room_of st k = (case map_of (ms_rooms st) k of None \<Rightarrow> [] | Some r \<Rightarrow> r)"

subsection \<open>Joining\<close>

datatype join_error = NoDoublePuppet | JoinFailed | InviteFailed

text \<open>\<open>ensureUserInRoom\<close>: \<open>dp\<close> is whether the double puppet's join succeeds, if there is one, \<open>inviter\<close>
  whether the bot's invite does.\<close>

definition ensure_user_in_room :: "bool option \<Rightarrow> bool option \<Rightarrow> bool \<times> join_error list" where
  "ensure_user_in_room dp inviter =
     (if dp = Some True then (True, [])
      else
        let join_err = (if dp = None then NoDoublePuppet else JoinFailed) in
        case inviter of
          None \<Rightarrow> (False, [join_err])
        | Some ok \<Rightarrow> (False, if ok then [join_err] else [join_err, InviteFailed]))"

record side_answers =
  sa_login :: login_answers
  sa_get :: bool
  sa_create :: "string option"
  sa_levels :: "(string \<Rightarrow> int) option option"
  sa_info :: bool
  sa_puppet :: "bool option"
  sa_invite :: "bool option"

definition ensure_user_in_portal :: "side_answers \<Rightarrow> string \<Rightarrow> string \<Rightarrow> matrix_side \<Rightarrow> matrix_side" where
  "ensure_user_in_portal a room user st =
     (if room = [] then st
      else if fst (ensure_user_in_room (sa_puppet a) (sa_invite a))
      then st\<lparr>ms_joined := insert (user, room) (ms_joined st)\<rparr>
      else if sa_invite a = Some True then st\<lparr>ms_invited := insert (user, room) (ms_invited st)\<rparr>
      else st)"

subsection \<open>Power levels\<close>

definition call_power_levels_applied :: "(string \<Rightarrow> int) option \<Rightarrow> bool" where
  "call_power_levels_applied levels =
     (case levels of
        None \<Rightarrow> False
      | Some level \<Rightarrow> list_all (\<lambda>(evt, want). level evt = want) membership_power_levels)"

text \<open>\<open>reapplyChatInfo\<close>: \<open>ms_updated\<close> lists the rooms whose state was sent again.\<close>

definition reapply_chat_info :: "side_answers \<Rightarrow> string \<Rightarrow> matrix_side \<Rightarrow> matrix_side" where
  "reapply_chat_info a room st =
     (if room \<in> ms_repaired st then st
      else case sa_levels a of
          None \<Rightarrow> st
        | Some levels \<Rightarrow>
            if call_power_levels_applied levels then st\<lparr>ms_repaired := insert room (ms_repaired st)\<rparr>
            else if \<not> sa_info a then st
            else st\<lparr>ms_updated := ms_updated st @ [room]\<rparr>)"

subsection \<open>Portals\<close>

datatype side_error = SideLogin login_error | SideGet | SideCreate | SideList

definition portal_room :: "(string \<Rightarrow> bool) \<Rightarrow> (string \<Rightarrow> (string \<times> string) option) \<Rightarrow> side_answers \<Rightarrow> string \<Rightarrow> string
    \<Rightarrow> matrix_side \<Rightarrow> matrix_side \<times> (side_error + call_portal)" where
  "portal_room permitted parse a pid owner st =
     (case resolve_login permitted parse (sa_login a) id owner (ms_logins st) of
        (Inl e, ls) \<Rightarrow> (st\<lparr>ms_logins := ls\<rparr>, Inl (SideLogin e))
      | (Inr user, ls) \<Rightarrow>
          let st1 = st\<lparr>ms_logins := ls\<rparr>; key = (pid, user) in
          if \<not> sa_get a then (st1, Inl SideGet)
          else if room_of st1 key = [] then
            (case sa_create a of
               None \<Rightarrow> (st1, Inl SideCreate)
             | Some room \<Rightarrow>
                 (ensure_user_in_portal a room user (st1\<lparr>ms_rooms := (key, room) # ms_rooms st1\<rparr>),
                  Inr \<lparr>cp_id = pid, cp_mxid = room, cp_owner = user\<rparr>))
          else
            (ensure_user_in_portal a (room_of st1 key) user (reapply_chat_info a (room_of st1 key) st1),
             Inr \<lparr>cp_id = pid, cp_mxid = room_of st1 key, cp_owner = user\<rparr>))"

definition portal_ids :: "(string \<Rightarrow> bool) \<Rightarrow> (string \<Rightarrow> (string \<times> string) option) \<Rightarrow> side_answers \<Rightarrow> bool \<Rightarrow> string
    \<Rightarrow> matrix_side \<Rightarrow> matrix_side \<times> (side_error + string list)" where
  "portal_ids permitted parse a list_ok owner st =
     (case resolve_login permitted parse (sa_login a) id owner (ms_logins st) of
        (Inl e, ls) \<Rightarrow> (st\<lparr>ms_logins := ls\<rparr>, Inl (SideLogin e))
      | (Inr user, ls) \<Rightarrow>
          (st\<lparr>ms_logins := ls\<rparr>,
           if \<not> list_ok then Inl SideList
           else Inr (map (fst \<circ> fst) (filter (\<lambda>e. snd (fst e) = user) (filter (\<lambda>e. snd e \<noteq> []) (ms_rooms st))))))"

definition side_recipient :: "(string \<Rightarrow> bool) \<Rightarrow> (string \<Rightarrow> (string \<times> string) option) \<Rightarrow> side_answers \<Rightarrow> string
    \<Rightarrow> matrix_side \<Rightarrow> matrix_side \<times> (login_error + string)" where
  "side_recipient permitted parse a header st =
     (case resolve_login permitted parse (sa_login a) id header (ms_logins st) of
        (r, ls) \<Rightarrow> (st\<lparr>ms_logins := ls\<rparr>, r))"

text \<open>\<open>PortalByMXID\<close>, with the lookup of the room (\<open>None\<close> for none or an error) and of a cached login.\<close>

definition portal_by_mxid :: "(string \<Rightarrow> portal_key option) \<Rightarrow> (string \<Rightarrow> bool) \<Rightarrow> string \<Rightarrow> call_portal option" where
  "portal_by_mxid lookup cached room =
     (case lookup room of
        None \<Rightarrow> None
      | Some (pid, recv) \<Rightarrow>
          Some \<lparr>cp_id = pid, cp_mxid = room, cp_owner = (if recv \<noteq> [] \<and> cached recv then recv else [])\<rparr>)"

subsection \<open>Properties\<close>

lemma side_frame [simp]:
  "ms_rooms (ensure_user_in_portal a r u st) = ms_rooms st"
  "ms_logins (ensure_user_in_portal a r u st) = ms_logins st"
  "ms_rooms (reapply_chat_info a r st) = ms_rooms st"
  "ms_logins (reapply_chat_info a r st) = ms_logins st"
  by (simp_all add: ensure_user_in_portal_def reapply_chat_info_def split: option.split)

text \<open>C20: The room of a number for a user is that user's own: it is the one room of that number and
  user, created only if there was none, no other room changes, the user has a login, and, unless
  both the join and the invite fail, is in the room or invited to it; listing the user's portals
  then names it.\<close>

theorem portal_room_is_the_owners:
  assumes "portal_room permitted parse a pid owner st = (st', Inr p)" "sa_create a \<noteq> Some []"
  shows "cp_id p = pid \<and> cp_owner p = recipient_of owner (ms_logins st) \<and> cp_owner p \<in> set (ls_logins (ms_logins st'))
    \<and> cp_mxid p \<noteq> [] \<and> room_of st' (pid, cp_owner p) = cp_mxid p
    \<and> (room_of st (pid, cp_owner p) \<noteq> [] \<longrightarrow> ms_rooms st' = ms_rooms st)
    \<and> (\<forall>k. k \<noteq> (pid, cp_owner p) \<longrightarrow> room_of st' k = room_of st k)
    \<and> (sa_puppet a = Some True \<longrightarrow> (cp_owner p, cp_mxid p) \<in> ms_joined st')
    \<and> (sa_puppet a \<noteq> Some True \<and> sa_invite a = Some True \<longrightarrow> (cp_owner p, cp_mxid p) \<in> ms_invited st')"
proof -
  obtain user ls where l: "resolve_login permitted parse (sa_login a) id owner (ms_logins st) = (Inr user, ls)"
    using assms(1) by (auto simp: portal_room_def Let_def split: prod.splits sum.splits)
  have u: "user = recipient_of owner (ms_logins st)" using resolve_login_Inr [OF l] by blast
  have has: "user \<in> set (ls_logins ls)"
    using l by (auto simp: resolve_login_def ensure_login_def ensure_locked_def add_user_def login_id_for_def Let_def
        split: if_splits)
  define st1 where "st1 = st\<lparr>ms_logins := ls\<rparr>"
  have r1: "room_of st1 = room_of st" by (simp add: st1_def room_of_def fun_eq_iff)
  define room where "room = cp_mxid p"
  consider (old) "room_of st (pid, user) = room" "room \<noteq> []"
      "st' = ensure_user_in_portal a room user (reapply_chat_info a room st1)" "p = \<lparr>cp_id = pid, cp_mxid = room, cp_owner = user\<rparr>"
    | (new) "room_of st (pid, user) = []" "sa_create a = Some room" "room \<noteq> []"
      "st' = ensure_user_in_portal a room user (st1\<lparr>ms_rooms := ((pid, user), room) # ms_rooms st1\<rparr>)"
      "p = \<lparr>cp_id = pid, cp_mxid = room, cp_owner = user\<rparr>"
    using assms l unfolding portal_room_def Let_def room_def st1_def [symmetric]
    by (auto simp: r1 st1_def [symmetric] split: if_splits option.splits)
  then show ?thesis
  proof cases
    case old
    have "ms_logins st' = ls" "ms_rooms st' = ms_rooms st" by (simp_all add: old(3) st1_def)
    moreover have "room_of st' = room_of st" using calculation(2) by (simp add: room_of_def fun_eq_iff)
    moreover have "sa_puppet a = Some True \<longrightarrow> (user, room) \<in> ms_joined st'"
        "sa_puppet a \<noteq> Some True \<and> sa_invite a = Some True \<longrightarrow> (user, room) \<in> ms_invited st'"
      using old(2) by (simp_all add: old(3) ensure_user_in_portal_def ensure_user_in_room_def Let_def)
    ultimately show ?thesis using old u has by simp
  next
    case new
    have "ms_logins st' = ls" "ms_rooms st' = ((pid, user), room) # ms_rooms st" by (simp_all add: new(4) st1_def)
    moreover have "room_of st' k = (if k = (pid, user) then room else room_of st k)" for k
      using calculation(2) by (simp add: room_of_def)
    moreover have "sa_puppet a = Some True \<longrightarrow> (user, room) \<in> ms_joined st'"
        "sa_puppet a \<noteq> Some True \<and> sa_invite a = Some True \<longrightarrow> (user, room) \<in> ms_invited st'"
      using new(3) by (simp_all add: new(4) ensure_user_in_portal_def ensure_user_in_room_def Let_def)
    ultimately show ?thesis using new u has by simp
  qed
qed

definition new_side :: matrix_side where
  "new_side = \<lparr>ms_logins = no_logins, ms_rooms = [], ms_joined = {}, ms_invited = {}, ms_repaired = {}, ms_updated = []\<rparr>"

definition side_well :: side_answers where
  "side_well = \<lparr>sa_login = answering, sa_get = True, sa_create = Some ''!r:b'', sa_levels = None, sa_info = True,
     sa_puppet = Some True, sa_invite = None\<rparr>"

definition first_call :: "matrix_side \<times> (side_error + call_portal)" where
  "first_call = portal_room (\<lambda>_. True) sample_parse side_well ''15551234567'' ''@a:b'' new_side"

theorem portal_room_is_the_owners_witness:
  "room_of (fst first_call) (''15551234567'', ''@a:b'') = ''!r:b'' \<and> (''@a:b'', ''!r:b'') \<in> ms_joined (fst first_call)"
proof -
  have s: "snd first_call = Inr \<lparr>cp_id = ''15551234567'', cp_mxid = ''!r:b'', cp_owner = ''@a:b''\<rparr>"
  proof -
    obtain ls where "resolve_login (\<lambda>_. True) sample_parse answering id ''@a:b'' no_logins = (Inr ''@a:b'', ls)"
    proof -
      have "fst (resolve_login (\<lambda>_. True) sample_parse answering id ''@a:b'' no_logins) = Inr ''@a:b''" by code_simp
      then show thesis using that by (metis prod.collapse)
    qed
    then show ?thesis by (simp add: first_call_def portal_room_def side_well_def new_side_def room_of_def Let_def)
  qed
  then have e: "portal_room (\<lambda>_. True) sample_parse side_well ''15551234567'' ''@a:b'' new_side
      = (fst first_call, Inr \<lparr>cp_id = ''15551234567'', cp_mxid = ''!r:b'', cp_owner = ''@a:b''\<rparr>)"
    by (simp add: first_call_def prod_eq_iff)
  have c: "sa_create side_well \<noteq> Some []" "sa_puppet side_well = Some True" by (simp_all add: side_well_def)
  show ?thesis using portal_room_is_the_owners [OF e c(1)] c(2) by simp
qed

end
