(* ===== verification/Process.thy ===== *)
theory Process
  imports Prelude
begin

section \<open>The process (\<open>main.go\<close>)\<close>

text \<open>
  The wait for the database at the start, as the loop it is.  What attempt \<open>n\<close> of the ping answers and how long it takes is an argument; times are
  counted from the start of the wait.  A timer that ends with the deadline gives up: the
  \<open>select\<close> may choose either then.
\<close>

definition db_ping_backoff :: nanos where "db_ping_backoff = 250000000"
definition db_ping_max_delay :: nanos where "db_ping_max_delay = 5000000000"
definition db_ping_deadline :: nanos where "db_ping_deadline = 60000000000"

text \<open>The result is whether the database answered, the last attempt, and when it ended.\<close>

partial_function (option) wait_loop :: "(nat \<Rightarrow> bool \<times> nanos) \<Rightarrow> nanos \<Rightarrow> nanos \<Rightarrow> nat \<Rightarrow> nanos \<Rightarrow> nanos
    \<Rightarrow> (bool \<times> nat \<times> nanos) option" where
  "wait_loop pings max_delay deadline attempt t delay =
     (let t1 = t + snd (pings attempt) in
      if fst (pings attempt) then Some (True, attempt, t1)
      else if deadline \<le> t1 then Some (False, attempt, t1)
      else if deadline \<le> t1 + max delay 0 then Some (False, attempt, deadline)
      else wait_loop pings max_delay deadline (attempt + 1) (t1 + max delay 0) (min (i64 (delay * 2)) max_delay))"

definition wait_for_db :: "(nat \<Rightarrow> bool \<times> nanos) \<Rightarrow> nanos \<Rightarrow> nanos \<Rightarrow> nanos \<Rightarrow> (bool \<times> nat \<times> nanos) option" where
  "wait_for_db pings first_delay max_delay deadline = wait_loop pings max_delay deadline 1 0 first_delay"

text \<open>The exit code of the process, if it exits.\<close>

definition post_init :: "(nat \<Rightarrow> bool \<times> nanos) \<Rightarrow> int option option" where
  "post_init pings =
     map_option (\<lambda>(ok, _). if ok then None else Some 14)
       (wait_for_db pings db_ping_backoff db_ping_max_delay db_ping_deadline)"

subsection \<open>Properties\<close>

lemma wait_loop_ends:
  assumes "0 < b" "b \<le> delay" "delay \<le> mx" "mx < 2 ^ 62" "\<And>n. 0 \<le> snd (pings n)"
  shows "\<exists>ok n t'. wait_loop pings mx deadline attempt t delay = Some (ok, n, t') \<and> attempt \<le> n
    \<and> ok = fst (pings n) \<and> (\<forall>k. attempt \<le> k \<and> k < n \<longrightarrow> \<not> fst (pings k))
    \<and> int (n - attempt) * b \<le> max 0 (deadline - t) \<and> t' \<le> max deadline t + snd (pings n)"
  using assms(2,3)
proof (induction "nat (deadline - t)" arbitrary: t delay attempt rule: less_induct)
  case less
  let ?t1 = "t + snd (pings attempt)"
  have p: "0 \<le> snd (pings attempt)" using assms(5) .
  show ?case
  proof (cases "fst (pings attempt) \<or> deadline \<le> ?t1 \<or> deadline \<le> ?t1 + max delay 0")
    case True
    have e: "wait_loop pings mx deadline attempt t delay =
        Some (if fst (pings attempt) then (True, attempt, ?t1)
              else if deadline \<le> ?t1 then (False, attempt, ?t1) else (False, attempt, deadline))"
      using True by (subst wait_loop.simps) (auto simp: Let_def)
    show ?thesis unfolding e using p True by auto
  next
    case False
    let ?t2 = "?t1 + delay" and ?d = "min (delay * 2) mx"
    have d: "0 < delay" "i64 (delay * 2) = delay * 2" "max delay 0 = delay"
      using less.prems assms(1,4) by (auto simp: i64_id)
    have e: "wait_loop pings mx deadline attempt t delay = wait_loop pings mx deadline (attempt + 1) ?t2 ?d"
      using False d by (subst wait_loop.simps) (simp add: Let_def)
    have "nat (deadline - ?t2) < nat (deadline - t)" using d p False by auto
    moreover have "b \<le> ?d" "?d \<le> mx" using less.prems assms(1) by auto
    ultimately obtain ok n t' where
      w: "wait_loop pings mx deadline (attempt + 1) ?t2 ?d = Some (ok, n, t')" "attempt + 1 \<le> n"
        "ok = fst (pings n)" "\<forall>k. attempt + 1 \<le> k \<and> k < n \<longrightarrow> \<not> fst (pings k)"
        "int (n - (attempt + 1)) * b \<le> max 0 (deadline - ?t2)" "t' \<le> max deadline ?t2 + snd (pings n)"
      using less.hyps [of ?t2 ?d "attempt + 1"] by blast
    have "int (n - attempt) * b = int (n - (attempt + 1)) * b + b"
      using w(2) by (simp add: algebra_simps of_nat_diff)
    moreover have "max 0 (deadline - ?t2) + b \<le> max 0 (deadline - t)" using False d p less.prems(1) by auto
    ultimately have "int (n - attempt) * b \<le> max 0 (deadline - t)" using w(5) by linarith
    moreover have "\<not> fst (pings k)" if "attempt \<le> k \<and> k < n" for k
      using w(4) False that by (cases "k = attempt") auto
    moreover have "t' \<le> max deadline t + snd (pings n)" using w(6) False d by auto
    ultimately show ?thesis using e w(1-3) by (intro exI [of _ ok] exI [of _ n] exI [of _ t']) auto
  qed
qed


definition refusing :: "nat \<Rightarrow> bool \<times> nanos" where
  "refusing n = (n > 3, 0)"


end
