(* ===== verification/Metrics.thy ===== *)
theory Metrics
  imports Call_Record Sip_Message Callaudit
begin

section \<open>The exposition (\<open>pkg/metrics/metrics.go\<close>, \<open>pkg/callaudit/metrics.go\<close>)\<close>

text \<open>
  The two recorders: a labelled vector is a map from the values of its labels to the series there
  is for them, which \<open>WithLabelValues\<close> makes on first use.  A counter is an integer, exact as the
  code's float up to \<open>2\<^sup>5\<^sup>3\<close>; adding a negative number to one panics, and is \<open>None\<close>.  A histogram is
  the list of what was observed.  What the rest of the bridge reports is an event with the values
  the labels are made from.
\<close>

type_synonym 'v vec = "string list \<rightharpoonup> 'v"

definition with_labels :: "'v \<Rightarrow> string list \<Rightarrow> 'v vec \<Rightarrow> 'v vec" where
  "with_labels z ls m = (if m ls = None then m(ls \<mapsto> z) else m)"

definition update_at :: "'v \<Rightarrow> ('v \<Rightarrow> 'v) \<Rightarrow> string list \<Rightarrow> 'v vec \<Rightarrow> 'v vec" where
  "update_at z f ls m = (let m1 = with_labels z ls m in m1(ls := map_option f (m1 ls)))"

definition increment :: "string list \<Rightarrow> int vec \<Rightarrow> int vec" where
  "increment = update_at 0 (\<lambda>n. n + 1)"

definition pre_init :: "'v \<Rightarrow> string list list \<Rightarrow> 'v vec" where
  "pre_init z lss = fold (with_labels z) lss Map.empty"

definition label_product :: "string list \<Rightarrow> string list \<Rightarrow> string list list" where
  "label_product as bs = concat (map (\<lambda>a. map (\<lambda>b. [a, b]) bs) as)"

definition value_at :: "int vec \<Rightarrow> string list \<Rightarrow> int" where
  "value_at m ls = (case m ls of None \<Rightarrow> 0 | Some n \<Rightarrow> n)"

subsection \<open>Labels\<close>

definition direction_labels :: "string list" where
  "direction_labels = [''inbound'', ''outbound'']"

definition metric_direction :: "call_direction \<Rightarrow> string" where
  "metric_direction d = (if d = Outbound then ''outbound'' else ''inbound'')"

definition call_outcome_names :: "(call_outcome \<times> string) list" where
  "call_outcome_names =
     [(OutcomeAnswered, ''answered''), (OutcomeMissed, ''missed''), (OutcomeDeclined, ''declined''),
      (OutcomeFailed, ''failed''), (OutcomeStale, ''stale''), (OutcomeAnsweredElsewhere, ''answered_elsewhere'')]"

definition inbound_message_names :: "(message_outcome \<times> string) list" where
  "inbound_message_names =
     [(MsgBridged, ''bridged''), (MsgSpooled, ''spooled''), (MsgPersistFailed, ''persist_failed''),
      (MsgDroppedBadSender, ''dropped_unparseable_sender''), (MsgRefusedRecipient, ''refused_recipient''),
      (MsgRejectedMediaType, ''rejected_content_type''), (MsgRejectedNoHandler, ''rejected_no_handler'')]"

definition outbound_message_names :: "(message_outcome \<times> string) list" where
  "outbound_message_names =
     [(MsgSent, ''sent''), (MsgRejected, ''rejected''), (MsgTooLong, ''too_long''), (MsgError, ''error'')]"

definition outcome_label :: "call_outcome \<Rightarrow> string" where
  "outcome_label o' = the (map_of call_outcome_names o')"

text \<open>Every call site names the direction the outcome belongs to.\<close>

definition message_labels :: "message_outcome \<Rightarrow> string list" where
  "message_labels o' =
     (case map_of inbound_message_names o' of
        Some l \<Rightarrow> [''inbound'', l]
      | None \<Rightarrow> [''outbound'', the (map_of outbound_message_names o')])"

definition trunk_label :: "bool \<Rightarrow> string" where
  "trunk_label ok = (if ok then ''ok'' else ''error'')"

subsection \<open>The bridge's recorder\<close>

record recorder =
  rec_calls :: "int vec"
  rec_setup :: "nanos list vec"
  rec_registered :: int
  rec_trunk :: "int vec"
  rec_messages :: "int vec"
  rec_start :: int
  rec_listen :: int
  rec_outbox :: int
  rec_spool :: int

definition new_recorder :: "int \<Rightarrow> recorder" where
  "new_recorder now =
     \<lparr>rec_calls = pre_init 0 (label_product direction_labels (map snd call_outcome_names)),
      rec_setup = pre_init [] (map (\<lambda>d. [d]) direction_labels),
      rec_registered = 0,
      rec_trunk = pre_init 0 [[trunk_label True], [trunk_label False]],
      rec_messages = pre_init 0 (map (\<lambda>l. [''inbound'', l]) (map snd inbound_message_names)
                               @ map (\<lambda>l. [''outbound'', l]) (map snd outbound_message_names)),
      rec_start = now, rec_listen = 0, rec_outbox = 0, rec_spool = 0\<rparr>"

datatype bridge_event =
    CallOver call call_ending
  | CallSetUp call_direction nanos
  | SipPolled bool
  | TrunkReconciled bool
  | TextCounted message_outcome
  | SipListens int
  | OutboxDepth int
  | SpoolDepth int

definition record_event :: "bridge_event \<Rightarrow> recorder \<Rightarrow> recorder" where
  "record_event e r =
     (case e of
        CallOver c en \<Rightarrow>
          r\<lparr>rec_calls := increment [metric_direction (direction c), outcome_label (call_outcome c en)] (rec_calls r)\<rparr>
      | CallSetUp d t \<Rightarrow> r\<lparr>rec_setup := update_at [] (\<lambda>xs. xs @ [max t 0]) [metric_direction d] (rec_setup r)\<rparr>
      | SipPolled ready \<Rightarrow> r\<lparr>rec_registered := (if ready then 1 else 0)\<rparr>
      | TrunkReconciled ok \<Rightarrow> r\<lparr>rec_trunk := increment [trunk_label ok] (rec_trunk r)\<rparr>
      | TextCounted o' \<Rightarrow> r\<lparr>rec_messages := increment (message_labels o') (rec_messages r)\<rparr>
      | SipListens now \<Rightarrow> r\<lparr>rec_listen := now\<rparr>
      | OutboxDepth n \<Rightarrow> r\<lparr>rec_outbox := n\<rparr>
      | SpoolDepth n \<Rightarrow> r\<lparr>rec_spool := n\<rparr>)"

text \<open>A method on a nil recorder does nothing.\<close>

definition report_to :: "recorder option \<Rightarrow> bridge_event \<Rightarrow> recorder option" where
  "report_to r e = map_option (record_event e) r"

subsection \<open>The recorder of the audit\<close>

definition stream_names :: "string list" where
  "stream_names = [''sip_in'', ''room_in'', ''room_published'']"

record audit_recorder =
  ar_calls :: "int vec"
  ar_packets :: "int vec"
  ar_subscribes :: "int vec"
  ar_lines :: "int vec"
  ar_last :: int

definition new_audit_recorder :: audit_recorder where
  "new_audit_recorder =
     \<lparr>ar_calls = pre_init 0 (label_product direction_names verdicts),
      ar_packets = pre_init 0 (label_product direction_names stream_names),
      ar_subscribes = pre_init 0 (map (\<lambda>d. [d]) direction_names),
      ar_lines = pre_init 0 [[''parsed''], [''malformed'']],
      ar_last = 0\<rparr>"

definition add_to :: "int \<Rightarrow> string list \<Rightarrow> int vec \<Rightarrow> int vec option" where
  "add_to n ls m = (if n < 0 then None else Some (update_at 0 (\<lambda>v. v + n) ls m))"

definition observe_call :: "int \<Rightarrow> int \<Rightarrow> call_stats \<Rightarrow> audit_recorder \<Rightarrow> audit_recorder option" where
  "observe_call now min_packets s r =
     (let d = cs_direction s in
      case add_to (cs_sip_audio s) [d, ''sip_in''] (ar_packets r) of None \<Rightarrow> None | Some p1 \<Rightarrow>
      (case add_to (cs_room_input s) [d, ''room_in''] p1 of None \<Rightarrow> None | Some p2 \<Rightarrow>
      (case add_to (cs_published s) [d, ''room_published''] p2 of None \<Rightarrow> None | Some p3 \<Rightarrow>
      (case add_to (cs_subscribes s) [d] (ar_subscribes r) of None \<Rightarrow> None | Some sb \<Rightarrow>
         Some (r\<lparr>ar_lines := increment [''parsed''] (ar_lines r),
                 ar_calls := increment [d, audio s min_packets] (ar_calls r),
                 ar_packets := p3, ar_subscribes := sb, ar_last := now\<rparr>)))))"

definition malformed_line :: "audit_recorder \<Rightarrow> audit_recorder" where
  "malformed_line r = r\<lparr>ar_lines := increment [''malformed''] (ar_lines r)\<rparr>"

text \<open>What \<open>run\<close> records of one line of the log, read at time \<open>now\<close>.\<close>

definition record_line :: "(string \<Rightarrow> payload option) \<Rightarrow> int \<Rightarrow> int \<times> string \<Rightarrow> audit_recorder
    \<Rightarrow> audit_recorder option" where
  "record_line decode min_packets l r =
     (case parse_line decode (snd l) of
        NotOurs \<Rightarrow> Some r
      | Malformed \<Rightarrow> Some (malformed_line r)
      | Parsed_Stats s \<Rightarrow> observe_call (fst l) min_packets s r)"

fun record_all :: "('e \<Rightarrow> 'r \<Rightarrow> 'r option) \<Rightarrow> 'e list \<Rightarrow> 'r \<Rightarrow> 'r option" where
  "record_all observe [] r = Some r"
| "record_all observe (e # es) r =
     (case observe e r of None \<Rightarrow> None | Some r1 \<Rightarrow> record_all observe es r1)"

subsection \<open>The contract of a recorder\<close>

text \<open>
  What both recorders promise: recording an event, unless it panics, makes no series that \<open>init\<close>
  does not have, and adds to each counter what the event adds.  \<open>adds e k\<close> is what event \<open>e\<close>
  adds to counter \<open>k\<close>.
\<close>

locale closed_series =
  fixes series :: "'r \<Rightarrow> 'd"
    and reading :: "'r \<Rightarrow> 'k \<Rightarrow> int"
    and observe :: "'e \<Rightarrow> 'r \<Rightarrow> 'r option"
    and adds :: "'e \<Rightarrow> 'k \<Rightarrow> int"
    and init :: 'r
  assumes keeps: "series r = series init \<Longrightarrow> observe e r = Some r' \<Longrightarrow> series r' = series init"
    and counts: "observe e r = Some r' \<Longrightarrow> reading r' k = reading r k + adds e k"
    and zero: "reading init k = 0"
begin

lemma series_closed:
  "record_all observe es r = Some r' \<Longrightarrow> series r = series init \<Longrightarrow> series r' = series init"
  by (induction es arbitrary: r) (auto split: option.splits dest: keeps)

lemma reading_from:
  "record_all observe es r = Some r' \<Longrightarrow> reading r' k = reading r k + sum_list (map (\<lambda>e. adds e k) es)"
  by (induction es arbitrary: r) (auto split: option.splits dest: counts [where k = k])

lemma exposed:
  assumes "record_all observe es init = Some r"
  shows "series r = series init" "reading r k = sum_list (map (\<lambda>e. adds e k) es)"
  using series_closed [OF assms] reading_from [OF assms] zero by simp_all

end

lemma value_at_update [simp]:
  "value_at (update_at 0 (\<lambda>v. v + n) ls m) k = value_at m k + (if k = ls then n else 0)"
  by (simp add: update_at_def with_labels_def value_at_def Let_def split: option.split)

lemma dom_update_at [simp]: "dom (update_at z f ls m) = insert ls (dom m)"
  by (auto simp: update_at_def with_labels_def Let_def)

lemma dom_fold_with: "dom (fold (with_labels z) lss m) = set lss \<union> dom m"
  by (induction lss arbitrary: m) (auto simp: with_labels_def)

lemma dom_pre_init [simp]: "dom (pre_init z lss) = set lss"
  by (simp add: pre_init_def dom_fold_with)

lemma value_at_fold_with:
  "value_at m k = 0 \<Longrightarrow> value_at (fold (with_labels 0) lss m) k = 0"
proof (induction lss arbitrary: m)
  case (Cons ls lss)
  then have "value_at (with_labels 0 ls m) k = 0" by (simp add: with_labels_def value_at_def)
  then show ?case using Cons.IH by simp
qed simp

lemma value_at_pre_init [simp]: "value_at (pre_init 0 lss) k = 0"
  unfolding pre_init_def by (rule value_at_fold_with) (simp add: value_at_def)

lemma sum_indicator: "sum_list (map (\<lambda>e. if P e then 1 else (0 :: int)) es) = int (length (filter P es))"
  by (induction es) auto

subsection \<open>The bridge's series\<close>

definition bridge_series :: "recorder \<Rightarrow> string list set \<times> string list set \<times> string list set \<times> string list set" where
  "bridge_series r = (dom (rec_calls r), dom (rec_setup r), dom (rec_trunk r), dom (rec_messages r))"

datatype bridge_counter = CallsTotal | TrunkTotal | MessagesTotal

definition bridge_reading :: "recorder \<Rightarrow> bridge_counter \<times> string list \<Rightarrow> int" where
  "bridge_reading r k =
     (case fst k of
        CallsTotal \<Rightarrow> value_at (rec_calls r) (snd k)
      | TrunkTotal \<Rightarrow> value_at (rec_trunk r) (snd k)
      | MessagesTotal \<Rightarrow> value_at (rec_messages r) (snd k))"

definition counted_under :: "bridge_event \<Rightarrow> (bridge_counter \<times> string list) option" where
  "counted_under e =
     (case e of
        CallOver c en \<Rightarrow> Some (CallsTotal, [metric_direction (direction c), outcome_label (call_outcome c en)])
      | TrunkReconciled ok \<Rightarrow> Some (TrunkTotal, [trunk_label ok])
      | TextCounted o' \<Rightarrow> Some (MessagesTotal, message_labels o')
      | _ \<Rightarrow> None)"

definition bridge_adds :: "bridge_event \<Rightarrow> bridge_counter \<times> string list \<Rightarrow> int" where
  "bridge_adds e k = (if counted_under e = Some k then 1 else 0)"

lemma metric_direction_label [simp]: "metric_direction d \<in> set direction_labels"
  by (simp add: metric_direction_def direction_labels_def)

lemma outcome_labelled [simp]: "outcome_label o' \<in> set (map snd call_outcome_names)"
  by (cases o') (simp_all add: outcome_label_def call_outcome_names_def)

definition message_label_set :: "string list set" where
  "message_label_set = set (map (\<lambda>l. [''inbound'', l]) (map snd inbound_message_names)
     @ map (\<lambda>l. [''outbound'', l]) (map snd outbound_message_names))"

lemma message_labelled [simp]: "message_labels o' \<in> message_label_set"
  by (cases o') (simp_all add: message_label_set_def message_labels_def inbound_message_names_def
      outbound_message_names_def)

lemma trunk_labelled [simp]: "[trunk_label ok] \<in> {[trunk_label True], [trunk_label False]}"
  by (cases ok) simp_all

lemma new_recorder_series:
  "bridge_series (new_recorder now) = (set (label_product direction_labels (map snd call_outcome_names)),
     set (map (\<lambda>d. [d]) direction_labels), {[trunk_label True], [trunk_label False]}, message_label_set)"
  by (simp add: bridge_series_def new_recorder_def message_label_set_def)

lemma label_product_iff [simp]: "[a, b] \<in> set (label_product as bs) \<longleftrightarrow> a \<in> set as \<and> b \<in> set bs"
  by (auto simp: label_product_def)

lemma record_event_series:
  assumes "bridge_series r = bridge_series (new_recorder now)"
  shows "bridge_series (record_event e r) = bridge_series (new_recorder now)"
proof -
  let ?C = "set (label_product direction_labels (map snd call_outcome_names))"
  have d: "dom (rec_calls r) = ?C" "dom (rec_setup r) = set (map (\<lambda>d. [d]) direction_labels)"
    "dom (rec_trunk r) = {[trunk_label True], [trunk_label False]}" "dom (rec_messages r) = message_label_set"
    using assms unfolding new_recorder_series by (simp_all only: bridge_series_def prod.inject)
  show ?thesis
  proof (cases e)
    case (CallOver c en)
    have "[metric_direction (direction c), outcome_label (call_outcome c en)] \<in> ?C" by (simp del: set_map)
    then show ?thesis unfolding CallOver new_recorder_series
      by (simp add: bridge_series_def record_event_def increment_def d insert_absorb del: set_map)
  next
    case (CallSetUp di t)
    have "[metric_direction di] \<in> set (map (\<lambda>d. [d]) direction_labels)" by simp
    then show ?thesis unfolding CallSetUp new_recorder_series
      by (simp add: bridge_series_def record_event_def d insert_absorb del: set_map)
  next
    case (TrunkReconciled ok)
    then show ?thesis unfolding TrunkReconciled new_recorder_series
      by (cases ok) (auto simp: bridge_series_def record_event_def increment_def d simp del: set_map)
  next
    case (TextCounted o')
    show ?thesis unfolding TextCounted new_recorder_series
      by (simp add: bridge_series_def record_event_def increment_def d insert_absorb del: set_map)
  qed (unfold new_recorder_series, simp_all add: bridge_series_def record_event_def d del: set_map)
qed

interpretation bridge: closed_series bridge_series bridge_reading "\<lambda>e r. Some (record_event e r)"
  bridge_adds "new_recorder now" for now
proof unfold_locales
  fix r r' :: recorder and e and k
  show "bridge_series r' = bridge_series (new_recorder now)"
    if "bridge_series r = bridge_series (new_recorder now)" "Some (record_event e r) = Some r'"
    using that record_event_series [of r now e] by (simp add: new_recorder_series)
  show "bridge_reading r' k = bridge_reading r k + bridge_adds e k" if "Some (record_event e r) = Some r'"
    using that by (cases e; cases k; cases "fst k")
      (auto simp: bridge_reading_def bridge_adds_def counted_under_def record_event_def increment_def)
  show "bridge_reading (new_recorder now) k = 0"
    by (simp add: bridge_reading_def new_recorder_def split: bridge_counter.split)
qed

subsection \<open>The audit's series\<close>

definition audit_series :: "audit_recorder \<Rightarrow> string list set \<times> string list set \<times> string list set \<times> string list set" where
  "audit_series r = (dom (ar_calls r), dom (ar_packets r), dom (ar_subscribes r), dom (ar_lines r))"

datatype audit_counter = AuditCalls | AuditPackets | AuditSubscribes | AuditLines

definition audit_reading :: "audit_recorder \<Rightarrow> audit_counter \<times> string list \<Rightarrow> int" where
  "audit_reading r k =
     (case fst k of
        AuditCalls \<Rightarrow> value_at (ar_calls r) (snd k)
      | AuditPackets \<Rightarrow> value_at (ar_packets r) (snd k)
      | AuditSubscribes \<Rightarrow> value_at (ar_subscribes r) (snd k)
      | AuditLines \<Rightarrow> value_at (ar_lines r) (snd k))"

definition call_adds :: "int \<Rightarrow> call_stats \<Rightarrow> audit_counter \<times> string list \<Rightarrow> int" where
  "call_adds m s k =
     (let d = cs_direction s; on = (\<lambda>c ls n. if k = (c, ls) then n else 0) in
      on AuditCalls [d, audio s m] 1 + on AuditLines [''parsed''] 1
      + on AuditPackets [d, ''sip_in''] (cs_sip_audio s) + on AuditPackets [d, ''room_in''] (cs_room_input s)
      + on AuditPackets [d, ''room_published''] (cs_published s) + on AuditSubscribes [d] (cs_subscribes s))"

definition line_adds :: "(string \<Rightarrow> payload option) \<Rightarrow> int \<Rightarrow> int \<times> string \<Rightarrow> audit_counter \<times> string list \<Rightarrow> int" where
  "line_adds decode m l k =
     (case parse_line decode (snd l) of
        NotOurs \<Rightarrow> 0
      | Malformed \<Rightarrow> (if k = (AuditLines, [''malformed'']) then 1 else 0)
      | Parsed_Stats s \<Rightarrow> call_adds m s k)"

definition negative_stats :: "call_stats \<Rightarrow> bool" where
  "negative_stats s = (cs_sip_audio s < 0 \<or> cs_room_input s < 0 \<or> cs_published s < 0 \<or> cs_subscribes s < 0)"

definition observed :: "int \<Rightarrow> int \<Rightarrow> call_stats \<Rightarrow> audit_recorder \<Rightarrow> audit_recorder" where
  "observed now m s r =
     r\<lparr>ar_lines := increment [''parsed''] (ar_lines r),
       ar_calls := increment [cs_direction s, audio s m] (ar_calls r),
       ar_packets := update_at 0 (\<lambda>v. v + cs_published s) [cs_direction s, ''room_published'']
         (update_at 0 (\<lambda>v. v + cs_room_input s) [cs_direction s, ''room_in'']
           (update_at 0 (\<lambda>v. v + cs_sip_audio s) [cs_direction s, ''sip_in''] (ar_packets r))),
       ar_subscribes := update_at 0 (\<lambda>v. v + cs_subscribes s) [cs_direction s] (ar_subscribes r),
       ar_last := now\<rparr>"

lemma observe_call_eq:
  "observe_call now m s r = (if negative_stats s then None else Some (observed now m s r))"
  by (simp add: observe_call_def add_to_def negative_stats_def observed_def Let_def)

lemma observed_reading: "audit_reading (observed now m s r) k = audit_reading r k + call_adds m s k"
proof -
  obtain c ls where k: "k = (c, ls)" by (cases k)
  show ?thesis unfolding k
    by (cases c) (simp_all add: audit_reading_def call_adds_def observed_def increment_def Let_def)
qed

lemma audit_start: "audit_series new_audit_recorder =
    (set (label_product direction_names verdicts), set (label_product direction_names stream_names),
     set (map (\<lambda>d. [d]) direction_names), {[''parsed''], [''malformed'']})"
  by (simp add: audit_series_def new_audit_recorder_def)

lemma audit_series_iff:
  "audit_series r = audit_series new_audit_recorder \<longleftrightarrow>
     dom (ar_calls r) = set (label_product direction_names verdicts)
     \<and> dom (ar_packets r) = set (label_product direction_names stream_names)
     \<and> dom (ar_subscribes r) = set (map (\<lambda>d. [d]) direction_names)
     \<and> dom (ar_lines r) = {[''parsed''], [''malformed'']}"
  unfolding audit_start by (simp only: audit_series_def prod.inject)

lemma observed_series:
  assumes "cs_direction s \<in> set direction_names" "audit_series r = audit_series new_audit_recorder"
  shows "audit_series (observed now m s r) = audit_series new_audit_recorder"
proof -
  have v: "audio s m \<in> set verdicts" by (simp add: audio_def verdicts_def Let_def)
  have n: "''sip_in'' \<in> set stream_names" "''room_in'' \<in> set stream_names" "''room_published'' \<in> set stream_names"
    by (simp_all add: stream_names_def)
  show ?thesis using assms v n unfolding audit_series_iff
    by (simp add: observed_def increment_def insert_absorb)
qed

lemma malformed_series:
  "audit_series r = audit_series new_audit_recorder \<Longrightarrow> audit_series (malformed_line r) = audit_series new_audit_recorder"
  unfolding audit_series_iff by (simp add: malformed_line_def increment_def insert_absorb)

lemma parsed_direction: "parse_line decode l = Parsed_Stats s \<Longrightarrow> cs_direction s \<in> set direction_names"
  by (auto simp: parse_line_def stats_of_def audit_direction_def direction_names_def Let_def
      split: if_splits option.splits prod.splits)

interpretation audit: closed_series audit_series audit_reading "record_line decode m" "line_adds decode m"
  new_audit_recorder for decode m
proof unfold_locales
  fix r r' :: audit_recorder and e and k
  show "audit_series r' = audit_series new_audit_recorder"
    if "audit_series r = audit_series new_audit_recorder" "record_line decode m e r = Some r'"
    using that observed_series [OF parsed_direction] malformed_series
    by (auto simp only: record_line_def observe_call_eq option.inject if_split option.distinct
        split: line_result.splits if_split_asm)
  show "audit_reading r' k = audit_reading r k + line_adds decode m e k" if "record_line decode m e r = Some r'"
  proof (cases "parse_line decode (snd e)")
    case Malformed
    obtain c ls where k: "k = (c, ls)" by (cases k)
    show ?thesis using that Malformed unfolding k
      by (cases c) (auto simp: record_line_def line_adds_def malformed_line_def audit_reading_def increment_def)
  next
    case (Parsed_Stats s)
    then show ?thesis using that by (auto simp: record_line_def line_adds_def observe_call_eq observed_reading split: if_split_asm)
  qed (use that in \<open>simp add: record_line_def line_adds_def\<close>)
  show "audit_reading new_audit_recorder k = 0"
    by (simp add: audit_reading_def new_audit_recorder_def split: audit_counter.split)
qed

subsection \<open>Properties\<close>

lemma record_all_Some: "record_all (\<lambda>e r. Some (f e r)) es r = Some (fold f es r)"
  by (induction es arbitrary: r) simp_all

lemma direction_label_inj [simp]: "metric_direction d = metric_direction d' \<longleftrightarrow> d = d'"
  by (cases d; cases d') (simp_all add: metric_direction_def)

lemma outcome_label_inj [simp]: "outcome_label a = outcome_label b \<longleftrightarrow> a = b"
  by (cases a; cases b) (simp_all add: outcome_label_def call_outcome_names_def)

fun outcome_of_labels :: "string list \<Rightarrow> message_outcome option" where
  "outcome_of_labels [d, l] =
     map_of (map prod.swap (if d = ''inbound'' then inbound_message_names else outbound_message_names)) l"
| "outcome_of_labels _ = None"

lemma message_labels_read: "outcome_of_labels (message_labels a) = Some a"
  by (cases a) (simp_all add: message_labels_def inbound_message_names_def outbound_message_names_def)

lemma message_labels_inj [simp]: "message_labels a = message_labels b \<longleftrightarrow> a = b"
  by (metis message_labels_read option.inject)

text \<open>The exposition is closed and complete: however long the bridge runs and whatever happens to it,
  it shows exactly the series it showed at its start, no label is ever made from data, and each
  counter of calls, of texts and of reconciles is the number of those events.\<close>

theorem exposition_is_closed:
  "let r = fold record_event es (new_recorder now) in
     bridge_series r = bridge_series (new_recorder now)
     \<and> value_at (rec_calls r) [metric_direction d, outcome_label o']
         = int (length (filter (\<lambda>e. \<exists>c en. e = CallOver c en \<and> direction c = d \<and> call_outcome c en = o') es))
     \<and> value_at (rec_messages r) (message_labels m) = int (length (filter (\<lambda>e. e = TextCounted m) es))
     \<and> value_at (rec_trunk r) [trunk_label ok] = int (length (filter (\<lambda>e. e = TrunkReconciled ok) es))"
proof -
  let ?r = "fold record_event es (new_recorder now)"
  note X = bridge.exposed [OF record_all_Some]
  have count: "bridge_reading ?r k = int (length (filter (\<lambda>e. counted_under e = Some k) es))" for k
    using X(2) [of es now k] unfolding bridge_adds_def sum_indicator .
  have "counted_under e = Some (CallsTotal, [metric_direction d, outcome_label o'])
      \<longleftrightarrow> (\<exists>c en. e = CallOver c en \<and> direction c = d \<and> call_outcome c en = o')" for e
    by (cases e) (auto simp: counted_under_def)
  moreover have "counted_under e = Some (MessagesTotal, message_labels m) \<longleftrightarrow> e = TextCounted m" for e
    by (cases e) (auto simp: counted_under_def)
  moreover have "counted_under e = Some (TrunkTotal, [trunk_label ok]) \<longleftrightarrow> e = TrunkReconciled ok" for e
    by (cases e) (auto simp: counted_under_def trunk_label_def)
  ultimately show ?thesis
    using X(1) [of es now] count [of "(CallsTotal, [metric_direction d, outcome_label o'])"]
      count [of "(MessagesTotal, message_labels m)"] count [of "(TrunkTotal, [trunk_label ok])"]
    by (simp add: bridge_reading_def)
qed

lemma sum_calls:
  "sum_list (map (\<lambda>l. case parse_line decode (snd l) of Parsed_Stats s \<Rightarrow> f s | _ \<Rightarrow> 0) ls)
     = sum_list (map f (calls_of decode (map snd ls)))" for f :: "call_stats \<Rightarrow> int"
  by (induction ls) (simp_all add: calls_of_def split: line_result.split)

lemma record_all_panics:
  "record_all (record_line decode m) ls r = None \<longleftrightarrow> (\<exists>s \<in> set (calls_of decode (map snd ls)). negative_stats s)"
proof (induction ls arbitrary: r)
  case (Cons l ls)
  then show ?case by (auto simp: record_line_def observe_call_eq calls_of_def split: line_result.split)
qed (simp add: calls_of_def)

text \<open>C40: The audit's exposition is closed as well: whatever a log holds, phone numbers and rooms
  included, reading it makes no series that was not there at the start; the calls and the packets of a
  direction are those of the log's lines, and so are the unreadable lines.  The one exception is a
  negative number in a line, which panics instead.\<close>

theorem audit_exposition_is_closed:
  "case record_all (record_line decode m) ls new_audit_recorder of
     None \<Rightarrow> list_ex negative_stats (calls_of decode (map snd ls))
   | Some r \<Rightarrow> audit_series r = audit_series new_audit_recorder
       \<and> value_at (ar_calls r) [d, v]
           = int (length (filter (\<lambda>s. cs_direction s = d \<and> audio s m = v) (calls_of decode (map snd ls))))
       \<and> value_at (ar_packets r) [d, ''room_in'']
           = sum_list (map cs_room_input (filter (\<lambda>s. cs_direction s = d) (calls_of decode (map snd ls))))
       \<and> value_at (ar_lines r) [''malformed''] = int (length (filter (\<lambda>l. parse_line decode (snd l) = Malformed) ls))"
proof (cases "record_all (record_line decode m) ls new_audit_recorder")
  case None
  then show ?thesis using record_all_panics [of decode m ls] by (simp add: list_ex_iff)
next
  case (Some r)
  note X = audit.exposed [OF Some]
  let ?cs = "calls_of decode (map snd ls)"
  have parsed: "line_adds decode m l (c, ls') = (case parse_line decode (snd l) of Parsed_Stats s \<Rightarrow> call_adds m s (c, ls') | _ \<Rightarrow> 0)"
    if "c \<noteq> AuditLines" for l c ls' using that by (simp add: line_adds_def split: line_result.split)
  have "audit_reading r (AuditCalls, [d, v]) = sum_list (map (\<lambda>s. if cs_direction s = d \<and> audio s m = v then 1 else 0) ?cs)"
    unfolding X(2) by (simp add: parsed sum_calls call_adds_def Let_def eq_commute conj_commute cong: if_cong)
  moreover have "audit_reading r (AuditPackets, [d, ''room_in''])
      = sum_list (map (\<lambda>s. if cs_direction s = d then cs_room_input s else 0) ?cs)"
    unfolding X(2) by (simp add: parsed sum_calls call_adds_def Let_def eq_commute cong: if_cong)
  moreover have "sum_list (map (\<lambda>s. if cs_direction s = d then cs_room_input s else 0) cs)
      = sum_list (map cs_room_input (filter (\<lambda>s. cs_direction s = d) cs))" for cs
    by (induction cs) simp_all
  moreover have "line_adds decode m l (AuditLines, [''malformed'']) = (if parse_line decode (snd l) = Malformed then 1 else 0)" for l
    by (simp add: line_adds_def call_adds_def Let_def split: line_result.split)
  then have "audit_reading r (AuditLines, [''malformed'']) = int (length (filter (\<lambda>l. parse_line decode (snd l) = Malformed) ls))"
    unfolding X(2) by (simp add: sum_indicator)
  ultimately show ?thesis using Some X(1) by (simp add: audit_reading_def sum_indicator)
qed

end
