(* ===== verification/Startup.thy ===== *)
theory Startup
  imports Subsystem Inbound_Text Line_Members Migration Bridge_Health
begin

section \<open>Starting up (\<open>pkg/connector/connector.go\<close>, \<open>readiness.go\<close>, \<open>transport.go\<close>)\<close>

text \<open>
  \<open>SIPConnector.Start\<close> with the components it starts, each on what the last run left of it: the
  portals and logins, the table of calls, the queue.  Then what a probe of the readiness endpoint
  and a SIP request meet while the process comes up: the endpoint listens, registers and may stop
  while Start runs, has failed or is done.
\<close>

subsection \<open>Configuration\<close>

record boot_config =
  bc_sip :: sip_config
  bc_messages :: message_config
  bc_spool_dir :: string
  bc_calls :: call_config
  bc_trunk :: trunk_config
  bc_reconcile :: nanos
  bc_members :: line_members

definition default_reconcile_interval :: nanos where "default_reconcile_interval = 300000000000"

text \<open>\<open>Config.applyDefaults\<close>.\<close>

definition config_defaults :: "boot_config \<Rightarrow> boot_config" where
  "config_defaults c =
     c\<lparr>bc_sip := apply_defaults (bc_sip c),
       bc_messages := (if mc_max_length (bc_messages c) \<le> 0 then (bc_messages c)\<lparr>mc_max_length := 1600\<rparr>
                       else bc_messages c),
       bc_calls := (if cfg_prefix (bc_calls c) = [] then (bc_calls c)\<lparr>cfg_prefix := ''sip-''\<rparr> else bc_calls c),
       bc_trunk := (if trunk_name (bc_trunk c) = [] then (bc_trunk c)\<lparr>trunk_name := ''matrix-sip-bridge''\<rparr>
                    else bc_trunk c),
       bc_reconcile := (if bc_reconcile c \<le> 0 then default_reconcile_interval else bc_reconcile c)\<rparr>"

subsection \<open>Start\<close>

record boot_state =
  bt_migration :: migration_state
  bt_members :: string
  bt_calls :: subsys
  bt_queue :: queue
  bt_endpoint :: "(sip_config \<times> string) option"
  bt_on_message :: bool
  bt_on_invite :: bool
  bt_running :: bool
  bt_cancelled :: bool

text \<open>What the last run left: nothing of the endpoint, the handlers and the goroutines.\<close>

definition before_start :: "migration_state \<Rightarrow> string \<Rightarrow> call_table \<Rightarrow> queue \<Rightarrow> boot_state" where
  "before_start m entries t q =
     \<lparr>bt_migration = m, bt_members = entries, bt_calls = new_subsys\<lparr>calls := t\<rparr>, bt_queue = q,
      bt_endpoint = None, bt_on_message = False, bt_on_invite = False, bt_running = False, bt_cancelled = False\<rparr>"

datatype boot_error =
    BootRepair repair_error
  | BootMigrate migration_error
  | BootEndpoint transport_error
  | BootCalls
  | BootUpgrade
  | BootQueue

record boot_answers =
  ba_list :: bool
  ba_repair :: "portal_key \<Rightarrow> repair_answers"
  ba_migrate :: migration_answers
  ba_permitted :: "string \<Rightarrow> bool"
  ba_parse :: "string \<Rightarrow> (string \<times> string) option"
  ba_login :: "string \<Rightarrow> login_answers"
  ba_is_ip :: "string \<Rightarrow> bool"
  ba_lookup :: "string \<Rightarrow> (bool \<times> string) list option"
  ba_calls_upgrade :: bool
  ba_calls_list :: bool
  ba_end_all :: db_outcome
  ba_now :: nanos
  ba_ghosts :: "string \<Rightarrow> bool"
  ba_upgrade :: bool
  ba_mkdir :: bool

text \<open>The logins \<open>GetExistingUserLoginByID\<close> finds.\<close>

definition existing_logins :: "migration_state \<Rightarrow> string list" where
  "existing_logins m = (if mg_legacy m = None then ls_logins (mg_logins m) else legacy_login_id # ls_logins (mg_logins m))"

text \<open>\<open>inbound.New\<close> on the table and the spool directory of the last run.\<close>

definition inbound_new :: "string \<Rightarrow> bool \<Rightarrow> queue \<Rightarrow> queue option" where
  "inbound_new spool_dir mkdir_ok q =
     (if spool_dir \<noteq> [] \<and> \<not> mkdir_ok then None else Some ((after_crash q)\<lparr>spool_on := spool_dir \<noteq> []\<rparr>))"

definition stopped :: "boot_state \<Rightarrow> boot_error \<Rightarrow> boot_state \<times> boot_error option" where
  "stopped b e = (b\<lparr>bt_cancelled := True\<rparr>, Some e)"

text \<open>From the endpoint on.\<close>

definition start_endpoint :: "boot_config \<Rightarrow> boot_answers \<Rightarrow> boot_state \<Rightarrow> boot_state \<times> boot_error option" where
  "start_endpoint cfg a b =
     (case new_transport (ba_is_ip a) (ba_lookup a) (bc_sip cfg) of
        Inl e \<Rightarrow> stopped b (BootEndpoint e)
      | Inr ep \<Rightarrow>
          (case start_subsystem (with_defaults (bc_calls cfg)) (ba_calls_upgrade a) (ba_calls_list a)
                  (ba_end_all a) (ba_now a) (ba_ghosts a) (new_subsys\<lparr>calls := calls (bt_calls b)\<rparr>) of
             (st, ok) \<Rightarrow>
               let b1 = b\<lparr>bt_endpoint := Some ep, bt_calls := st\<rparr> in
               if \<not> ok then stopped b1 BootCalls
               else if \<not> ba_upgrade a then stopped b1 BootUpgrade
               else (case inbound_new (bc_spool_dir cfg) (ba_mkdir a) (bt_queue b1) of
                   None \<Rightarrow> stopped b1 BootQueue
                 | Some q \<Rightarrow>
                     (b1\<lparr>bt_queue := q, bt_on_message := mc_enabled (bc_messages cfg),
                         bt_on_invite := cfg_enabled (bc_calls cfg), bt_running := True\<rparr>, None))))"

definition connector_start :: "re_id \<Rightarrow> boot_config \<Rightarrow> boot_answers \<Rightarrow> boot_state \<Rightarrow> boot_state \<times> boot_error option" where
  "connector_start re_id cfg a b =
     (let m = bt_migration b in
      case repair_line_spaces re_id (ba_list a) (ba_repair a) (existing_logins m) (mg_portals m) of
        (t, Some e) \<Rightarrow> stopped (b\<lparr>bt_migration := m\<lparr>mg_portals := t\<rparr>\<rparr>) (BootRepair e)
      | (t, None) \<Rightarrow>
          (case migrate_shared_login re_id (ba_migrate a) (m\<lparr>mg_portals := t\<rparr>) of
             (m1, Some e) \<Rightarrow> stopped (b\<lparr>bt_migration := m1\<rparr>) (BootMigrate e)
           | (m1, None) \<Rightarrow>
               (case ensure_line_member_logins (ba_permitted a) (ba_parse a) (ba_login a) (bc_members cfg)
                       (mg_logins m1) of
                  (ls, entries) \<Rightarrow>
                    start_endpoint cfg a (b\<lparr>bt_migration := m1\<lparr>mg_logins := ls\<rparr>, bt_members := entries\<rparr>))))"

subsection \<open>Registration\<close>

text \<open>
  A pass of \<open>registerLoop\<close>: the REGISTER's outcome, whether shutdown began before it returned and
  whether it begins while the loop waits for the next refresh.  \<open>rg_sent\<close> are the \<open>Expires\<close> sent.
\<close>

record registration =
  rg_on :: bool
  rg_over :: bool
  rg_sent :: "int list"

definition new_registration :: "sip_config \<Rightarrow> registration" where
  "new_registration c = \<lparr>rg_on = False, rg_over = \<not> r_enabled (sc_register c), rg_sent = []\<rparr>"

definition register_pass :: "sip_config \<Rightarrow> bool \<times> bool \<times> bool \<Rightarrow> registration \<Rightarrow> registration" where
  "register_pass c p r =
     (case p of (ok, shutting, shut) \<Rightarrow>
        if rg_over r then r
        else
          let r1 = r\<lparr>rg_on := ok, rg_sent := rg_sent r @ [expires_header (r_expiry (sc_register c))]\<rparr> in
          if \<not> ok \<and> shutting then r1\<lparr>rg_over := True\<rparr>
          else if shutting \<or> shut then r1\<lparr>rg_over := True, rg_sent := rg_sent r1 @ [0]\<rparr>
          else r1)"

subsection \<open>While it comes up\<close>

record live =
  lv_boot :: boot_state
  lv_started :: bool
  lv_bound :: bool
  lv_listening :: bool
  lv_listened :: bool
  lv_registration :: registration
  lv_latched :: bool

definition fresh_process :: "boot_config \<Rightarrow> boot_state \<Rightarrow> live" where
  "fresh_process cfg b =
     \<lparr>lv_boot = b, lv_started = False, lv_bound = False, lv_listening = False, lv_listened = False,
      lv_registration = new_registration (apply_defaults (bc_sip cfg)), lv_latched = False\<rparr>"

datatype live_event =
    ConnectorStarts
  | EndpointBinds bool
  | EndpointStops
  | RegisterPass bool bool bool
  | ProbeArrives bool
  | InviteArrives
  | MessageArrives
  | OptionsArrives

datatype live_output = Probed nat | Answered int | HandedOn

definition sip_ready :: "boot_config \<Rightarrow> live \<Rightarrow> bool" where
  "sip_ready cfg st =
     (bt_endpoint (lv_boot st) \<noteq> None
      \<and> endpoint_ready (apply_defaults (bc_sip cfg)) (lv_listening st) (rg_on (lv_registration st)))"

definition live_step :: "re_id \<Rightarrow> boot_config \<Rightarrow> boot_answers \<Rightarrow> live_event \<Rightarrow> live \<Rightarrow> live \<times> live_output list" where
  "live_step re_id cfg a e st =
     (case e of
        ConnectorStarts \<Rightarrow>
          (if lv_started st then st
           else st\<lparr>lv_boot := fst (connector_start re_id cfg a (lv_boot st)), lv_started := True\<rparr>, [])
      | EndpointBinds ok \<Rightarrow>
          (if bt_running (lv_boot st) \<and> \<not> lv_bound st
           then st\<lparr>lv_bound := True, lv_listening := ok, lv_listened := ok\<rparr> else st, [])
      | EndpointStops \<Rightarrow> (st\<lparr>lv_listening := False\<rparr>, [])
      | RegisterPass ok shutting shut \<Rightarrow>
          (if lv_listened st
           then st\<lparr>lv_registration := register_pass (apply_defaults (bc_sip cfg)) (ok, shutting, shut) (lv_registration st)\<rparr>
           else st, [])
      | ProbeArrives as_ready \<Rightarrow>
          (case probe (lv_latched st) (as_ready \<and> sip_ready cfg st) of
             (status, latched) \<Rightarrow> (st\<lparr>lv_latched := latched\<rparr>, [Probed status]))
      | InviteArrives \<Rightarrow>
          (st, if \<not> lv_listening st then [] else if bt_on_invite (lv_boot st) then [HandedOn] else [Answered 503])
      | MessageArrives \<Rightarrow>
          (st, if \<not> lv_listening st then [] else if bt_on_message (lv_boot st) then [HandedOn] else [Answered 405])
      | OptionsArrives \<Rightarrow> (st, if lv_listening st then [Answered 200] else []))"

fun live_run :: "re_id \<Rightarrow> boot_config \<Rightarrow> boot_answers \<Rightarrow> live_event list \<Rightarrow> live \<Rightarrow> live \<times> live_output list" where
  "live_run re_id cfg a [] st = (st, [])"
| "live_run re_id cfg a (e # es) st =
     (case live_step re_id cfg a e st of
        (st1, o1) \<Rightarrow> (case live_run re_id cfg a es st1 of (st2, o2) \<Rightarrow> (st2, o1 @ o2)))"

subsection \<open>Properties\<close>

lemma inbound_new_Some:
  "inbound_new d ok q = Some q' \<Longrightarrow>
     q' = (after_crash q)\<lparr>spool_on := d \<noteq> []\<rparr> \<and> (d = [] \<or> ok)"
  by (auto simp: inbound_new_def split: if_splits)

lemma queue_resumes:
  assumes "reachable (d \<noteq> []) q" "inbound_new d ok q = Some q'"
  shows "reachable (d \<noteq> []) q' \<and> exec Crashed q = Some q'"
proof -
  have "q' = after_crash q"
    using inbound_new_Some [OF assms(2)] spool_on_steps(9) [of q] reachable_spool_on [OF assms(1)] by simp
  then show ?thesis using reachable.step [OF assms(1), of Crashed] by simp
qed

lemma started_subsystem:
  assumes "start_subsystem cfg up li db now gh st = (st', True)" "cfg_enabled cfg"
  shows "all_active (calls st') = []"
proof -
  have "st' = foldl (\<lambda>s c. sweep_call gh c s) (st\<lparr>calls := fst (end_all now (calls st))\<rparr>) (all_active (calls st))"
    using assms by (auto simp: start_subsystem_def Let_def split: if_splits)
  then have "calls st' = fst (end_all now (calls st))"
    by (cases "all_active (calls st)") (use sweep_all in \<open>force+\<close>)
  then show ?thesis by (auto simp: all_active_def end_all_def update_rows_def filter_empty_conv)
qed

lemma start_endpoint_cases:
  assumes "start_endpoint cfg a b = (b', err)"
  shows "(err \<noteq> None \<and> bt_cancelled b' \<and> bt_running b' = bt_running b \<and> bt_queue b' = bt_queue b
        \<and> bt_on_message b' = bt_on_message b \<and> bt_on_invite b' = bt_on_invite b \<and> bt_migration b' = bt_migration b)
    \<or> (err = None \<and> bt_cancelled b' = bt_cancelled b \<and> bt_running b' \<and> bt_endpoint b' \<noteq> None
        \<and> bt_on_message b' = mc_enabled (bc_messages cfg) \<and> bt_on_invite b' = cfg_enabled (bc_calls cfg)
        \<and> (cfg_enabled (bc_calls cfg) \<longrightarrow> all_active (calls (bt_calls b')) = [])
        \<and> bt_migration b' = bt_migration b
        \<and> inbound_new (bc_spool_dir cfg) (ba_mkdir a) (bt_queue b) = Some (bt_queue b'))"
proof -
  have e: "cfg_enabled (with_defaults c) = cfg_enabled c" for c by (simp add: with_defaults_def)
  show ?thesis
  proof (cases "new_transport (ba_is_ip a) (ba_lookup a) (bc_sip cfg)")
    case (Inl x)
    then show ?thesis using assms by (auto simp: start_endpoint_def stopped_def)
  next
    case (Inr ep)
    obtain st ok where s: "start_subsystem (with_defaults (bc_calls cfg)) (ba_calls_upgrade a) (ba_calls_list a)
        (ba_end_all a) (ba_now a) (ba_ghosts a) (new_subsys\<lparr>calls := calls (bt_calls b)\<rparr>) = (st, ok)"
      by (metis prod.exhaust)
    let ?b = "b\<lparr>bt_endpoint := Some ep, bt_calls := st\<rparr>"
    show ?thesis
    proof (cases "ok \<and> ba_upgrade a \<and> inbound_new (bc_spool_dir cfg) (ba_mkdir a) (bt_queue b) \<noteq> None")
      case True
      then obtain q where q: "inbound_new (bc_spool_dir cfg) (ba_mkdir a) (bt_queue b) = Some q" "ok" "ba_upgrade a"
        by blast
      then have "b' = ?b\<lparr>bt_queue := q, bt_on_message := mc_enabled (bc_messages cfg),
            bt_on_invite := cfg_enabled (bc_calls cfg), bt_running := True\<rparr>" "err = None"
        using assms Inr s by (simp_all add: start_endpoint_def Let_def)
      then show ?thesis using q(1,2) started_subsystem [of "with_defaults (bc_calls cfg)"] s e by simp
    next
      case False
      then have "\<exists>x. stopped ?b x = (b', err)"
        using assms Inr s by (cases ok; cases "ba_upgrade a") (auto simp: start_endpoint_def Let_def)
      then show ?thesis by (auto simp: stopped_def)
    qed
  qed
qed

lemma connector_start_cases:
  assumes "connector_start re_id cfg a b = (b', err)"
  shows "(err \<noteq> None \<and> bt_cancelled b' \<and> bt_running b' = bt_running b \<and> bt_queue b' = bt_queue b
        \<and> bt_on_message b' = bt_on_message b \<and> bt_on_invite b' = bt_on_invite b)
    \<or> (err = None \<and> bt_cancelled b' = bt_cancelled b \<and> bt_running b' \<and> bt_endpoint b' \<noteq> None
        \<and> bt_on_message b' = mc_enabled (bc_messages cfg) \<and> bt_on_invite b' = cfg_enabled (bc_calls cfg)
        \<and> (cfg_enabled (bc_calls cfg) \<longrightarrow> all_active (calls (bt_calls b')) = [])
        \<and> inbound_new (bc_spool_dir cfg) (ba_mkdir a) (bt_queue b) = Some (bt_queue b'))"
proof -
  have "(\<exists>c e. stopped (b\<lparr>bt_migration := c\<rparr>) e = (b', err))
      \<or> (\<exists>m k. start_endpoint cfg a (b\<lparr>bt_migration := m, bt_members := k\<rparr>) = (b', err))"
  proof -
    obtain t e where r: "repair_line_spaces re_id (ba_list a) (ba_repair a) (existing_logins (bt_migration b))
        (mg_portals (bt_migration b)) = (t, e)" by (metis prod.exhaust)
    obtain m e' where m: "migrate_shared_login re_id (ba_migrate a) ((bt_migration b)\<lparr>mg_portals := t\<rparr>) = (m, e')"
      by (metis prod.exhaust)
    show ?thesis
    proof (cases "e = None \<and> e' = None")
      case True
      then show ?thesis using assms r m by (auto simp: connector_start_def Let_def split: prod.splits)
    next
      case False
      then show ?thesis using assms r m by (cases e; cases e') (auto simp: connector_start_def Let_def)
    qed
  qed
  then show ?thesis
  proof (elim disjE exE)
    fix m k
    assume "start_endpoint cfg a (b\<lparr>bt_migration := m, bt_members := k\<rparr>) = (b', err)"
    from start_endpoint_cases [OF this] show ?thesis by auto
  qed (auto simp: stopped_def)
qed


text \<open>What holds of a process at any time: nothing listens before a successful start, and the latch
  is set only while the endpoint has listened.\<close>

definition live_ok :: "boot_config \<Rightarrow> live \<Rightarrow> bool" where
  "live_ok cfg st =
     ((\<not> lv_started st \<longrightarrow> \<not> bt_running (lv_boot st))
      \<and> (bt_running (lv_boot st) \<longrightarrow> bt_on_message (lv_boot st) = mc_enabled (bc_messages cfg)
            \<and> bt_on_invite (lv_boot st) = cfg_enabled (bc_calls cfg))
      \<and> (lv_bound st \<longrightarrow> bt_running (lv_boot st))
      \<and> (lv_listening st \<longrightarrow> lv_listened st) \<and> (lv_listened st \<longrightarrow> lv_bound st)
      \<and> (rg_on (lv_registration st) \<longrightarrow> rg_sent (lv_registration st) \<noteq> [])
      \<and> (lv_latched st \<longrightarrow> lv_listened st
            \<and> (r_enabled (sc_register (apply_defaults (bc_sip cfg))) \<longrightarrow> rg_sent (lv_registration st) \<noteq> [])))"

lemma live_ok_fresh: "live_ok cfg (fresh_process cfg (before_start m entries t q))"
  by (simp add: live_ok_def fresh_process_def before_start_def new_registration_def)

lemma register_pass_sent: "rg_sent r \<noteq> [] \<or> rg_on (register_pass c p r) \<noteq> rg_on r \<Longrightarrow> rg_sent (register_pass c p r) \<noteq> []"
  by (auto simp: register_pass_def Let_def split: prod.split)

lemma live_ok_step:
  assumes "live_ok cfg st"
  shows "live_ok cfg (fst (live_step re_id cfg a e st))"
proof (cases e)
  case ConnectorStarts
  obtain b err where b: "connector_start re_id cfg a (lv_boot st) = (b, err)" by (cases "connector_start re_id cfg a (lv_boot st)")
  show ?thesis using assms connector_start_cases [OF b] b ConnectorStarts
    by (auto simp: live_step_def live_ok_def)
next
  case (RegisterPass ok s1 s2)
  then show ?thesis using assms register_pass_sent [of "lv_registration st" "apply_defaults (bc_sip cfg)" "(ok, s1, s2)"]
    by (auto simp: live_step_def live_ok_def)
next
  case (ProbeArrives r)
  then show ?thesis using assms
    by (auto simp: live_step_def live_ok_def probe_def sip_ready_def endpoint_ready_def split: if_splits)
qed (use assms in \<open>auto simp: live_step_def live_ok_def\<close>)

lemma live_step_output:
  assumes "live_ok cfg st" "live_step re_id cfg a e st = (st', out)"
  shows "(cfg_enabled (bc_calls cfg) \<longrightarrow> Answered 503 \<notin> set out)
    \<and> (mc_enabled (bc_messages cfg) \<longrightarrow> Answered 405 \<notin> set out)
    \<and> ((lv_latched st' = lv_latched st \<and> filter (\<lambda>r. \<exists>s. r = Probed s) out = [])
      \<or> (lv_latched st' \<and> filter (\<lambda>r. \<exists>s. r = Probed s) out = [Probed 200])
      \<or> (\<not> lv_latched st \<and> \<not> lv_latched st' \<and> filter (\<lambda>r. \<exists>s. r = Probed s) out = [Probed 503]))"
proof (cases e)
  case (ProbeArrives r)
  then show ?thesis using assms(2) by (auto simp: live_step_def probe_def split: if_splits)
next
  case InviteArrives
  have "lv_listening st \<longrightarrow> bt_on_invite (lv_boot st) = cfg_enabled (bc_calls cfg)"
    using assms(1) by (auto simp: live_ok_def)
  moreover have "st' = st" "out = (if \<not> lv_listening st then []
      else if bt_on_invite (lv_boot st) then [HandedOn] else [Answered 503])"
    using assms(2) InviteArrives by (auto simp: live_step_def)
  ultimately show ?thesis by (cases "lv_listening st"; cases "bt_on_invite (lv_boot st)") simp_all
next
  case MessageArrives
  have "lv_listening st \<longrightarrow> bt_on_message (lv_boot st) = mc_enabled (bc_messages cfg)"
    using assms(1) by (auto simp: live_ok_def)
  moreover have "st' = st" "out = (if \<not> lv_listening st then []
      else if bt_on_message (lv_boot st) then [HandedOn] else [Answered 405])"
    using assms(2) MessageArrives by (auto simp: live_step_def)
  ultimately show ?thesis by (cases "lv_listening st"; cases "bt_on_message (lv_boot st)") simp_all
next
  case OptionsArrives
  then show ?thesis using assms(2) by (auto simp: live_step_def)
qed (use assms(2) in \<open>auto simp: live_step_def split: if_splits\<close>)

lemma live_run_output:
  assumes "live_ok cfg st" "live_run re_id cfg a es st = (st', out)"
  shows "live_ok cfg st' \<and> (cfg_enabled (bc_calls cfg) \<longrightarrow> Answered 503 \<notin> set out)
    \<and> (mc_enabled (bc_messages cfg) \<longrightarrow> Answered 405 \<notin> set out)
    \<and> (\<exists>i j. filter (\<lambda>r. \<exists>s. r = Probed s) out = replicate i (Probed 503) @ replicate j (Probed 200)
         \<and> (lv_latched st \<longrightarrow> i = 0) \<and> (lv_latched st' = (lv_latched st \<or> j > 0)))"
  using assms
proof (induction es arbitrary: st out)
  case Nil
  then show ?case by auto
next
  case (Cons e es)
  obtain st1 o1 where 1: "live_step re_id cfg a e st = (st1, o1)" by (metis prod.exhaust)
  obtain o2 where 2: "live_run re_id cfg a es st1 = (st', o2)" "out = o1 @ o2"
    using Cons.prems(2) 1 by (auto split: prod.splits)
  have ok: "live_ok cfg st1" using live_ok_step [OF Cons.prems(1), of re_id a e] 1 by simp
  note S = live_step_output [OF Cons.prems(1) 1] and IH = Cons.IH [OF ok 2(1)]
  obtain i j where ij: "filter (\<lambda>r. \<exists>s. r = Probed s) o2 = replicate i (Probed 503) @ replicate j (Probed 200)"
      "lv_latched st1 \<longrightarrow> i = 0" "lv_latched st' = (lv_latched st1 \<or> j > 0)"
    using IH by blast
  have "\<exists>i j. filter (\<lambda>r. \<exists>s. r = Probed s) out = replicate i (Probed 503) @ replicate j (Probed 200)
         \<and> (lv_latched st \<longrightarrow> i = 0) \<and> (lv_latched st' = (lv_latched st \<or> j > 0))"
    using S [THEN conjunct2, THEN conjunct2]
  proof (elim disjE conjE)
    assume "lv_latched st1 = lv_latched st" "filter (\<lambda>r. \<exists>s. r = Probed s) o1 = []"
    then show ?thesis using ij 2(2) by auto
  next
    assume "lv_latched st1" "filter (\<lambda>r. \<exists>s. r = Probed s) o1 = [Probed 200]"
    then show ?thesis using ij 2(2) by (intro exI [of _ 0] exI [of _ "Suc j"]) simp
  next
    assume "\<not> lv_latched st" "\<not> lv_latched st1" "filter (\<lambda>r. \<exists>s. r = Probed s) o1 = [Probed 503]"
    then show ?thesis using ij 2(2) by (intro exI [of _ "Suc i"] exI [of _ j]) simp
  qed
  then show ?case using S IH 2(2) by auto
qed


subsection \<open>A start\<close>

definition boot_sample :: boot_config where
  "boot_sample =
     \<lparr>bc_sip = texting_config,
      bc_messages = \<lparr>mc_enabled = True, mc_outbound_to = ''sip:{number}@pbx'', mc_outbound_from = [], mc_max_length = 0\<rparr>,
      bc_spool_dir = ''/spool'', bc_calls = sample_config,
      bc_trunk = \<lparr>trunk_name = [], trunk_address = ''pbx'', trunk_number = [], trunk_auth_username = [],
                 trunk_auth_password = []\<rparr>,
      bc_reconcile = 0, bc_members = [(''home'', [''@a:b''])]\<rparr>"

definition boot_well :: boot_answers where
  "boot_well =
     \<lparr>ba_list = True,
      ba_repair = (\<lambda>_. \<lparr>rp_children = True, rp_login = True, rp_target = True, rp_drop = DbOk,
                       rp_move = \<lparr>ma_check = True, ma_move = DbOk, ma_reparent = True\<rparr>, rp_after = True\<rparr>),
      ba_migrate = healthy_migration, ba_permitted = (\<lambda>_. True), ba_parse = (\<lambda>_. Some (''a'', ''b'')),
      ba_login = (\<lambda>_. answering), ba_is_ip = (\<lambda>_. True), ba_lookup = (\<lambda>_. None), ba_calls_upgrade = True,
      ba_calls_list = True, ba_end_all = DbOk, ba_now = 0, ba_ghosts = (\<lambda>_. True), ba_upgrade = True, ba_mkdir = True\<rparr>"

abbreviation sample_boot :: boot_state where
  "sample_boot \<equiv> before_start shared_state [] [] sample_queue"

lemma sample_starts: "bt_running (fst (connector_start move_row boot_sample boot_well sample_boot))"
  by code_simp


definition coming_up :: "live_event list" where
  "coming_up = [ProbeArrives True, ConnectorStarts, ProbeArrives True, EndpointBinds True, ProbeArrives True, InviteArrives,
     EndpointStops, ProbeArrives False]"

lemma coming_up_output:
  "snd (live_run move_row boot_sample boot_well coming_up (fresh_process boot_sample sample_boot))
     = [Probed 503, Probed 503, Probed 200, HandedOn, Probed 200]"
  by code_simp


end
