(* ===== verification/LiveKit_Client.thy ===== *)
theory LiveKit_Client
  imports LiveKit
begin

section \<open>The requests to LiveKit (\<open>livekit.go\<close>)\<close>

text \<open>
  What \<open>LiveKitClient\<close> sends for each of its methods: the service and the method in the URL, the
  grants of the token minted for the request, and the headers.  The JSON encoder, the signature
  of a token and the parser of URLs are parameters; what the server replies is read by
  \<open>call_service\<close>.
\<close>

subsection \<open>Grants and tokens\<close>

record video_grant =
  vg_room_admin :: bool
  vg_room_join :: bool
  vg_room_create :: bool
  vg_room :: string

record sip_grant =
  sg_admin :: bool
  sg_call :: bool

record grants =
  g_video :: "video_grant option"
  g_sip :: "sip_grant option"

record token_claims =
  tc_issuer :: string
  tc_subject :: string
  tc_issued_at :: int
  tc_not_before :: int
  tc_expires_at :: int
  tc_grants :: grants

record livekit_config =
  lc_url :: string
  lc_api_key :: string
  lc_api_secret :: string
  lc_timeout :: nanos

definition default_livekit_timeout :: nanos where "default_livekit_timeout = 30000000000"

definition new_livekit_client :: "livekit_config \<Rightarrow> livekit_config" where
  "new_livekit_client c = (if lc_timeout c \<le> 0 then c\<lparr>lc_timeout := default_livekit_timeout\<rparr> else c)"

text \<open>The numeric dates of a token are whole seconds.\<close>

definition claims_for :: "livekit_config \<Rightarrow> nanos \<Rightarrow> grants \<Rightarrow> token_claims" where
  "claims_for c now g =
     \<lparr>tc_issuer = lc_api_key c, tc_subject = lc_api_key c, tc_issued_at = now div 1000000000,
      tc_not_before = (now - 30000000000) div 1000000000,
      tc_expires_at = (now + 600000000000) div 1000000000, tc_grants = g\<rparr>"

subsection \<open>Methods\<close>

record participant_request =
  pq_trunk_id :: string
  pq_call_to :: string
  pq_room :: string
  pq_identity :: string
  pq_name :: string
  pq_wait :: bool

datatype lk_request =
    ListSIPOutboundTrunk
  | CreateSIPOutboundTrunk trunk
  | UpdateSIPOutboundTrunk string trunk
  | CreateSIPParticipant participant_request
  | CreateRoom string
  | ListParticipants string
  | RemoveParticipantOf string string

definition sip_service :: string where "sip_service = ''livekit.SIP''"
definition room_service :: string where "room_service = ''livekit.RoomService''"

fun rpc_name :: "lk_request \<Rightarrow> string \<times> string" where
  "rpc_name ListSIPOutboundTrunk = (sip_service, ''ListSIPOutboundTrunk'')"
| "rpc_name (CreateSIPOutboundTrunk t) = (sip_service, ''CreateSIPOutboundTrunk'')"
| "rpc_name (UpdateSIPOutboundTrunk i t) = (sip_service, ''UpdateSIPOutboundTrunk'')"
| "rpc_name (CreateSIPParticipant p) = (sip_service, ''CreateSIPParticipant'')"
| "rpc_name (CreateRoom r) = (room_service, ''CreateRoom'')"
| "rpc_name (ListParticipants r) = (room_service, ''ListParticipants'')"
| "rpc_name (RemoveParticipantOf r i) = (room_service, ''RemoveParticipant'')"

definition trunk_grants :: grants where
  "trunk_grants = \<lparr>g_video = None, g_sip = Some \<lparr>sg_admin = True, sg_call = False\<rparr>\<rparr>"

definition room_admin_of :: "string \<Rightarrow> grants" where
  "room_admin_of r =
     \<lparr>g_video = Some \<lparr>vg_room_admin = True, vg_room_join = False, vg_room_create = False, vg_room = r\<rparr>, g_sip = None\<rparr>"

fun rpc_grants :: "lk_request \<Rightarrow> grants" where
  "rpc_grants ListSIPOutboundTrunk = trunk_grants"
| "rpc_grants (CreateSIPOutboundTrunk t) = trunk_grants"
| "rpc_grants (UpdateSIPOutboundTrunk i t) = trunk_grants"
| "rpc_grants (CreateSIPParticipant p) =
     \<lparr>g_video = Some \<lparr>vg_room_admin = True, vg_room_join = True, vg_room_create = True, vg_room = pq_room p\<rparr>,
      g_sip = Some \<lparr>sg_admin = False, sg_call = True\<rparr>\<rparr>"
| "rpc_grants (CreateRoom r) =
     \<lparr>g_video = Some \<lparr>vg_room_admin = False, vg_room_join = False, vg_room_create = True, vg_room = []\<rparr>, g_sip = None\<rparr>"
| "rpc_grants (ListParticipants r) = room_admin_of r"
| "rpc_grants (RemoveParticipantOf r i) = room_admin_of r"

subsection \<open>Sending\<close>

record http_request =
  hq_url :: string
  hq_content_type :: string
  hq_authorization :: string
  hq_body :: string

definition trim_slash :: "string \<Rightarrow> string" where
  "trim_slash u = (case cut_suffix u ''/'' of Some v \<Rightarrow> v | None \<Rightarrow> u)"

definition twirp_url :: "livekit_config \<Rightarrow> lk_request \<Rightarrow> string" where
  "twirp_url c q =
     trim_slash (lc_url c) @ ''/twirp/'' @ fst (rpc_name q) @ ''/'' @ snd (rpc_name q)"

text \<open>The request written, \<open>None\<close> if it cannot be made.\<close>

definition twirp_request :: "(lk_request \<Rightarrow> string) \<Rightarrow> (string \<Rightarrow> token_claims \<Rightarrow> string option) \<Rightarrow> (string \<Rightarrow> bool)
    \<Rightarrow> livekit_config \<Rightarrow> nanos \<Rightarrow> lk_request \<Rightarrow> http_request option" where
  "twirp_request encode sign url_ok c now q =
     (case sign (lc_api_secret c) (claims_for c now (rpc_grants q)) of
        None \<Rightarrow> None
      | Some tok \<Rightarrow>
          if \<not> url_ok (twirp_url c q) then None
          else Some \<lparr>hq_url = twirp_url c q, hq_content_type = ''application/json'',
                    hq_authorization = ''Bearer '' @ tok, hq_body = encode q\<rparr>)"

definition livekit_call :: "(lk_request \<Rightarrow> http_request option) \<Rightarrow> (http_request \<Rightarrow> 'a http_reply) \<Rightarrow> lk_request
    \<Rightarrow> lk_error + 'a" where
  "livekit_call request server q =
     call_service (case request q of None \<Rightarrow> NotSent | Some r \<Rightarrow> server r)"

subsection \<open>The reconciler's requests\<close>

definition answer_of :: "lk_error + 'a \<Rightarrow> 'a option" where
  "answer_of r = (case r of Inl _ \<Rightarrow> None | Inr x \<Rightarrow> Some x)"

text \<open>A reconcile against a server: the trunks it lists, and the IDs it answers with.\<close>

definition reconcile_over :: "(lk_request \<Rightarrow> http_request option) \<Rightarrow> (http_request \<Rightarrow> trunk list http_reply)
    \<Rightarrow> (http_request \<Rightarrow> string http_reply) \<Rightarrow> (string \<Rightarrow> string) \<Rightarrow> trunk_config \<Rightarrow> trunk_state
    \<Rightarrow> trunk_state \<times> trunk_request option \<times> trunk_error option" where
  "reconcile_over request list_server write_server digest cfg s =
     (let listed = answer_of (livekit_call request list_server ListSIPOutboundTrunk);
          want = wanted_trunk cfg;
          write = (\<lambda>q. answer_of (livekit_call request write_server q)) in
      reconcile_trunk digest cfg listed
        (case listed of
           None \<Rightarrow> None
         | Some ts \<Rightarrow> (case find (\<lambda>t. t_name t = t_name want) ts of
                        None \<Rightarrow> None | Some t \<Rightarrow> write (UpdateSIPOutboundTrunk (sip_trunk_id t) want)))
        (write (CreateSIPOutboundTrunk want)) s)"

subsection \<open>What a token is good for\<close>

lemma token_is_for_its_request:
  assumes "twirp_request encode sign url_ok c now q = Some r"
  shows "\<exists>tok. sign (lc_api_secret c) (claims_for c now (rpc_grants q)) = Some tok
      \<and> hq_authorization r = ''Bearer '' @ tok"
    and "fst (rpc_name q) = sip_service \<longleftrightarrow> g_sip (rpc_grants q) \<noteq> None"
    and "g_video (rpc_grants q) = Some v \<Longrightarrow> vg_room v = [] \<longrightarrow> \<not> vg_room_admin v \<or> (\<exists>p. q = CreateSIPParticipant p \<and> pq_room p = [])
      \<or> q = ListParticipants [] \<or> (\<exists>i. q = RemoveParticipantOf [] i)"
  using assms by (cases q; auto simp: twirp_request_def trunk_grants_def room_admin_of_def sip_service_def room_service_def
      split: option.splits if_splits)+

text \<open>Whatever the clock says, a token lives ten minutes from its whole second on.\<close>

lemma token_lifetime:
  "tc_expires_at (claims_for c now g) = tc_issued_at (claims_for c now g) + 600
   \<and> tc_not_before (claims_for c now g) = tc_issued_at (claims_for c now g) - 30"
proof -
  have "(now + 600000000000) div 1000000000 = now div 1000000000 + 600"
    "(now - 30000000000) div 1000000000 = now div 1000000000 - 30" by linarith+
  then show ?thesis by (simp add: claims_for_def)
qed

text \<open>A request that could not be made is never taken for an answer.\<close>

lemma unsent_is_an_error: "request q = None \<Longrightarrow> livekit_call request server q = Inl OtherError"
  by (simp add: livekit_call_def call_service_def)

end
