(* ===== verification/Supervision.thy ===== *)
theory Supervision
  imports LiveKit Metrics Bridge_Health
begin

section \<open>The loops that watch the bridge (\<open>trunk.go\<close>, \<open>connector.go\<close>)\<close>

text \<open>
  \<open>runTrunkReconciler\<close> and \<open>watchSIPHealth\<close>, and the logins' \<open>Connect\<close>, on the three places they
  report to: the cached trunk, the metrics and the bridge state of the logins.  A beat is one
  turn of a loop, in any order; the texts of the reconciler's errors are a parameter.
\<close>

record supervised =
  sv_trunk :: trunk_state
  sv_metrics :: recorder
  sv_hub :: hub

text \<open>A reconcile whose context was cancelled by the shutdown reports nothing.\<close>

definition reconcile_and_report :: "(string \<Rightarrow> string) \<Rightarrow> trunk_config \<Rightarrow> (trunk_error \<Rightarrow> string)
    \<Rightarrow> trunk list option \<Rightarrow> string option \<Rightarrow> string option \<Rightarrow> bool \<Rightarrow> supervised \<Rightarrow> supervised" where
  "reconcile_and_report digest cfg text_of listed update create cancelled st =
     (case reconcile_trunk digest cfg listed update create (sv_trunk st) of
        (t, _, err) \<Rightarrow>
          if cancelled then st\<lparr>sv_trunk := t\<rparr>
          else st\<lparr>sv_trunk := t,
                  sv_metrics := record_event (TrunkReconciled (err = None)) (sv_metrics st),
                  sv_hub := trunk_result (map_option text_of err) (sv_hub st)\<rparr>)"

definition watch_sip_health :: "bool \<Rightarrow> supervised \<Rightarrow> supervised" where
  "watch_sip_health ready st =
     st\<lparr>sv_metrics := record_event (SipPolled ready) (sv_metrics st), sv_hub := sip_tick ready (sv_hub st)\<rparr>"

definition connect_login :: "string \<Rightarrow> bool \<Rightarrow> supervised \<Rightarrow> supervised" where
  "connect_login u ready st = st\<lparr>sv_hub := connect u ready (sv_hub st)\<rparr>"

datatype beat =
    Reconcile "trunk list option" "string option" "string option" bool
  | SipTick bool
  | LoginConnects string bool

definition supervise :: "(string \<Rightarrow> string) \<Rightarrow> trunk_config \<Rightarrow> (trunk_error \<Rightarrow> string) \<Rightarrow> beat \<Rightarrow> supervised \<Rightarrow> supervised" where
  "supervise digest cfg text_of b st =
     (case b of
        Reconcile listed update create cancelled \<Rightarrow>
          reconcile_and_report digest cfg text_of listed update create cancelled st
      | SipTick ready \<Rightarrow> watch_sip_health ready st
      | LoginConnects u ready \<Rightarrow> connect_login u ready st)"

definition fresh_supervised :: "int \<Rightarrow> notice_config \<Rightarrow> string list \<Rightarrow> supervised" where
  "fresh_supervised now n us =
     \<lparr>sv_trunk = \<lparr>trunk_id = None, trunk_pushed = None\<rparr>, sv_metrics = new_recorder now, sv_hub = new_hub n us\<rparr>"

subsection \<open>What was last seen\<close>

text \<open>What the last tick, and what the last look at the endpoint of any kind, found.\<close>

fun last_tick :: "beat list \<Rightarrow> bool option" where
  "last_tick [] = None"
| "last_tick (b # bs) = (case last_tick bs of Some r \<Rightarrow> Some r | None \<Rightarrow> (case b of SipTick r \<Rightarrow> Some r | _ \<Rightarrow> None))"

fun last_look :: "beat list \<Rightarrow> bool option" where
  "last_look [] = None"
| "last_look (b # bs) = (case last_look bs of Some r \<Rightarrow> Some r
     | None \<Rightarrow> (case b of SipTick r \<Rightarrow> Some r | LoginConnects u r \<Rightarrow> Some r | _ \<Rightarrow> None))"

lemma hub_facts [simp]:
  "sip_down (health (sip_tick r hb)) = (\<not> r)" "trunk_err (health (sip_tick r hb)) = trunk_err (health hb)"
  "sip_down (health (trunk_result e hb)) = sip_down (health hb)"
  "trunk_err (health (trunk_result e hb)) = (case e of None \<Rightarrow> [] | Some x \<Rightarrow> x)"
  "sip_down (health (connect u r hb)) = (\<not> r)" "trunk_err (health (connect u r hb)) = trunk_err (health hb)"
proof -
  have f: "health (foldl (\<lambda>b u. send_state u s b) hb us) = health hb" for s us hb
    by (induction us arbitrary: hb) (simp_all add: send_state_def)
  then have r: "health (report s c hb) = health hb" for s c hb by (simp add: report_def)
  show "sip_down (health (sip_tick r hb)) = (\<not> r)" "trunk_err (health (sip_tick r hb)) = trunk_err (health hb)"
    "sip_down (health (trunk_result e hb)) = sip_down (health hb)"
    "trunk_err (health (trunk_result e hb)) = (case e of None \<Rightarrow> [] | Some x \<Rightarrow> x)"
    by (simp_all add: sip_tick_def trunk_result_def health_sip_def health_trunk_def health_changed_def Let_def r)
  show "sip_down (health (connect u r hb)) = (\<not> r)" "trunk_err (health (connect u r hb)) = trunk_err (health hb)"
    by (simp_all add: connect_def health_sip_def health_changed_def send_state_def Let_def)
qed

lemma reconcile_trunk_ok:
  assumes "reconcile_trunk digest cfg listed update create s = (s', req, None)"
  shows "trunk_id s' \<noteq> None"
proof -
  have "reconcile_listed digest want update create ts s = (s', req, None) \<Longrightarrow> trunk_id s' \<noteq> None" for want ts
    by (induction ts) (auto simp: Let_def split: if_splits option.splits)
  then show ?thesis using assms by (auto simp: reconcile_trunk_def split: if_splits option.splits)
qed

lemma reconcile_trunk_keeps:
  assumes "reconcile_trunk digest cfg listed update create s = (s', req, err)" "trunk_id s \<noteq> None"
  shows "trunk_id s' \<noteq> None"
proof -
  have "reconcile_listed digest want update create ts s = (s', req, err) \<Longrightarrow> trunk_id s' \<noteq> None" for want ts
    using assms(2) by (induction ts) (auto simp: Let_def split: if_splits option.splits)
  then show ?thesis using assms by (auto simp: reconcile_trunk_def split: if_splits option.splits)
qed

subsection \<open>Properties\<close>

definition sip_down_of :: "supervised \<Rightarrow> bool" where "sip_down_of st = sip_down (health (sv_hub st))"
definition trunk_err_of :: "supervised \<Rightarrow> string" where "trunk_err_of st = trunk_err (health (sv_hub st))"
definition reconciled :: "bool \<Rightarrow> supervised \<Rightarrow> int" where
  "reconciled ok st = value_at (rec_trunk (sv_metrics st)) [trunk_label ok]"

lemma trunk_label_inj [simp]: "trunk_label a = trunk_label b \<longleftrightarrow> a = b"
  by (cases a; cases b) (simp_all add: trunk_label_def)

lemma reconciled_step [simp]:
  "value_at (rec_trunk (record_event (TrunkReconciled ok) r)) [trunk_label ok']
     = value_at (rec_trunk r) [trunk_label ok'] + (if ok' = ok then 1 else 0)"
  "rec_trunk (record_event (SipPolled ready) r) = rec_trunk r"
  "rec_registered (record_event (TrunkReconciled ok) r) = rec_registered r"
  "rec_registered (record_event (SipPolled ready) r) = (if ready then 1 else 0)"
  by (simp_all add: record_event_def increment_def)

lemma supervise_looks:
  "sip_down_of (fold (supervise digest cfg text_of) bs st)
     = (case last_look bs of Some r \<Rightarrow> \<not> r | None \<Rightarrow> sip_down_of st)
   \<and> rec_registered (sv_metrics (fold (supervise digest cfg text_of) bs st))
     = (case last_tick bs of Some r \<Rightarrow> if r then 1 else 0 | None \<Rightarrow> rec_registered (sv_metrics st))"
proof (induction bs arbitrary: st)
  case (Cons b bs)
  have "sip_down_of (supervise digest cfg text_of b st)
      = (case b of SipTick r \<Rightarrow> \<not> r | LoginConnects u r \<Rightarrow> \<not> r | _ \<Rightarrow> sip_down_of st)
    \<and> rec_registered (sv_metrics (supervise digest cfg text_of b st))
      = (case b of SipTick r \<Rightarrow> if r then 1 else 0 | _ \<Rightarrow> rec_registered (sv_metrics st))"
    by (cases b) (simp_all add: supervise_def sip_down_of_def watch_sip_health_def connect_login_def
        reconcile_and_report_def split: prod.split)
  then show ?case using Cons.IH [of "supervise digest cfg text_of b st"]
    by (auto split: option.split beat.splits)
qed simp

definition trunk_told :: "supervised \<Rightarrow> bool" where
  "trunk_told st =
     (0 \<le> reconciled True st \<and> 0 \<le> reconciled False st
      \<and> (0 < reconciled True st \<longrightarrow> trunk_id (sv_trunk st) \<noteq> None)
      \<and> (trunk_err_of st = [] \<longrightarrow> 0 < reconciled False st \<longrightarrow> 0 < reconciled True st)
      \<and> (trunk_err_of st \<noteq> [] \<longrightarrow> 0 < reconciled False st))"

lemma trunk_told_step:
  assumes "trunk_told st" "\<And>e. text_of e \<noteq> []"
  shows "trunk_told (supervise digest cfg text_of b st)"
proof (cases b)
  case (Reconcile listed update create cancelled)
  obtain s' req err where r: "reconcile_trunk digest cfg listed update create (sv_trunk st) = (s', req, err)"
    by (metis prod.exhaust)
  have k: "trunk_id (sv_trunk st) \<noteq> None \<Longrightarrow> trunk_id s' \<noteq> None" "err = None \<Longrightarrow> trunk_id s' \<noteq> None"
    using reconcile_trunk_keeps [OF r] reconcile_trunk_ok r by blast+
  show ?thesis
    using assms k r unfolding Reconcile supervise_def
    by (cases err) (auto simp: trunk_told_def reconcile_and_report_def reconciled_def trunk_err_of_def)
qed (use assms in \<open>auto simp: trunk_told_def supervise_def reconciled_def trunk_err_of_def watch_sip_health_def connect_login_def\<close>)

lemma trunk_told_run:
  assumes "\<And>e. text_of e \<noteq> []"
  shows "trunk_told st \<Longrightarrow> trunk_told (fold (supervise digest cfg text_of) bs st)"
  by (induction bs arbitrary: st) (simp_all add: trunk_told_step [where text_of = text_of] assms)


definition error_text :: "trunk_error \<Rightarrow> string" where
  "error_text e = (if e = NoAddress then ''livekit trunk_address is not configured'' else ''livekit unavailable'')"

definition redis_lost :: "beat list" where
  "redis_lost = [SipTick True, Reconcile None None None False, Reconcile (Some []) None (Some ''ST_1'') False,
     LoginConnects ''@a:b'' False]"


end
