(* ===== verification/Config_Upgrade.thy ===== *)
theory Config_Upgrade
  imports Prelude
begin

section \<open>The upgrade of a configuration (\<open>pkg/connector/config.go\<close>)\<close>

text \<open>
  A configuration file is a map from the paths of its settings to scalars (a map is one too: the
  members of the lines).  \<open>upgradeConfig\<close> copies each setting of the old file onto the example
  config; what \<open>Helper.Copy\<close> of the library does is a parameter.  The settings are those of the
  structs \<open>Config\<close>, \<open>MessageConfig\<close>, \<open>siptransport.Config\<close>, \<open>calls.Config\<close> and their parts, with the
  type a value in the file has: a duration is written as a string.
\<close>

datatype cfg_type = CfgStr | CfgInt | CfgBool | CfgMap

datatype cfg_value = VStr string | VInt int | VBool bool | VMap "(string \<times> string list) list"

type_synonym cfg_path = "string list"
type_synonym cfg_file = "cfg_path \<rightharpoonup> cfg_value"

fun has_type :: "cfg_type \<Rightarrow> cfg_value \<Rightarrow> bool" where
  "has_type CfgStr (VStr s) = True"
| "has_type CfgInt (VInt n) = True"
| "has_type CfgBool (VBool b) = True"
| "has_type CfgMap (VMap m) = True"
| "has_type _ _ = False"

definition upgrade_list :: "(cfg_type \<times> cfg_path) list" where
  "upgrade_list =
   [(CfgBool, [''line_spaces'']), (CfgMap, [''line_members'']), (CfgStr, [''sip'', ''listen'']),
    (CfgStr, [''sip'', ''transport'']), (CfgStr, [''sip'', ''public_address'']),
    (CfgStr, [''sip'', ''username'']), (CfgStr, [''sip'', ''domain'']),
    (CfgStr, [''sip'', ''media_address'']), (CfgInt, [''sip'', ''media_port'']),
    (CfgStr, [''sip'', ''conference_header'']), (CfgStr, [''sip'', ''caller_header'']),
    (CfgStr, [''sip'', ''recipient_header'']), (CfgBool, [''sip'', ''register'', ''enabled'']),
    (CfgStr, [''sip'', ''register'', ''server'']), (CfgStr, [''sip'', ''register'', ''password'']),
    (CfgStr, [''sip'', ''register'', ''expiry'']), (CfgBool, [''messages'', ''enabled'']),
    (CfgStr, [''messages'', ''outbound_to'']), (CfgStr, [''messages'', ''outbound_from'']),
    (CfgInt, [''messages'', ''max_length'']), (CfgStr, [''messages'', ''spool_dir'']),
    (CfgBool, [''calls'', ''enabled'']), (CfgStr, [''calls'', ''conference_prefix'']),
    (CfgStr, [''calls'', ''outbound_uri'']), (CfgStr, [''calls'', ''membership_expiry'']),
    (CfgStr, [''calls'', ''ring_timeout'']), (CfgStr, [''calls'', ''identity_scheme'']),
    (CfgStr, [''calls'', ''participant_poll_interval'']),
    (CfgBool, [''calls'', ''notices'', ''call_ended'']),
    (CfgBool, [''calls'', ''notices'', ''call_failed'']), (CfgBool, [''calls'', ''notices'', ''sip_down'']),
    (CfgBool, [''calls'', ''notices'', ''trunk_missing'']), (CfgStr, [''calls'', ''livekit'', ''url'']),
    (CfgStr, [''calls'', ''livekit'', ''api_key'']), (CfgStr, [''calls'', ''livekit'', ''api_secret'']),
    (CfgStr, [''calls'', ''livekit'', ''timeout'']), (CfgStr, [''calls'', ''livekit'', ''jwt_service_url'']),
    (CfgStr, [''calls'', ''livekit'', ''trunk_name'']),
    (CfgStr, [''calls'', ''livekit'', ''trunk_address'']),
    (CfgStr, [''calls'', ''livekit'', ''trunk_number'']),
    (CfgStr, [''calls'', ''livekit'', ''trunk_auth_username'']),
    (CfgStr, [''calls'', ''livekit'', ''trunk_auth_password'']),
    (CfgStr, [''calls'', ''livekit'', ''trunk_reconcile_interval''])]"

text \<open>The fields of the structs.\<close>

definition config_settings :: "(cfg_type \<times> cfg_path) list" where
  "config_settings =
   [(CfgStr, [''sip'', ''listen'']), (CfgStr, [''sip'', ''transport'']),
    (CfgStr, [''sip'', ''public_address'']), (CfgStr, [''sip'', ''username'']),
    (CfgStr, [''sip'', ''domain'']), (CfgBool, [''sip'', ''register'', ''enabled'']),
    (CfgStr, [''sip'', ''register'', ''server'']), (CfgStr, [''sip'', ''register'', ''password'']),
    (CfgStr, [''sip'', ''register'', ''expiry'']), (CfgStr, [''sip'', ''media_address'']),
    (CfgInt, [''sip'', ''media_port'']), (CfgStr, [''sip'', ''conference_header'']),
    (CfgStr, [''sip'', ''caller_header'']), (CfgStr, [''sip'', ''recipient_header'']),
    (CfgBool, [''messages'', ''enabled'']), (CfgStr, [''messages'', ''outbound_to'']),
    (CfgStr, [''messages'', ''outbound_from'']), (CfgInt, [''messages'', ''max_length'']),
    (CfgStr, [''messages'', ''spool_dir'']), (CfgBool, [''calls'', ''enabled'']),
    (CfgStr, [''calls'', ''livekit'', ''url'']), (CfgStr, [''calls'', ''livekit'', ''api_key'']),
    (CfgStr, [''calls'', ''livekit'', ''api_secret'']), (CfgStr, [''calls'', ''livekit'', ''timeout'']),
    (CfgStr, [''calls'', ''livekit'', ''jwt_service_url'']),
    (CfgStr, [''calls'', ''livekit'', ''trunk_name'']),
    (CfgStr, [''calls'', ''livekit'', ''trunk_address'']),
    (CfgStr, [''calls'', ''livekit'', ''trunk_number'']),
    (CfgStr, [''calls'', ''livekit'', ''trunk_auth_username'']),
    (CfgStr, [''calls'', ''livekit'', ''trunk_auth_password'']),
    (CfgStr, [''calls'', ''livekit'', ''trunk_reconcile_interval'']),
    (CfgStr, [''calls'', ''conference_prefix'']), (CfgStr, [''calls'', ''outbound_uri'']),
    (CfgStr, [''calls'', ''membership_expiry'']), (CfgStr, [''calls'', ''ring_timeout'']),
    (CfgStr, [''calls'', ''identity_scheme'']), (CfgStr, [''calls'', ''participant_poll_interval'']),
    (CfgBool, [''calls'', ''notices'', ''call_ended'']),
    (CfgBool, [''calls'', ''notices'', ''call_failed'']), (CfgBool, [''calls'', ''notices'', ''sip_down'']),
    (CfgBool, [''calls'', ''notices'', ''trunk_missing'']), (CfgBool, [''line_spaces'']),
    (CfgMap, [''line_members''])]"

definition example_config :: "(cfg_path \<times> cfg_value) list" where
  "example_config =
   [([''line_spaces''], VBool True), ([''line_members''], VMap []),
    ([''sip'', ''listen''], VStr ''0.0.0.0:5060''), ([''sip'', ''transport''], VStr ''tcp''),
    ([''sip'', ''public_address''], VStr ''matrix-sip-bridge.example.com:5060''),
    ([''sip'', ''username''], VStr ''matrix-sip-bridge''), ([''sip'', ''domain''], VStr ''example.com''),
    ([''sip'', ''media_address''], VStr []), ([''sip'', ''media_port''], VInt 40000),
    ([''sip'', ''conference_header''], VStr ''X-Conference''), ([''sip'', ''caller_header''], VStr []),
    ([''sip'', ''recipient_header''], VStr ''X-Matrix-Recipient''),
    ([''sip'', ''register'', ''enabled''], VBool False),
    ([''sip'', ''register'', ''server''], VStr ''pbx.example.com:5060''),
    ([''sip'', ''register'', ''password''], VStr []), ([''sip'', ''register'', ''expiry''], VStr ''5m''),
    ([''messages'', ''enabled''], VBool True),
    ([''messages'', ''outbound_to''], VStr ''sip:{number}@pbx.example.com''),
    ([''messages'', ''outbound_from''], VStr ''sip:+15551234567@example.com''),
    ([''messages'', ''max_length''], VInt 1600), ([''messages'', ''spool_dir''], VStr []),
    ([''calls'', ''enabled''], VBool True), ([''calls'', ''conference_prefix''], VStr ''sip-''),
    ([''calls'', ''outbound_uri''], VStr ''sip:{number}@pbx.example.com''),
    ([''calls'', ''membership_expiry''], VStr ''6h''), ([''calls'', ''ring_timeout''], VStr ''45s''),
    ([''calls'', ''participant_poll_interval''], VStr ''10s''),
    ([''calls'', ''notices'', ''call_ended''], VBool True),
    ([''calls'', ''notices'', ''call_failed''], VBool True),
    ([''calls'', ''notices'', ''sip_down''], VBool True),
    ([''calls'', ''notices'', ''trunk_missing''], VBool True),
    ([''calls'', ''identity_scheme''], VStr ''user_device''),
    ([''calls'', ''livekit'', ''url''], VStr ''https://livekit.example.com''),
    ([''calls'', ''livekit'', ''api_key''], VStr []), ([''calls'', ''livekit'', ''api_secret''], VStr []),
    ([''calls'', ''livekit'', ''timeout''], VStr ''30s''),
    ([''calls'', ''livekit'', ''jwt_service_url''], VStr ''https://matrix-rtc.example.com/livekit/jwt''),
    ([''calls'', ''livekit'', ''trunk_name''], VStr ''matrix-sip-bridge''),
    ([''calls'', ''livekit'', ''trunk_address''], VStr ''pbx.example.com''),
    ([''calls'', ''livekit'', ''trunk_number''], VStr ''+15551234567''),
    ([''calls'', ''livekit'', ''trunk_auth_username''], VStr []),
    ([''calls'', ''livekit'', ''trunk_auth_password''], VStr []),
    ([''calls'', ''livekit'', ''trunk_reconcile_interval''], VStr ''5m'')]"

definition upgrade_config :: "(cfg_type \<Rightarrow> cfg_path \<Rightarrow> cfg_file \<Rightarrow> cfg_file \<Rightarrow> cfg_file) \<Rightarrow> cfg_file \<Rightarrow> cfg_file" where
  "upgrade_config copy user = foldl (\<lambda>b (t, p). copy t p user b) (map_of example_config) upgrade_list"

subsection \<open>Properties\<close>

text \<open>What the library documents of \<open>Helper.Copy\<close>: a setting of the base is replaced by the user's, if that
  has an allowed type.\<close>

definition copies :: "(cfg_type \<Rightarrow> cfg_path \<Rightarrow> cfg_file \<Rightarrow> cfg_file \<Rightarrow> cfg_file) \<Rightarrow> bool" where
  "copies copy = (\<forall>t p user b. copy t p user b =
     (case user p of
        Some v \<Rightarrow> if has_type t v \<and> b p \<noteq> None then b(p \<mapsto> v) else b
      | None \<Rightarrow> b))"

definition chosen :: "cfg_type \<Rightarrow> cfg_path \<Rightarrow> cfg_file \<Rightarrow> cfg_file \<Rightarrow> cfg_value option" where
  "chosen t p user b =
     (case user p of Some v \<Rightarrow> if has_type t v \<and> b p \<noteq> None then Some v else b p | None \<Rightarrow> b p)"

lemma copy_all:
  assumes "copies copy" "distinct (map snd L)"
  shows "foldl (\<lambda>b (t, p). copy t p user b) b L q
    = (case find (\<lambda>(t, p). p = q) L of None \<Rightarrow> b q | Some (t, _) \<Rightarrow> chosen t q user b)"
  using assms(2)
proof (induction L arbitrary: b)
  case (Cons x L)
  obtain t p where x: "x = (t, p)" by (cases x)
  have c: "copy t p user b p' = (if p' = p then chosen t p user b else b p')" for p'
    using assms(1) by (auto simp: copies_def chosen_def split: option.split)
  have n: "find (\<lambda>(t, p'). p' = p) L = None" using Cons.prems x by (force simp: find_None_iff)
  have same: "p' \<noteq> p \<Longrightarrow> chosen t' p' user (copy t p user b) = chosen t' p' user b" for t' p'
    by (auto simp: chosen_def c split: option.split)
  show ?case
  proof (cases "q = p")
    case True
    then show ?thesis using Cons x n by (simp add: c)
  next
    case False
    have "find (\<lambda>(t, p'). p' = q) L = Some (t', p') \<Longrightarrow> p' = q" for t' p' by (auto simp: find_Some_iff)
    then show ?thesis using Cons x False same by (auto simp: c split: option.split)
  qed
qed simp

lemma find_setting:
  assumes "distinct (map snd L)" "(t, p) \<in> set L"
  shows "find (\<lambda>(t, p'). p' = p) L = Some (t, p)"
  using assms by (induction L) force+

lemma upgrade_list_facts:
  "distinct (map snd upgrade_list)"
  "list_all (\<lambda>s. s \<in> set upgrade_list) config_settings"
  "list_all (\<lambda>s. map_of example_config (snd s) \<noteq> None) config_settings"
  by code_simp+

text \<open>C26: Upgrading a configuration keeps every setting there is a field for, if it has the type of the
  field, and takes the example's value for every other one, so none is lost and none is left
  without a value.  What is not a setting is dropped.\<close>

theorem upgrade_keeps_settings:
  assumes "copies copy" "(t, p) \<in> set config_settings"
  shows "upgrade_config copy user p
      = (case user p of Some v \<Rightarrow> if has_type t v then Some v else map_of example_config p
         | None \<Rightarrow> map_of example_config p)
    \<and> upgrade_config copy user p \<noteq> None
    \<and> (map_of example_config q = None \<longrightarrow> upgrade_config copy user q = None)"
proof -
  have e: "map_of example_config p \<noteq> None" "(t, p) \<in> set upgrade_list"
    using upgrade_list_facts(2,3) assms(2) by (auto simp: list_all_iff)
  have "upgrade_config copy user p = chosen t p user (map_of example_config)"
    unfolding upgrade_config_def copy_all [OF assms(1) upgrade_list_facts(1)]
      find_setting [OF upgrade_list_facts(1) e(2)] by simp
  moreover have "map_of example_config q = None \<longrightarrow> upgrade_config copy user q = None"
    unfolding upgrade_config_def copy_all [OF assms(1) upgrade_list_facts(1)]
    by (auto simp: chosen_def split: option.split)
  ultimately show ?thesis using e(1) by (auto simp: chosen_def split: option.split)
qed

definition copy_setting :: "cfg_type \<Rightarrow> cfg_path \<Rightarrow> cfg_file \<Rightarrow> cfg_file \<Rightarrow> cfg_file" where
  "copy_setting t p user b =
     (case user p of Some v \<Rightarrow> if has_type t v \<and> b p \<noteq> None then b(p \<mapsto> v) else b | None \<Rightarrow> b)"

definition old_config :: cfg_file where
  "old_config = [[''sip'', ''domain''] \<mapsto> VStr ''pbx.home'', [''sip'', ''register'', ''password''] \<mapsto> VInt 1234]"

text \<open>A domain is kept; a password that reads as a number is not, and falls back to the example's.\<close>

theorem upgrade_keeps_settings_witness:
  "upgrade_config copy_setting old_config [''sip'', ''domain''] = Some (VStr ''pbx.home'')
   \<and> upgrade_config copy_setting old_config [''sip'', ''register'', ''password''] = Some (VStr [])
   \<and> upgrade_config copy_setting old_config [''line_spaces''] = Some (VBool True)"
proof -
  have c: "copies copy_setting" by (simp add: copies_def copy_setting_def)
  have s: "(CfgStr, [''sip'', ''domain'']) \<in> set config_settings"
    "(CfgStr, [''sip'', ''register'', ''password'']) \<in> set config_settings"
    "(CfgBool, [''line_spaces'']) \<in> set config_settings"
    by code_simp+
  have e: "map_of example_config [''sip'', ''register'', ''password''] = Some (VStr [])"
    "map_of example_config [''line_spaces''] = Some (VBool True)" by code_simp+
  note U = upgrade_keeps_settings [OF c, where user = old_config]
  show ?thesis
    using U [OF s(1)] U [OF s(2)] U [OF s(3)] e by (simp add: old_config_def)
qed

end
