(* ===== verification/Client.thy ===== *)
theory Client
  imports Inbound_Text Line_Members Bridge_Health Matrix_Side Dial_Room
begin

section \<open>A login's client (\<open>pkg/connector/client.go\<close>, \<open>connector.go\<close>, \<open>dialroom.go\<close>)\<close>

text \<open>
  What bridgev2 asks of a login beside its texts: to connect it, to resolve a number typed in a
  client, to open the room of a number, and the login flow.  bridgev2's rows and answers are
  arguments.
\<close>

subsection \<open>Resolving a number\<close>

datatype resolve_error = NumberRefused phone_error | GhostNotLoaded | PortalNotLoaded

record resolved =
  rs_user :: string
  rs_key :: portal_key
  rs_user_info :: "string \<times> string list"
  rs_portal :: portal
  rs_chat_info :: chat_info

definition resolve_identifier :: "bool \<Rightarrow> bool \<Rightarrow> (portal_key \<Rightarrow> portal option) \<Rightarrow> string \<Rightarrow> string
    \<Rightarrow> resolve_error + resolved" where
  "resolve_identifier line_spaces ghost_ok get_portal login ident =
     (case normalize_to_id ident of
        Inl e \<Rightarrow> Inl (NumberRefused e)
      | Inr pid \<Rightarrow>
          if \<not> ghost_ok then Inl GhostNotLoaded
          else (case get_portal (pid, login) of
              None \<Rightarrow> Inl PortalNotLoaded
            | Some p \<Rightarrow> Inr \<lparr>rs_user = pid, rs_key = (pid, login), rs_user_info = get_user_info pid,
                            rs_portal = p, rs_chat_info = get_chat_info line_spaces p\<rparr>))"

subsection \<open>Messages\<close>

text \<open>\<open>convertInboundMessage\<close>: one plain text.\<close>

definition convert_inbound_message :: "text_event \<Rightarrow> (string \<times> string) list" where
  "convert_inbound_message e = [(''m.text'', tv_body e)]"

definition digit36 :: "nat \<Rightarrow> char" where
  "digit36 n = char_of (if n < 10 then 48 + n else 87 + n)"

fun base36 :: "nat \<Rightarrow> string" where
  "base36 n = (if n < 36 then [digit36 n] else base36 (n div 36) @ [digit36 (n mod 36)])"

declare base36.simps [simp del]

definition format36 :: "int \<Rightarrow> string" where
  "format36 n = (if n < 0 then CHR ''-'' # base36 (nat (- n)) else base36 (nat n))"

text \<open>The message and the sender recorded for a Matrix message handled at time \<open>now\<close>.\<close>

definition outbound_response :: "nanos \<Rightarrow> string \<times> string" where
  "outbound_response now = (''out-'' @ format36 now, ''sip'')"

subsection \<open>Connecting\<close>

record client_state =
  cl_hub :: hub
  cl_queued :: "portal_key list"
  cl_rooms :: line_rooms

text \<open>\<open>Connect\<close>, with the goroutine it starts run to its end: \<open>with_room\<close> is the list of the portals with
  a room, \<open>None\<close> if it cannot be read.\<close>

definition connect_client :: "bool \<Rightarrow> portal list option \<Rightarrow> (portal \<Rightarrow> (string \<Rightarrow> bool) option) \<Rightarrow> room_answers
    \<Rightarrow> bool \<Rightarrow> line_members \<Rightarrow> string \<Rightarrow> string \<Rightarrow> client_state \<Rightarrow> client_state" where
  "connect_client is_up with_room members a line_spaces ms login user st =
     st\<lparr>cl_hub := connect login is_up (cl_hub st),
        cl_queued := cl_queued st @ (case with_room of None \<Rightarrow> [] | Some ps \<Rightarrow> resync_portals members login user ps),
        cl_rooms := ensure_line_rooms a line_spaces ms login user (cl_rooms st)\<rparr>"

definition is_logged_in :: bool where "is_logged_in = True"
definition is_this_user :: "string \<Rightarrow> bool" where "is_this_user ghost = False"

subsection \<open>Opening a room\<close>

datatype open_error = NotStarted | OpenFailed side_error

definition open_portal :: "(string \<Rightarrow> bool) \<Rightarrow> (string \<Rightarrow> (string \<times> string) option) \<Rightarrow> side_answers \<Rightarrow> string \<Rightarrow> string
    \<Rightarrow> matrix_side option \<Rightarrow> matrix_side option \<times> (open_error + string)" where
  "open_portal permitted parse a pid owner side =
     (case side of
        None \<Rightarrow> (None, Inl NotStarted)
      | Some st \<Rightarrow>
          (case portal_room permitted parse a pid owner st of
             (st', Inl e) \<Rightarrow> (Some st', Inl (OpenFailed e))
           | (st', Inr p) \<Rightarrow> (Some st', Inr (cp_mxid p))))"

subsection \<open>Login flow\<close>

definition login_flow_id :: string where "login_flow_id = ''sip''"

definition get_login_flows :: "(string \<times> string \<times> string) list" where
  "get_login_flows = [(''SIP'', ''Use the bridge'' @ [CHR 0x27] @ ''s SIP endpoint'', login_flow_id)]"

definition create_login :: "string \<Rightarrow> string \<Rightarrow> string option" where
  "create_login user flow = (if flow \<noteq> login_flow_id then None else Some user)"

text \<open>\<open>SIPLogin.Start\<close>: the login, made with bridgev2's \<open>NewLogin\<close>, which keeps one that exists.\<close>

definition start_login :: "db_outcome \<Rightarrow> string \<Rightarrow> login_store \<Rightarrow> login_store \<times> string option" where
  "start_login db user st =
     (let st1 = (if db = DbErr \<or> login_id_for user \<in> set (ls_logins st) then st
                 else st\<lparr>ls_logins := ls_logins st @ [login_id_for user]\<rparr>) in
      (st1, if db = DbOk then Some (login_id_for user) else None))"

text \<open>\<open>LoadUserLogin\<close> attaches a client to the login or refuses it.\<close>

definition load_user_login :: "string \<Rightarrow> string \<Rightarrow> bool" where
  "load_user_login login user = (login = login_id_for user \<or> login = legacy_login_id)"

subsection \<open>Properties\<close>

fun value36 :: "nat \<Rightarrow> string \<Rightarrow> nat" where
  "value36 acc [] = acc"
| "value36 acc (c # cs) = value36 (acc * 36 + (if of_char c < (58 :: nat) then of_char c - 48 else of_char c - 87)) cs"

lemma value36_append: "value36 acc (xs @ ys) = value36 (value36 acc xs) ys"
  by (induction xs arbitrary: acc) simp_all

lemma value36_digit [simp]: "n < 36 \<Longrightarrow> value36 acc [digit36 n] = acc * 36 + n"
  by (auto simp: digit36_def)

lemma value36_base36: "value36 0 (base36 n) = n"
proof (induction n rule: base36.induct)
  case (1 n)
  show ?case
  proof (cases "n < 36")
    case False
    then have "value36 0 (base36 n) = value36 (n div 36) [digit36 (n mod 36)]"
      using 1 by (subst base36.simps) (simp add: value36_append)
    also have "\<dots> = n div 36 * 36 + n mod 36" by (rule value36_digit) simp
    finally show ?thesis by simp
  qed (subst base36.simps, simp del: value36.simps)
qed

text \<open>Messages handled at different times after 1970 are recorded under different IDs.\<close>

lemma outbound_ids_differ:
  "0 \<le> a \<Longrightarrow> 0 \<le> b \<Longrightarrow> outbound_response a = outbound_response b \<longleftrightarrow> a = b"
  by (auto simp: outbound_response_def format36_def dest: arg_cong [where f = "value36 0"] simp: value36_base36)

text \<open>Every login the bridge makes for a user is loaded, and a login loaded is that user's or the shared one.\<close>

lemma made_login_loads: "start_login db user st = (st', Some login) \<Longrightarrow> load_user_login login user"
  by (auto simp: start_login_def load_user_login_def Let_def split: if_splits)



end
