(* ===== verification/Identity.thy ===== *)
theory Identity
  imports Rtc "HOL-Library.Word"
begin

section \<open>LiveKit names (\<open>identity.go\<close>)\<close>

text \<open>
  The name of a room in LiveKit and the hashed identity of a participant, byte for byte: the
  compact JSON array of the parts as Go's encoder writes it without HTML escapes, its SHA-256 and
  the unpadded standard base64 of that.  The bridge and lk-jwt-service must agree on every byte.
\<close>

unbundle bit_operations_syntax

subsection \<open>Runes\<close>

text \<open>What must follow a first byte for Go to read a rune, a range for each byte; \<open>None\<close> if none starts so.\<close>

definition rune_tail :: "nat \<Rightarrow> (nat \<times> nat) list option" where
  "rune_tail b =
     (let any = (128, 191) in
      if b < 128 then Some []
      else if 194 \<le> b \<and> b \<le> 223 then Some [any]
      else if b = 224 then Some [(160, 191), any]
      else if b = 237 then Some [(128, 159), any]
      else if 225 \<le> b \<and> b \<le> 239 then Some [any, any]
      else if b = 240 then Some [(144, 191), any, any]
      else if 241 \<le> b \<and> b \<le> 243 then Some [any, any, any]
      else if b = 244 then Some [(128, 143), any, any]
      else None)"

fun continues :: "(nat \<times> nat) list \<Rightarrow> string \<Rightarrow> bool" where
  "continues [] s = True"
| "continues (r # rs) [] = False"
| "continues (r # rs) (c # s) = (fst r \<le> of_char c \<and> of_char c \<le> snd r \<and> continues rs s)"

text \<open>The bytes after the first of the rune that \<open>c # s\<close> begins with.\<close>

definition rune_rest :: "char \<Rightarrow> string \<Rightarrow> nat option" where
  "rune_rest c s =
     (case rune_tail (of_char c) of
        None \<Rightarrow> None
      | Some t \<Rightarrow> if continues t s then Some (length t) else None)"

function valid_utf8 :: "string \<Rightarrow> bool" where
  "valid_utf8 [] = True"
| "valid_utf8 (c # s) = (case rune_rest c s of None \<Rightarrow> False | Some n \<Rightarrow> valid_utf8 (drop n s))"
  by pat_completeness auto

termination by (relation "measure length") simp_all

subsection \<open>The JSON array\<close>

definition hex_digit :: "nat \<Rightarrow> char" where
  "hex_digit n = ''0123456789abcdef'' ! n"

definition json_ascii :: "char \<Rightarrow> string" where
  "json_ascii c =
     (let b = of_char c :: nat in
      if c = CHR 0x22 \<or> c = CHR 0x5C then [CHR 0x5C, c]
      else if b = 8 then [CHR 0x5C, CHR ''b'']
      else if b = 12 then [CHR 0x5C, CHR ''f'']
      else if b = 10 then [CHR 0x5C, CHR ''n'']
      else if b = 13 then [CHR 0x5C, CHR ''r'']
      else if b = 9 then [CHR 0x5C, CHR ''t'']
      else if b < 32 then CHR 0x5C # ''u00'' @ [hex_digit (b div 16), hex_digit (b mod 16)]
      else [c])"

definition line_separator :: string where "line_separator = [CHR 0xE2, CHR 0x80, CHR 0xA8]"
definition paragraph_separator :: string where "paragraph_separator = [CHR 0xE2, CHR 0x80, CHR 0xA9]"

definition json_rune :: "string \<Rightarrow> string" where
  "json_rune r =
     (if r = line_separator then CHR 0x5C # ''u2028''
      else if r = paragraph_separator then CHR 0x5C # ''u2029''
      else r)"

function json_chars :: "string \<Rightarrow> string" where
  "json_chars [] = []"
| "json_chars (c # s) =
     (if of_char c < (128 :: nat) then json_ascii c @ json_chars s
      else (case rune_rest c s of
          None \<Rightarrow> CHR 0x5C # ''ufffd'' @ json_chars s
        | Some n \<Rightarrow> json_rune (c # take n s) @ json_chars (drop n s)))"
  by pat_completeness auto

termination by (relation "measure length") simp_all

definition json_quote :: "string \<Rightarrow> string" where
  "json_quote s = CHR 0x22 # json_chars s @ [CHR 0x22]"

fun marshal_rest :: "string list \<Rightarrow> string" where
  "marshal_rest [] = '']''"
| "marshal_rest (p # ps) = CHR '','' # json_quote p @ marshal_rest ps"

text \<open>A call without parts hands the encoder a nil slice.\<close>

fun marshal_strings :: "string list \<Rightarrow> string" where
  "marshal_strings [] = ''null''"
| "marshal_strings (p # ps) = CHR ''['' # json_quote p @ marshal_rest ps"

subsection \<open>SHA-256\<close>

type_synonym w32 = "32 word"

datatype digest = Digest w32 w32 w32 w32 w32 w32 w32 w32

text \<open>The constants are the first 32 fractional bits of roots of the first primes: \<open>root_bits\<close> goes
  down the bits of the largest number whose \<open>k\<close>-th power is at most \<open>n\<close>.\<close>

fun root_bits :: "nat \<Rightarrow> int \<Rightarrow> nat \<Rightarrow> int \<Rightarrow> int" where
  "root_bits k n 0 r = r"
| "root_bits k n (Suc b) r = root_bits k n b (if (r + 2 ^ b) ^ k \<le> n then r + 2 ^ b else r)"

definition root_fraction :: "nat \<Rightarrow> nat \<Rightarrow> w32" where
  "root_fraction k p = word_of_int (root_bits k (int p * 2 ^ (32 * k)) 40 0)"

definition primes_below :: "nat \<Rightarrow> nat list" where
  "primes_below n = filter (\<lambda>p. list_all (\<lambda>d. p mod d \<noteq> 0) [2..<p]) [2..<n]"

definition sha_constants :: "w32 list" where
  "sha_constants = map (root_fraction 3) (primes_below 312)"

definition sha_initial :: digest where
  "sha_initial =
     (let r = root_fraction 2 in Digest (r 2) (r 3) (r 5) (r 7) (r 11) (r 13) (r 17) (r 19))"

definition rotr :: "nat \<Rightarrow> w32 \<Rightarrow> w32" where
  "rotr n x = drop_bit n x OR push_bit (32 - n) x"

text \<open>The schedule as a window of sixteen words, of which the first is used next.\<close>

definition next_window :: "w32 list \<Rightarrow> w32 list" where
  "next_window w =
     (let s0 = rotr 7 (w ! 1) XOR rotr 18 (w ! 1) XOR drop_bit 3 (w ! 1);
          s1 = rotr 17 (w ! 14) XOR rotr 19 (w ! 14) XOR drop_bit 10 (w ! 14) in
      tl w @ [hd w + s0 + w ! 9 + s1])"

fun sha_round :: "w32 \<Rightarrow> w32 \<Rightarrow> digest \<Rightarrow> digest" where
  "sha_round k w (Digest a b c d e f g h) =
     (let s1 = rotr 6 e XOR rotr 11 e XOR rotr 25 e;
          ch = (e AND f) XOR (NOT e AND g);
          t1 = h + s1 + ch + k + w;
          s0 = rotr 2 a XOR rotr 13 a XOR rotr 22 a;
          maj = (a AND b) XOR (a AND c) XOR (b AND c);
          t2 = s0 + maj in
      Digest (t1 + t2) a b c (d + t1) e f g)"

fun sha_rounds :: "w32 list \<Rightarrow> w32 list \<Rightarrow> digest \<Rightarrow> digest" where
  "sha_rounds [] w d = d"
| "sha_rounds (k # ks) w d = sha_rounds ks (next_window w) (sha_round k (hd w) d)"

fun add_digest :: "digest \<Rightarrow> digest \<Rightarrow> digest" where
  "add_digest (Digest a b c d e f g h) (Digest a' b' c' d' e' f' g' h') =
     Digest (a + a') (b + b') (c + c') (d + d') (e + e') (f + f') (g + g') (h + h')"

definition sha_block :: "w32 list \<Rightarrow> digest \<Rightarrow> digest" where
  "sha_block w d = add_digest d (sha_rounds sha_constants w d)"

function sha_blocks :: "w32 list \<Rightarrow> digest \<Rightarrow> digest" where
  "sha_blocks ws d = (if length ws < 16 then d else sha_blocks (drop 16 ws) (sha_block (take 16 ws) d))"
  by pat_completeness auto

termination by (relation "measure (\<lambda>(ws, d). length ws)") simp_all

declare sha_blocks.simps [simp del]

definition be_bytes :: "nat \<Rightarrow> int \<Rightarrow> int list" where
  "be_bytes k n = map (\<lambda>i. n div 256 ^ i mod 256) (rev [0..<k])"

definition sha_pad :: "int list \<Rightarrow> int list" where
  "sha_pad m = m @ 128 # replicate (nat ((55 - int (length m)) mod 64)) 0 @ be_bytes 8 (8 * int (length m))"

fun be_words :: "int list \<Rightarrow> w32 list" where
  "be_words (a # b # c # d # r) = word_of_int (a * 16777216 + b * 65536 + c * 256 + d) # be_words r"
| "be_words _ = []"

fun digest_bytes :: "digest \<Rightarrow> int list" where
  "digest_bytes (Digest a b c d e f g h) = concat (map (\<lambda>w. be_bytes 4 (uint w)) [a, b, c, d, e, f, g, h])"

definition sha256 :: "string \<Rightarrow> int list" where
  "sha256 m = digest_bytes (sha_blocks (be_words (sha_pad (map of_char m))) sha_initial)"

subsection \<open>Base64\<close>

definition base64_alphabet :: string where
  "base64_alphabet = ''ABCDEFGHIJKLMNOPQRSTUVWXYZabcdefghijklmnopqrstuvwxyz0123456789+/''"

definition b64 :: "int \<Rightarrow> char" where "b64 n = base64_alphabet ! nat n"

fun base64_raw :: "int list \<Rightarrow> string" where
  "base64_raw [] = []"
| "base64_raw [a] = [b64 (a div 4), b64 (a mod 4 * 16)]"
| "base64_raw [a, b] = [b64 (a div 4), b64 (a mod 4 * 16 + b div 16), b64 (b mod 16 * 4)]"
| "base64_raw (a # b # c # r) =
     [b64 (a div 4), b64 (a mod 4 * 16 + b div 16), b64 (b mod 16 * 4 + c div 64), b64 (c mod 64)] @ base64_raw r"

subsection \<open>Names\<close>

definition hash_identifiers :: "string list \<Rightarrow> string" where
  "hash_identifiers parts = base64_raw (sha256 (marshal_strings parts))"

definition livekit_room_name :: "string \<Rightarrow> string \<Rightarrow> string" where
  "livekit_room_name room slot = hash_identifiers [room, slot]"

definition livekit_identity :: "string \<Rightarrow> string \<Rightarrow> string \<Rightarrow> string" where
  "livekit_identity user dev member = hash_identifiers [user, dev, member]"

subsection \<open>Reading the array back\<close>

definition hex_value :: "char \<Rightarrow> nat" where
  "hex_value c = (let b = of_char c in if b < 58 then b - 48 else b - 87)"

definition read_escape :: "char \<Rightarrow> string \<Rightarrow> string \<times> string" where
  "read_escape e s =
     (if e = CHR ''u''
      then (if take 4 s = ''2028'' then line_separator
            else if take 4 s = ''2029'' then paragraph_separator
            else [char_of (16 * hex_value (s ! 2) + hex_value (s ! 3))], drop 4 s)
      else ([if e = CHR ''b'' then CHR 0x08 else if e = CHR ''f'' then CHR 0x0C else if e = CHR ''n'' then CHR 0x0A
             else if e = CHR ''r'' then CHR 0x0D else if e = CHR ''t'' then CHR 0x09 else e], s))"

text \<open>The first rune of the inside of a quoted string and what is left; \<open>None\<close> at its end.\<close>

fun read_unit :: "string \<Rightarrow> (string \<times> string) option" where
  "read_unit [] = None"
| "read_unit (c # s) =
     (if c = CHR 0x22 then None
      else if c = CHR 0x5C then (case s of [] \<Rightarrow> None | e # r \<Rightarrow> Some (read_escape e r))
      else map_option (\<lambda>n. (c # take n s, drop n s)) (rune_rest c s))"

lemma hex_value_digit: "n < 16 \<Longrightarrow> hex_value (hex_digit n) = n"
proof -
  have "list_all (\<lambda>n. hex_value (hex_digit n) = n) [0..<16]" by code_simp
  then show "n < 16 \<Longrightarrow> hex_value (hex_digit n) = n" by (simp add: list_all_iff)
qed

lemma char_codes:
  "of_char c = (34 :: nat) \<longleftrightarrow> c = CHR 0x22" "of_char c = (92 :: nat) \<longleftrightarrow> c = CHR 0x5C"
  "of_char c = (8 :: nat) \<longleftrightarrow> c = CHR 0x08" "of_char c = (9 :: nat) \<longleftrightarrow> c = CHR 0x09"
  "of_char c = (10 :: nat) \<longleftrightarrow> c = CHR 0x0A" "of_char c = (12 :: nat) \<longleftrightarrow> c = CHR 0x0C"
  "of_char c = (13 :: nat) \<longleftrightarrow> c = CHR 0x0D"
  by (simp_all flip: of_char_eq_iff [where ?'a = nat])

lemma continues_take:
  "continues t s \<Longrightarrow> length t \<le> length s \<and> continues t (take (length t) s @ x)"
  by (induction t s rule: continues.induct) auto

lemma rune_rest_take:
  assumes "rune_rest c s = Some n"
  shows "n \<le> length s \<and> rune_rest c (take n s @ x) = Some n"
  using assms continues_take by (auto simp: rune_rest_def split: option.splits if_splits)

lemma rune_rest_ascii: "of_char c < (128 :: nat) \<Longrightarrow> rune_rest c s = Some 0"
  by (simp add: rune_rest_def rune_tail_def)

lemma read_ascii:
  assumes c: "of_char c < (128 :: nat)"
  shows "read_unit (json_ascii c @ x) = Some ([c], x)"
proof -
  let ?b = "of_char c :: nat"
  consider "c \<in> {CHR 0x22, CHR 0x5C, CHR 0x08, CHR 0x09, CHR 0x0A, CHR 0x0C, CHR 0x0D}"
    | "?b < 32" "c \<notin> {CHR 0x22, CHR 0x5C, CHR 0x08, CHR 0x09, CHR 0x0A, CHR 0x0C, CHR 0x0D}"
    | "\<not> ?b < 32" "c \<notin> {CHR 0x22, CHR 0x5C}" by blast
  then show ?thesis
  proof cases
    case 1
    then show ?thesis by (auto simp: json_ascii_def read_escape_def)
  next
    case 2
    have "hex_value (hex_digit (?b div 16)) = ?b div 16" "hex_value (hex_digit (?b mod 16)) = ?b mod 16"
      using c by (simp_all add: hex_value_digit)
    then show ?thesis using 2 by (simp add: json_ascii_def char_codes read_escape_def Let_def)
  next
    case 3
    then have "?b \<noteq> 8" "?b \<noteq> 9" "?b \<noteq> 10" "?b \<noteq> 12" "?b \<noteq> 13" by auto
    then show ?thesis using 3 by (simp add: json_ascii_def Let_def rune_rest_ascii [OF c])
  qed
qed

lemma read_rune:
  assumes "128 \<le> (of_char c :: nat)" "rune_rest c s = Some n"
  shows "read_unit (json_rune (c # take n s) @ x) = Some (c # take n s, x)"
proof -
  have "c \<noteq> CHR 0x22" "c \<noteq> CHR 0x5C" using assms(1) by auto
  then show ?thesis using rune_rest_take [OF assms(2)]
    by (auto simp: json_rune_def read_escape_def)
qed

text \<open>What a valid string is made of is read back unit by unit.\<close>

lemma json_chars_unit:
  assumes "valid_utf8 (c # s)"
  shows "\<exists>u r. c # s = u @ r \<and> u \<noteq> [] \<and> valid_utf8 r
    \<and> (\<forall>x. read_unit (json_chars (c # s) @ x) = Some (u, json_chars r @ x))"
proof (cases "of_char c < (128 :: nat)")
  case True
  then have "valid_utf8 s" using assms by (simp add: rune_rest_ascii)
  with True show ?thesis by (intro exI [where x = "[c]"] exI [where x = s]) (simp add: read_ascii)
next
  case False
  obtain n where n: "rune_rest c s = Some n" and "valid_utf8 (drop n s)"
    using assms by (auto split: option.splits)
  with False show ?thesis
    by (intro exI [where x = "c # take n s"] exI [where x = "drop n s"]) (simp add: read_rune)
qed

lemma json_chars_inj:
  assumes "valid_utf8 s" "valid_utf8 t" "json_chars s @ CHR 0x22 # x = json_chars t @ CHR 0x22 # y"
  shows "s = t \<and> x = y"
  using assms
proof (induction "length s" arbitrary: s t rule: less_induct)
  case less
  note eq = arg_cong [where f = read_unit, OF less.prems(3)]
  show ?case
  proof (cases s)
    case Nil
    then have none: "read_unit (json_chars t @ CHR 0x22 # y) = None" using eq by simp
    have "t = []"
    proof (rule ccontr)
      assume "t \<noteq> []"
      then obtain d t' where "t = d # t'" by (cases t) simp
      with json_chars_unit less.prems(2) none show False by fastforce
    qed
    with Nil less.prems(3) show ?thesis by simp
  next
    case (Cons c s')
    obtain u r where u: "s = u @ r" "u \<noteq> []" "valid_utf8 r"
      "\<And>x. read_unit (json_chars s @ x) = Some (u, json_chars r @ x)"
      using json_chars_unit less.prems(1) Cons by blast
    then obtain d t' where "t = d # t'" using eq by (cases t) auto
    then obtain v q where v: "t = v @ q" "valid_utf8 q"
      "\<And>x. read_unit (json_chars t @ x) = Some (v, json_chars q @ x)"
      using json_chars_unit less.prems(2) by blast
    have "u = v" "json_chars r @ CHR 0x22 # x = json_chars q @ CHR 0x22 # y"
      using eq u(4) v(3) by simp_all
    with less.hyps [of r q] u v show ?thesis by simp
  qed
qed

lemma marshal_rest_inj:
  assumes "list_all valid_utf8 ps" "list_all valid_utf8 qs" "marshal_rest ps = marshal_rest qs"
  shows "ps = qs"
  using assms
proof (induction ps arbitrary: qs)
  case Nil
  then show ?case by (cases qs) auto
next
  case (Cons p ps)
  then obtain q qs' where q: "qs = q # qs'" by (cases qs) auto
  with Cons.prems json_chars_inj [of p q] have "p = q \<and> marshal_rest ps = marshal_rest qs'"
    by (auto simp: json_quote_def)
  with Cons q show ?case by simp
qed

lemma marshal_inj:
  assumes "list_all valid_utf8 ps" "list_all valid_utf8 qs"
  shows "marshal_strings ps = marshal_strings qs \<longleftrightarrow> ps = qs"
proof
  assume eq: "marshal_strings ps = marshal_strings qs"
  show "ps = qs"
  proof (cases ps)
    case Nil
    then show ?thesis using eq by (cases qs) auto
  next
    case (Cons p ps')
    then show ?thesis using eq marshal_rest_inj [OF assms] by (cases qs) auto
  qed
qed simp

subsection \<open>The digest and its text\<close>

definition bytes :: "int list \<Rightarrow> bool" where
  "bytes xs = list_all (\<lambda>b. 0 \<le> b \<and> b < 256) xs"

lemma be_bytes_facts [simp]: "length (be_bytes k n) = k" "bytes (be_bytes k n)"
  by (auto simp: be_bytes_def bytes_def list_all_iff)

lemma sha256_facts: "length (sha256 m) = 32" "bytes (sha256 m)"
proof -
  have "length (digest_bytes d) = 32 \<and> bytes (digest_bytes d)" for d
    using be_bytes_facts(2) by (cases d) (simp add: bytes_def del: be_bytes_facts(2))
  then show "length (sha256 m) = 32" "bytes (sha256 m)" by (simp_all add: sha256_def)
qed

lemma alphabet_facts: "length base64_alphabet = 64" "distinct base64_alphabet"
  by code_simp+

lemma b64_inj:
  "0 \<le> m \<Longrightarrow> m < 64 \<Longrightarrow> 0 \<le> n \<Longrightarrow> n < 64 \<Longrightarrow> b64 m = b64 n \<longleftrightarrow> m = n"
  using nth_eq_iff_index_eq [OF alphabet_facts(2), of "nat m" "nat n"] by (simp add: b64_def alphabet_facts(1) eq_nat_nat_iff)

lemma b64_in: "0 \<le> n \<Longrightarrow> n < 64 \<Longrightarrow> b64 n \<in> set base64_alphabet"
  by (simp add: b64_def alphabet_facts(1))

lemma sextets:
  fixes a b c :: int
  assumes "0 \<le> a \<and> a < 256" "0 \<le> b \<and> b < 256" "0 \<le> c \<and> c < 256"
  shows "0 \<le> a div 4" "a div 4 < 64" "0 \<le> a mod 4 * 16" "a mod 4 * 16 < 64"
    "0 \<le> a mod 4 * 16 + b div 16" "a mod 4 * 16 + b div 16 < 64" "0 \<le> b mod 16 * 4" "b mod 16 * 4 < 64"
    "0 \<le> b mod 16 * 4 + c div 64" "b mod 16 * 4 + c div 64 < 64" "0 \<le> c mod 64" "c mod 64 < 64"
proof -
  have "0 \<le> a div 4" "a div 4 < 64" "0 \<le> a mod 4" "a mod 4 < 4" "0 \<le> b div 16" "b div 16 < 16"
    "0 \<le> b mod 16" "b mod 16 < 16" "0 \<le> c div 64" "c div 64 < 4" "0 \<le> c mod 64" "c mod 64 < 64"
    using assms by linarith+
  then show "0 \<le> a div 4" "a div 4 < 64" "0 \<le> a mod 4 * 16" "a mod 4 * 16 < 64"
    "0 \<le> a mod 4 * 16 + b div 16" "a mod 4 * 16 + b div 16 < 64" "0 \<le> b mod 16 * 4" "b mod 16 * 4 < 64"
    "0 \<le> b mod 16 * 4 + c div 64" "b mod 16 * 4 + c div 64 < 64" "0 \<le> c mod 64" "c mod 64 < 64"
    by linarith+
qed

lemma length_base64: "length (base64_raw xs) = (4 * length xs + 2) div 3"
  by (induction xs rule: base64_raw.induct) auto

lemma set_base64: "bytes xs \<Longrightarrow> set (base64_raw xs) \<subseteq> set base64_alphabet"
  by (induction xs rule: base64_raw.induct) (auto simp: bytes_def intro!: b64_in sextets)

text \<open>The sextets of a group tell its bytes.\<close>

lemma halves:
  fixes u u' :: int
  assumes "0 \<le> v" "v < n" "0 \<le> v'" "v' < n"
  shows "u * n + v = u' * n + v' \<longleftrightarrow> u = u' \<and> v = v'"
proof
  assume e: "u * n + v = u' * n + v'"
  have "(u * n + v) div n = u" "(u' * n + v') div n = u'" using assms by (simp_all add: add.commute)
  with e show "u = u' \<and> v = v'" by auto
qed simp

lemma group_sextets:
  fixes a b c a' b' c' :: int
  assumes "0 \<le> b \<and> b < 256" "0 \<le> b' \<and> b' < 256" "0 \<le> c \<and> c < 256" "0 \<le> c' \<and> c' < 256"
  shows "a mod 4 * 16 + b div 16 = a' mod 4 * 16 + b' div 16 \<longleftrightarrow> a mod 4 = a' mod 4 \<and> b div 16 = b' div 16"
    and "b mod 16 * 4 + c div 64 = b' mod 16 * 4 + c' div 64 \<longleftrightarrow> b mod 16 = b' mod 16 \<and> c div 64 = c' div 64"
  by (rule halves; use assms in linarith)+

lemma b64_groups:
  fixes a b c a' b' c' :: int
  assumes "0 \<le> a \<and> a < 256" "0 \<le> b \<and> b < 256" "0 \<le> c \<and> c < 256"
    and "0 \<le> a' \<and> a' < 256" "0 \<le> b' \<and> b' < 256" "0 \<le> c' \<and> c' < 256"
  shows "b64 (a div 4) = b64 (a' div 4) \<longleftrightarrow> a div 4 = a' div 4"
    and "b64 (a mod 4 * 16) = b64 (a' mod 4 * 16) \<longleftrightarrow> a mod 4 * 16 = a' mod 4 * 16"
    and "b64 (a mod 4 * 16 + b div 16) = b64 (a' mod 4 * 16 + b' div 16)
      \<longleftrightarrow> a mod 4 * 16 + b div 16 = a' mod 4 * 16 + b' div 16"
    and "b64 (b mod 16 * 4) = b64 (b' mod 16 * 4) \<longleftrightarrow> b mod 16 * 4 = b' mod 16 * 4"
    and "b64 (b mod 16 * 4 + c div 64) = b64 (b' mod 16 * 4 + c' div 64)
      \<longleftrightarrow> b mod 16 * 4 + c div 64 = b' mod 16 * 4 + c' div 64"
    and "b64 (c mod 64) = b64 (c' mod 64) \<longleftrightarrow> c mod 64 = c' mod 64"
  by (rule b64_inj; rule sextets [OF assms(1-3)] sextets [OF assms(4-6)])+

lemma byte_parts: "(a :: int) div k = a' div k \<and> a mod k = a' mod k \<longleftrightarrow> a = a'"
  by (metis div_mult_mod_eq)

lemma base64_inj:
  assumes "base64_raw xs = base64_raw ys" "bytes xs" "bytes ys"
  shows "xs = ys"
  using assms
proof (induction xs arbitrary: ys rule: base64_raw.induct)
  case 1
  then show ?case by (cases ys rule: base64_raw.cases) auto
next
  case (2 a)
  then obtain a' where y: "ys = [a']" by (cases ys rule: base64_raw.cases) auto
  have r: "0 \<le> a \<and> a < 256" "0 \<le> a' \<and> a' < 256" "0 \<le> (0 :: int) \<and> (0 :: int) < 256"
    using 2 y by (simp_all add: bytes_def)
  have "a div 4 = a' div 4" "a mod 4 * 16 = a' mod 4 * 16"
    using 2(1) y b64_groups(1,2) [OF r(1) r(3) r(3) r(2) r(3) r(3)] by simp_all
  then show ?case using y byte_parts [of a 4 a'] by simp
next
  case (3 a b)
  then obtain a' b' where y: "ys = [a', b']" by (cases ys rule: base64_raw.cases) auto
  have r: "0 \<le> a \<and> a < 256" "0 \<le> b \<and> b < 256" "0 \<le> a' \<and> a' < 256" "0 \<le> b' \<and> b' < 256"
    "0 \<le> (0 :: int) \<and> (0 :: int) < 256"
    using 3 y by (simp_all add: bytes_def)
  have "a div 4 = a' div 4" "a mod 4 = a' mod 4 \<and> b div 16 = b' div 16" "b mod 16 * 4 = b' mod 16 * 4"
    using 3(1) y b64_groups(1,3,4) [OF r(1) r(2) r(5) r(3) r(4) r(5)] group_sextets(1) [OF r(2) r(4) r(5) r(5), of a a']
    by simp_all
  then show ?case using y byte_parts [of a 4 a'] byte_parts [of b 16 b'] by simp
next
  case (4 a b c r)
  then obtain a' b' c' r' where y: "ys = a' # b' # c' # r'" by (cases ys rule: base64_raw.cases) auto
  have r: "0 \<le> a \<and> a < 256" "0 \<le> b \<and> b < 256" "0 \<le> c \<and> c < 256"
    "0 \<le> a' \<and> a' < 256" "0 \<le> b' \<and> b' < 256" "0 \<le> c' \<and> c' < 256" "bytes r" "bytes r'"
    using 4(3,4) y by (simp_all add: bytes_def)
  have "a div 4 = a' div 4" "a mod 4 = a' mod 4 \<and> b div 16 = b' div 16"
    "b mod 16 = b' mod 16 \<and> c div 64 = c' div 64" "c mod 64 = c' mod 64" and e: "base64_raw r = base64_raw r'"
    using 4(2) y b64_groups(1,3,5,6) [OF r(1-6)] group_sextets [OF r(2) r(5) r(3) r(6)] by simp_all
  then have "a = a'" "b = b'" "c = c'"
    using byte_parts [of a 4 a'] byte_parts [of b 16 b'] byte_parts [of c 64 c'] by simp_all
  then show ?case using y 4(1) [OF e r(7,8)] by simp
qed

definition sha_collision :: "string list \<Rightarrow> string list \<Rightarrow> bool" where
  "sha_collision ps qs \<longleftrightarrow> marshal_strings ps \<noteq> marshal_strings qs
     \<and> sha256 (marshal_strings ps) = sha256 (marshal_strings qs)"

lemma hash_identifiers_eq:
  assumes "list_all valid_utf8 ps" "list_all valid_utf8 qs"
  shows "hash_identifiers ps = hash_identifiers qs \<longleftrightarrow> ps = qs \<or> sha_collision ps qs"
  using base64_inj [OF _ sha256_facts(2) sha256_facts(2)] marshal_inj [OF assms]
  by (auto simp: hash_identifiers_def sha_collision_def)

text \<open>Bytes that are no UTF-8 are all written as the replacement character.\<close>

lemma invalid_bytes_clash: "hash_identifiers [[CHR 0xFF]] = hash_identifiers [[CHR 0xFE]]"
  by (simp add: hash_identifiers_def json_quote_def rune_rest_def rune_tail_def Let_def)

text \<open>C35: The names the bridge and lk-jwt-service compute for LiveKit keep apart what they name.  Two rooms
  or slots share a LiveKit room, two memberships share a participant, and a room and a
  participant share a name, only if SHA-256 maps two different JSON arrays to one digest; no
  quoting, padding or alphabet adds a clash.  A name is 43 characters of standard base64.\<close>

theorem names_clash_only_in_the_digest:
  assumes "list_all valid_utf8 [room, slot, room', slot', user, dev, member, user', dev', member']"
  shows "(livekit_room_name room slot = livekit_room_name room' slot'
      \<longleftrightarrow> (room, slot) = (room', slot') \<or> sha_collision [room, slot] [room', slot'])
    \<and> (participant_identity_for hash_identifiers Hashed user dev member
        = participant_identity_for hash_identifiers Hashed user' dev' member'
      \<longleftrightarrow> (user, dev, member) = (user', dev', member') \<or> sha_collision [user, dev, member] [user', dev', member'])
    \<and> (livekit_room_name room slot = livekit_identity user dev member
      \<longleftrightarrow> sha_collision [room, slot] [user, dev, member])
    \<and> length (livekit_room_name room slot) = 43 \<and> set (livekit_room_name room slot) \<subseteq> set base64_alphabet"
proof -
  have "length (hash_identifiers ps) = 43" "set (hash_identifiers ps) \<subseteq> set base64_alphabet" for ps
    by (simp_all add: hash_identifiers_def length_base64 sha256_facts set_base64)
  then show ?thesis
    using assms by (simp add: participant_identity_for_def livekit_identity_def livekit_room_name_def hash_identifiers_eq)
qed

theorem names_clash_only_in_the_digest_witness:
  "(livekit_room_name ''!a:x.org'' slot_room = livekit_room_name ''!b:x.org'' slot_room
     \<longleftrightarrow> sha256 (marshal_strings [''!a:x.org'', slot_room]) = sha256 (marshal_strings [''!b:x.org'', slot_room]))
   \<and> length (livekit_room_name ''!a:x.org'' slot_room) = 43"
proof -
  let ?v = "[''!a:x.org'', slot_room, ''!b:x.org'', slot_room, ''@u:x.org'', ''SIP1'', ''m'', ''@u:x.org'', ''SIP2'', ''m'']"
  have v: "list_all valid_utf8 ?v" by code_simp
  have "marshal_strings [''!a:x.org'', slot_room] \<noteq> marshal_strings [''!b:x.org'', slot_room]" by code_simp
  then show ?thesis
    using names_clash_only_in_the_digest [OF v] by (simp add: sha_collision_def)
qed

end
