(* ===== verification/Inbound_Call.thy ===== *)
theory Inbound_Call
  imports Subsystem Sip_Leg Sip_Message Matrix_Side
begin

section \<open>An INVITE from the wire to the calls and back\<close>

text \<open>
  \<open>handleInvite\<close> of \<open>siptransport/call.go\<close> with the handler it is given, \<open>HandleInboundCall\<close>: the leg is
  read from the request, its recipient is asked of the Matrix side, and the methods the
  subsystem calls on it become SIP responses.  Whether \<open>Answer\<close> succeeds, which the subsystem sees
  as a fault of the outside, is here decided by the offer.
\<close>

text \<open>\<open>ie_sent\<close> is the error of sending a 200, \<open>ie_now\<close> the clock the descriptions are stamped with.\<close>

record invite_env =
  ie_read_ok :: bool
  ie_ringing_ok :: bool
  ie_now :: int
  ie_sent :: "string option"
  ie_call_id :: string
  ie_side :: side_answers
  ie_begin :: begin_env
  ie_wakes :: "((subsys \<Rightarrow> subsys) \<times> wake) list"

definition answer_of_leg :: "sip_config \<Rightarrow> string \<Rightarrow> invite_env \<Rightarrow> sip_request \<Rightarrow> leg_response \<times> bool \<times> bool" where
  "answer_of_leg tcfg host e req = leg_answer (ie_now e) host (sc_media_port tcfg) (q_body req) (ie_sent e)"

text \<open>What a method of the leg sends.\<close>

fun on_wire :: "leg_response \<times> bool \<times> bool \<Rightarrow> leg_call \<Rightarrow> leg_response" where
  "on_wire answer (LegRinging ok) = Provisional180"
| "on_wire answer (LegAnswer ok) = fst answer"
| "on_wire answer (LegReject code reason) = fst (leg_reject (int code) reason)"

fun set_answer :: "bool \<Rightarrow> (subsys \<Rightarrow> subsys) \<times> wake \<Rightarrow> (subsys \<Rightarrow> subsys) \<times> wake" where
  "set_answer ok (others, WakeJoined env) = (others, WakeJoined (env\<lparr>an_answer_ok := ok\<rparr>))"
| "set_answer ok x = x"

text \<open>The recipient is asked for once the leg rings.\<close>

definition leg_rings :: "call_config \<Rightarrow> string \<Rightarrow> bool \<Rightarrow> bool" where
  "leg_rings cfg conf ringing_ok =
     (cfg_enabled cfg \<and> ringing_ok
      \<and> (case portal_id_from_conference cfg conf of None \<Rightarrow> False | Some pid \<Rightarrow> \<not> is_line_room_id pid))"

definition inbound_invite :: "sip_config \<Rightarrow> string \<Rightarrow> call_config \<Rightarrow> (string \<Rightarrow> bool)
    \<Rightarrow> (string \<Rightarrow> (string \<times> string) option) \<Rightarrow> bool \<Rightarrow> invite_env \<Rightarrow> sip_request \<Rightarrow> matrix_side \<times> subsys
    \<Rightarrow> (matrix_side \<times> subsys) \<times> leg_response list \<times> wait_result option" where
  "inbound_invite tcfg host cfg permitted parse has_handler e req s =
     (if \<not> has_handler \<or> \<not> ie_read_ok e then (s, fst (handle_invite has_handler (ie_read_ok e) []), None)
      else
        let conf = trim_space (header_value req (sc_conference_header tcfg));
            named = trim_space (header_value req (sc_recipient_header tcfg));
            answer = answer_of_leg tcfg host e req in
        (case side_recipient permitted parse (ie_side e) named (fst s) of
           (side, owner) \<Rightarrow>
             (case handle_inbound_call cfg
                 \<lparr>l_conference = conf, l_owner = owner, l_ringing_ok = ie_ringing_ok e, l_call_id = ie_call_id e\<rparr>
                 (ie_begin e) (map (set_answer (snd (snd answer))) (ie_wakes e)) (snd s) of
                (st, rs, r) \<Rightarrow>
                  ((if leg_rings cfg conf (ie_ringing_ok e) then side else fst s, st),
                   fst (handle_invite True True (map (on_wire answer) rs)), Some r))))"

subsection \<open>What the subsystem calls\<close>

definition wait_rejects :: "leg_call set" where
  "wait_rejects = {LegReject 480 ''Temporarily Unavailable'', LegReject 486 ''Busy Here'', LegReject 503 ''Service Unavailable''}"

definition call_rejects :: "leg_call set" where
  "call_rejects = wait_rejects \<union> {LegReject 500 ''Server Internal Error'', LegReject 404 ''Not Found'', LegReject 403 ''Forbidden''}"

lemma answer_inbound_calls:
  assumes "answer_inbound cfg env c joiner st = (st', rs, r)"
  shows "r = AnswerWon \<and> rs = [LegAnswer True] \<and> an_answer_ok env \<or> r = AnswerLost \<and> rs = []
    \<or> r = AnswerOver \<and> (rs = [] \<or> rs = [LegReject 503 ''Service Unavailable''] \<or> rs = [LegAnswer False] \<and> \<not> an_answer_ok env)"
  using assms by (auto simp: answer_inbound_def Let_def split: prod.splits option.splits if_splits)

lemma wait_rejects_in [simp]:
  "LegReject 480 ''Temporarily Unavailable'' \<in> wait_rejects" "LegReject 486 ''Busy Here'' \<in> wait_rejects"
  "LegReject 503 ''Service Unavailable'' \<in> wait_rejects"
  by (simp_all add: wait_rejects_def)

text \<open>What a wait may end with.\<close>

definition wait_over :: "bool \<Rightarrow> leg_call list \<Rightarrow> wait_result \<Rightarrow> bool" where
  "wait_over ok rs r \<longleftrightarrow>
     r = StillWaiting \<and> rs = [] \<or> r = LegAnswered \<and> rs = [LegAnswer True] \<and> ok
     \<or> r = LegOver \<and> (rs = [] \<or> rs = [LegAnswer False] \<and> \<not> ok \<or> (\<exists>x \<in> wait_rejects. rs = [x]))"

lemma wait_over_simps [simp]:
  "wait_over ok [] StillWaiting" "wait_over ok [] LegOver" "x \<in> wait_rejects \<Longrightarrow> wait_over ok [x] LegOver"
  "wait_over ok [LegAnswer True] LegAnswered = ok" "\<not> ok \<Longrightarrow> wait_over ok [LegAnswer False] LegOver"
  by (simp_all add: wait_over_def)

lemma wait_calls:
  assumes "wait_for_matrix cfg (map (set_answer ok) ws) listen c st = (st', rs, r)"
  shows "wait_over ok rs r"
  using assms
proof (induction ws arbitrary: listen st st' rs r)
  case (Cons x ws)
  obtain others w where x: "x = (others, w)" by (cases x)
  show ?case
  proof (cases w)
    case (WakeJoined env)
    let ?env = "env\<lparr>an_answer_ok := ok\<rparr>"
    show ?thesis
    proof (cases rule: wait_joined [of cfg others ?env "map (set_answer ok) ws" listen c st])
      case skip
      then show ?thesis using Cons x WakeJoined by simp
    next
      case (claim joiner st1 rs1 r1)
      obtain st2 rs2 r2 where w2: "wait_for_matrix cfg (map (set_answer ok) ws) False c st1 = (st2, rs2, r2)"
        by (metis prod_cases3)
      have e: "(st', rs, r) = (case r1 of AnswerWon \<Rightarrow> (st1, rs1, LegAnswered) | AnswerOver \<Rightarrow> (st1, rs1, LegOver)
          | AnswerLost \<Rightarrow> (st2, rs1 @ rs2, r2))"
        using Cons.prems claim(4) w2 x WakeJoined by (simp split: answer_outcome.split)
      show ?thesis
        using answer_inbound_calls [OF claim(3)] Cons.IH [OF w2] e by (elim disjE conjE) simp_all
    qed
  qed (use Cons x in \<open>simp add: Let_def split: if_splits; fastforce\<close>)+
qed simp

text \<open>A leg is turned away before anything else happens, or rings and gets at most one more call.\<close>

lemma inbound_calls:
  assumes "handle_inbound_call cfg leg env (map (set_answer ok) ws) st = (st', rs, r)"
  defines "rings \<equiv> leg_rings cfg (l_conference leg) (l_ringing_ok leg)"
  shows "\<not> rings \<and> st' = st \<and> r = LegOver \<and> (\<exists>x \<in> call_rejects. rs = [x] \<or> rs = [LegRinging False, x])
    \<or> rings \<and> (\<exists>tail. rs = LegRinging True # tail
        \<and> (tail = [] \<and> r \<noteq> LegAnswered \<or> tail = [LegAnswer True] \<and> ok \<and> r = LegAnswered
           \<or> tail = [LegAnswer False] \<and> \<not> ok \<and> r = LegOver \<or> (\<exists>x \<in> call_rejects. tail = [x]) \<and> r = LegOver))"
proof (cases rings)
  case False
  then show ?thesis using assms
    by (auto simp: rings_def leg_rings_def handle_inbound_call_def call_rejects_def wait_rejects_def
        split: option.splits if_splits)
next
  case True
  then obtain pid where p: "cfg_enabled cfg" "l_ringing_ok leg" "portal_id_from_conference cfg (l_conference leg) = Some pid"
    "\<not> is_line_room_id pid" by (auto simp: rings_def leg_rings_def split: option.splits)
  have status: "LegReject (fst (recipient_status e)) (snd (recipient_status e)) \<in> call_rejects" for e
    by (cases e) (simp_all add: recipient_status_def call_rejects_def)
  have failed: "LegReject 500 ''Server Internal Error'' \<in> call_rejects" by (simp add: call_rejects_def)
  show ?thesis
  proof (cases "l_owner leg")
    case (Inl e)
    then show ?thesis using assms(1) p True status by (auto simp: handle_inbound_call_def)
  next
    case (Inr owner)
    obtain st1 m where b: "begin_inbound_call cfg env (l_call_id leg) pid (l_conference leg) owner
        (waiters_for (l_call_id leg) st) = (st1, m)" by (metis prod.exhaust)
    show ?thesis
    proof (cases m)
      case None
      then show ?thesis using assms(1) p True Inr b failed by (auto simp: handle_inbound_call_def)
    next
      case (Some c)
      obtain st2 rs2 r2 where w: "wait_for_matrix cfg (map (set_answer ok) ws) True c st1 = (st2, rs2, r2)"
        by (metis prod_cases3)
      then have "rs = LegRinging True # rs2" "r = r2"
        using assms(1) p Inr b Some by (auto simp: handle_inbound_call_def)
      then show ?thesis using wait_calls [OF w] True by (auto simp: call_rejects_def wait_over_def)
    qed
  qed
qed

subsection \<open>Properties\<close>

definition is_final :: "leg_response \<Rightarrow> bool" where
  "is_final w = (w \<noteq> Provisional180)"

text \<open>What an answered leg sends: a session of one codec of the offer, or 488 if there is none.\<close>

lemma answer_of_leg_cases:
  assumes "one_line host"
  defines "common \<equiv> \<lambda>req. set (offered_payloads (q_body req)) \<inter> {payload_pcmu, payload_pcma}"
  shows "fst (answer_of_leg tcfg host e req) = FinalFailure 488 ''Not Acceptable Here''
        \<and> \<not> snd (snd (answer_of_leg tcfg host e req)) \<and> (q_body req = [] \<or> common req = {})
      \<or> (\<exists>sdp pt. fst (answer_of_leg tcfg host e req) = Final200 sdp \<and> offered_payloads sdp = [pt] \<and> pt \<in> common req)"
proof (cases "pick_payload (offered_payloads (q_body req))")
  case None
  then have "common req = {}" unfolding common_def pick_payload_def pick_from_None by auto
  then show ?thesis using None by (simp add: answer_of_leg_def leg_answer_def answer_sdp_def)
next
  case (Some pt)
  then have "payloads_ok [pt]" "pt \<in> common req"
    unfolding common_def pick_payload_Some by (auto simp: payloads_ok_def)
  then show ?thesis using Some offered_session [OF assms(1)]
    by (simp add: answer_of_leg_def leg_answer_def answer_sdp_def)
qed

text \<open>C3: An INVITE gets at most one final response, and nothing after it.  A 200 follows a 180 and carries
  one codec of the offer, as the bridge's own reader sees it; an offer without a codec the bridge
  has is never answered, and gets a 488 only after somebody joined; every other refusal has one of
  the statuses the code knows.  A request turned away without a 180 leaves no trace.\<close>

theorem invite_on_the_wire:
  assumes "inbound_invite tcfg host cfg permitted parse has_handler e req s = (s', ws, r)" "one_line host"
  shows "length (filter is_final ws) \<le> 1 \<and> list_all (\<lambda>w. w = Provisional180) (butlast ws) \<and> length ws \<le> 2
    \<and> (\<forall>sdp. Final200 sdp \<in> set ws \<longrightarrow> ws = [Provisional180, Final200 sdp]
        \<and> (\<exists>pt. offered_payloads sdp = [pt] \<and> pt \<in> set (offered_payloads (q_body req)) \<inter> {payload_pcmu, payload_pcma}))
    \<and> (r = Some LegAnswered \<longrightarrow> (\<exists>sdp. Final200 sdp \<in> set ws))
    \<and> (\<forall>code reason. FinalFailure code reason \<in> set ws \<longrightarrow> code \<in> {400, 403, 404, 480, 486, 500, 503}
        \<or> code = 488 \<and> hd ws = Provisional180 \<and> r = Some LegOver
          \<and> (q_body req = [] \<or> set (offered_payloads (q_body req)) \<inter> {payload_pcmu, payload_pcma} = {}))
    \<and> (Provisional180 \<notin> set ws \<longrightarrow> s' = s)"
proof (cases "has_handler \<and> ie_read_ok e")
  case False
  then show ?thesis using assms(1)
    by (cases has_handler) (auto simp: inbound_invite_def handle_invite_def is_final_def)
next
  case True
  let ?answer = "answer_of_leg tcfg host e req"
  note ans = answer_of_leg_cases [OF assms(2), of tcfg e req]
  let ?conf = "trim_space (header_value req (sc_conference_header tcfg))"
  obtain side owner where so: "side_recipient permitted parse (ie_side e)
      (trim_space (header_value req (sc_recipient_header tcfg))) (fst s) = (side, owner)" by (metis prod.exhaust)
  let ?leg = "\<lparr>l_conference = ?conf, l_owner = owner, l_ringing_ok = ie_ringing_ok e, l_call_id = ie_call_id e\<rparr>"
  obtain st rs r' where h: "handle_inbound_call cfg ?leg (ie_begin e)
      (map (set_answer (snd (snd ?answer))) (ie_wakes e)) (snd s) = (st, rs, r')" by (metis prod_cases3)
  have res: "s' = (if leg_rings cfg ?conf (ie_ringing_ok e) then side else fst s, st)" "ws = map (on_wire ?answer) rs"
    "r = Some r'"
    using assms(1) True so h by (auto simp: inbound_invite_def handle_invite_def Let_def)
  have rej: "\<exists>code reason. on_wire ?answer x = FinalFailure code reason \<and> code \<in> {403, 404, 480, 486, 500, 503}"
    if "x \<in> call_rejects" for x
    using that by (auto simp: call_rejects_def wait_rejects_def leg_reject_def)
  consider (early) x where "x \<in> call_rejects" "rs = [x] \<or> rs = [LegRinging False, x]" "r' = LegOver" "s' = s"
    | (silent) "rs = [LegRinging True]" "r' \<noteq> LegAnswered"
    | (answered) "rs = [LegRinging True, LegAnswer True]" "snd (snd ?answer)" "r' = LegAnswered"
    | (failed) "rs = [LegRinging True, LegAnswer False]" "\<not> snd (snd ?answer)" "r' = LegOver"
    | (refused) x where "x \<in> call_rejects" "rs = [LegRinging True, x]" "r' = LegOver"
    using inbound_calls [OF h] res(1) by (cases s) auto
  then show ?thesis
  proof cases
    case early
    then show ?thesis using rej [OF early(1)] res by (auto simp: is_final_def)
  next
    case silent
    then show ?thesis using res by (simp add: is_final_def)
  next
    case answered
    then show ?thesis using res ans by (auto simp: is_final_def)
  next
    case failed
    then show ?thesis using res ans by (auto simp: is_final_def)
  next
    case refused
    then show ?thesis using rej [OF refused(1)] res by (auto simp: is_final_def)
  qed
qed

definition invited :: sip_request where
  "invited =
     \<lparr>q_content_type = Some ''application/sdp'', q_from = Some ''sip:+15551234567@pbx'', q_to = None,
      q_header = (\<lambda>n. if n = ''X-Conference'' then Some '' sip-line2-+15551234567''
        else if n = ''X-Matrix-Recipient'' then Some ''@a:b'' else None),
      q_body = asterisk_offer\<rparr>"

definition endpoint :: sip_config where
  "endpoint = apply_defaults
     \<lparr>sc_listen = [], sc_transport = [], sc_public_address = ''192.0.2.1:5060'', sc_username = [], sc_domain = ''pbx'',
      sc_register = \<lparr>r_enabled = False, r_server = [], r_password = [], r_expiry = 0\<rparr>, sc_media_address = [],
      sc_media_port = 9, sc_conference_header = [], sc_caller_header = [], sc_recipient_header = []\<rparr>"

definition invite_sample :: invite_env where
  "invite_sample =
     \<lparr>ie_read_ok = True, ie_ringing_ok = True, ie_now = 7, ie_sent = None, ie_call_id = ''00ff'',
      ie_side = side_well, ie_begin = sample_begin, ie_wakes = joined_wakes\<rparr>"

definition answered_invite :: "(matrix_side \<times> subsys) \<times> leg_response list \<times> wait_result option" where
  "answered_invite = inbound_invite endpoint ''192.0.2.1'' sample_config (\<lambda>_. True) sample_parse True invite_sample invited
     (new_side, trunk_known)"

theorem invite_on_the_wire_witness:
  "\<exists>sdp. fst (snd answered_invite) = [Provisional180, Final200 sdp] \<and> offered_payloads sdp = [''8'']"
proof -
  have r: "snd (snd answered_invite) = Some LegAnswered" by code_simp
  have p: "offered_payloads (q_body invited) = [''8'', ''101'']" by code_simp
  have i: "inbound_invite endpoint ''192.0.2.1'' sample_config (\<lambda>_. True) sample_parse True invite_sample invited
      (new_side, trunk_known) = (fst answered_invite, fst (snd answered_invite), snd (snd answered_invite))"
    by (simp add: answered_invite_def)
  have h: "one_line ''192.0.2.1''" by simp
  show ?thesis using invite_on_the_wire [OF i h] r p by (auto simp: payload_pcmu_def payload_pcma_def)
qed
end
