(* ===== verification/Mailbox.thy ===== *)
theory Mailbox
  imports Inbound_Queue Call_Store
begin

section \<open>What the queue and the call table promise\<close>

text \<open>
  Two abstract systems and that the detailed ones implement them: a mailbox which owes every text
  it took until it is delivered, and the phases of calls, which only go forward.  An
  implementation is related to its specification by an abstraction function, step for step.
\<close>

locale simulation =
  fixes spec :: "'a \<Rightarrow> 'a \<Rightarrow> bool" and impl :: "'c \<Rightarrow> 'c \<Rightarrow> bool"
    and inv :: "'c \<Rightarrow> bool" and abst :: "'c \<Rightarrow> 'a"
  assumes inv_step: "inv c \<Longrightarrow> impl c c' \<Longrightarrow> inv c'"
    and simulates: "inv c \<Longrightarrow> impl c c' \<Longrightarrow> spec (abst c) (abst c')"
begin

lemma simulated:
  "impl\<^sup>*\<^sup>* c c' \<Longrightarrow> inv c \<Longrightarrow> inv c' \<and> spec\<^sup>*\<^sup>* (abst c) (abst c')"
  by (induction rule: rtranclp_induct) (auto intro: inv_step rtranclp.rtrancl_into_rtrancl simulates)

text \<open>What every step of the specification keeps, every run of the implementation keeps.\<close>

lemma keeps:
  assumes "impl\<^sup>*\<^sup>* c c'" "inv c" "\<And>a a'. spec a a' \<Longrightarrow> R a a'"
    and "\<And>a. R a a" "\<And>a b d. R a b \<Longrightarrow> R b d \<Longrightarrow> R a d"
  shows "R (abst c) (abst c')"
proof -
  have "spec\<^sup>*\<^sup>* a a' \<Longrightarrow> R a a'" for a a'
    by (induction rule: rtranclp_induct) (use assms(3-5) in blast)+
  then show ?thesis using simulated assms(1,2) by blast
qed

end

subsection \<open>The mailbox\<close>

text \<open>A text is what of a message is kept everywhere: all but its number, its time to the
  millisecond.\<close>

definition content :: "inbound_message \<Rightarrow> inbound_message" where
  "content m = stored_row 0 m"

record mailbox =
  offered :: "inbound_message set"
  owed :: "inbound_message set"
  delivered :: "inbound_message set"

text \<open>A text is offered under a fresh UID and taken or refused; what was offered may be delivered, more
  than once; anything else changes nothing.\<close>

inductive mailbox_step :: "mailbox \<Rightarrow> mailbox \<Rightarrow> bool" where
  idle: "mailbox_step mb mb"
| refuse: "uid t \<notin> uid ` offered mb \<Longrightarrow> mailbox_step mb (mb\<lparr>offered := insert t (offered mb)\<rparr>)"
| take: "uid t \<notin> uid ` offered mb
    \<Longrightarrow> mailbox_step mb (mb\<lparr>offered := insert t (offered mb), owed := insert t (owed mb)\<rparr>)"
| deliver: "t \<in> offered mb
    \<Longrightarrow> mailbox_step mb (mb\<lparr>owed := owed mb - {t}, delivered := insert t (delivered mb)\<rparr>)"

inductive_cases mailbox_stepE: "mailbox_step mb mb'"

definition mailbox_of :: "queue \<Rightarrow> mailbox" where
  "mailbox_of q =
     \<lparr>offered = content ` set (minted q), owed = content ` set (accepted q) - content ` set (matrix q),
      delivered = content ` set (matrix q)\<rparr>"

text \<open>Where a text that is owed can be found.\<close>

definition kept :: "queue \<Rightarrow> inbound_message \<Rightarrow> bool" where
  "kept q t \<longleftrightarrow>
     (\<exists>r \<in> set (rows (table q)). content r = t)
     \<or> (\<exists>n \<in> set (spool_list (spool q)). \<exists>f. spool_read True (spool q) n = Some f \<and> content f = t)
     \<or> (\<exists>n f. (n @ bad_ext, Parsed f) \<in> set (files (spool q)) \<and> content f = t)"

lemma same_text_content: "same_text a b \<longleftrightarrow> content a = content b"
  by (simp add: same_text_def content_def)

lemma uid_content [simp]: "uid (content m) = uid m"
  by (simp add: content_def)

subsection \<open>Steps that are not of the mailbox\<close>

lemma mailbox_fields [simp]:
  "mailbox_of (put_state k st q) = mailbox_of q" "mailbox_of (start_delivery h row q) = mailbox_of q"
  "mailbox_of (set_stage i s q) = mailbox_of q" "mailbox_of (set_outbox n q) = mailbox_of q"
  "mailbox_of (set_spool n q) = mailbox_of q" "mailbox_of (notify q) = mailbox_of q"
  "mailbox_of (forget_idle seen q) = mailbox_of q" "mailbox_of (flight_released i q) = mailbox_of q"
  by (simp_all add: mailbox_of_def put_state_def start_delivery_def set_stage_def set_outbox_def set_spool_def
      notify_def forget_idle_def flight_released_def)

lemma mailbox_updates [simp]:
  "mailbox_of (q\<lparr>table := t\<rparr>) = mailbox_of q" "mailbox_of (q\<lparr>spool := s\<rparr>) = mailbox_of q"
  "mailbox_of (q\<lparr>todo := ns\<rparr>) = mailbox_of q" "mailbox_of (q\<lparr>pending := p\<rparr>) = mailbox_of q"
  "mailbox_of (q\<lparr>snapshot := sn\<rparr>) = mailbox_of q" "mailbox_of (q\<lparr>wake := b\<rparr>) = mailbox_of q"
  "mailbox_of (q\<lparr>set_aside := us\<rparr>) = mailbox_of q" "mailbox_of (q\<lparr>outbox_depth := d\<rparr>) = mailbox_of q"
  "mailbox_of (q\<lparr>spool_depth := d\<rparr>) = mailbox_of q" "mailbox_of (q\<lparr>portals := ps\<rparr>) = mailbox_of q"
  by (simp_all add: mailbox_of_def)

lemma mailbox_spawn: "mailbox_of (fst (spawn_loop now h c rs seen so q)) = mailbox_of q"
  by (induction now h c rs seen so q rule: spawn_loop.induct) (simp_all add: Let_def)

lemma mailbox_steps [simp]:
  "mailbox_of (fst (persist db fault m q)) = mailbox_of q"
  "mailbox_of (fst (drain_list q)) = mailbox_of q"
  "mailbox_of (fst (drain_insert a n q)) = mailbox_of q"
  "mailbox_of (drain_remove ok n q) = mailbox_of q"
  "mailbox_of (heads_read c q) = mailbox_of q"
  "mailbox_of (fst (deliver_pass now cancel heads h q)) = mailbox_of q"
  "mailbox_of (flight_deleted i db q) = mailbox_of q"
  "mailbox_of (after_crash q) = mailbox_of q"
proof -
  show "mailbox_of (fst (deliver_pass now cancel heads h q)) = mailbox_of q"
    using mailbox_spawn [of now h cancel heads "[]" None q]
    by (cases "spawn_loop now h cancel heads [] None q") (simp add: deliver_pass_def)
  show "mailbox_of (after_crash q) = mailbox_of q" by (simp add: mailbox_of_def after_crash_def)
qed (simp_all add: persist_def drain_list_def drain_insert_def drain_remove_def heads_read_def
    flight_deleted_def Let_def split: option.split db_outcome.split)

lemma mailbox_settled: "flight_settled i now c q = Some q' \<Longrightarrow> mailbox_of q' = mailbox_of q"
  by (auto simp: flight_settled_def Let_def split: if_splits option.splits)

text \<open>Every step but a text handed in and a text handed to Matrix.\<close>

lemma quiet_steps:
  assumes "exec e q = Some q'" "\<And>db fault m. e \<noteq> Persisted db fault m" "\<And>i r. e \<noteq> Delivered i r"
  shows "mailbox_of q' = mailbox_of q"
proof (cases e)
  case (DrainRead a)
  then show ?thesis
    using assms mailbox_steps(3) [of a "hd (todo q)" q]
    by (cases "drain_insert a (hd (todo q)) q")
       (auto simp del: mailbox_steps split: list.splits option.splits drain_file.splits)
next
  case DrainListed
  then show ?thesis using assms mailbox_steps(2) [of q]
    by (auto simp del: mailbox_steps split: if_splits prod.splits)
qed (use assms mailbox_settled in \<open>auto split: if_splits option.splits prod.splits\<close>)

lemma genuine_offered: "genuine (minted q) m \<Longrightarrow> content m \<in> offered (mailbox_of q)"
  by (auto simp: genuine_def same_text_content mailbox_of_def)

lemma persist_untouched:
  assumes "persist db fault m q = (q', r)"
  shows "accepted q' = accepted q" "matrix q' = matrix q"
proof -
  have "accepted (fst (persist db fault m q)) = accepted q \<and> matrix (fst (persist db fault m q)) = matrix q"
    by (simp add: persist_def Let_def notify_def set_outbox_def set_spool_def split: db_outcome.split)
  then show "accepted q' = accepted q" "matrix q' = matrix q" using assms by simp_all
qed

lemma delivered_offered: "reachable w q \<Longrightarrow> delivered (mailbox_of q) \<subseteq> offered (mailbox_of q)"
proof
  fix t
  assume r: "reachable w q" and "t \<in> delivered (mailbox_of q)"
  then obtain m where m: "t = content m" "m \<in> set (matrix q)" by (auto simp: mailbox_of_def)
  have "genuine (minted q) m"
    using m(2) stored_okD(5) [OF queue_okD(1) [OF reachable_ok [OF r]]] by blast
  then show "t \<in> offered (mailbox_of q)" using genuine_offered m(1) by blast
qed

lemma step_of_mailbox:
  assumes "reachable w q" "exec e q = Some q'"
  shows "mailbox_step (mailbox_of q) (mailbox_of q')"
proof -
  consider (persisted) db fault m where "e = Persisted db fault m" | (delivered) i r where "e = Delivered i r"
    | (quiet) "\<And>db fault m. e \<noteq> Persisted db fault m" "\<And>i r. e \<noteq> Delivered i r" by (cases e) auto
  then show ?thesis
  proof cases
    case persisted
    obtain q1 r where p: "persist db fault m (q\<lparr>minted := minted q @ [m]\<rparr>) = (q1, r)" by (metis prod.exhaust)
    have mint: "may_mint q m" and q': "q' = (if r = Refused then q1 else q1\<lparr>accepted := accepted q @ [m]\<rparr>)"
      using assms(2) persisted p by (auto split: if_splits)
    have a: "accepted q1 = accepted q" "matrix q1 = matrix q" using persist_untouched [OF p] by simp_all
    have "mailbox_of q1 = mailbox_of (q\<lparr>minted := minted q @ [m]\<rparr>)" using mailbox_steps(1) p by (metis fst_conv)
    then have f: "content ` set (minted q1) = insert (content m) (content ` set (minted q))"
      by (simp add: mailbox_of_def)
    have fresh: "uid (content m) \<notin> uid ` offered (mailbox_of q)"
      using mint by (auto simp: may_mint_def mailbox_of_def)
    have g: "content m \<notin> content ` set (matrix q)"
      using delivered_offered [OF assms(1)] fresh
      by (simp add: mailbox_of_def) (metis imageI subsetD uid_content)
    show ?thesis
    proof (cases "r = Refused")
      case True
      then have "mailbox_of q' = (mailbox_of q)\<lparr>offered := insert (content m) (offered (mailbox_of q))\<rparr>"
        using f a q' by (simp add: mailbox_of_def)
      then show ?thesis using mailbox_step.refuse fresh by simp
    next
      case False
      have "mailbox_of q' = (mailbox_of q)\<lparr>offered := insert (content m) (offered (mailbox_of q)),
              owed := insert (content m) (owed (mailbox_of q))\<rparr>"
        using f q' False a g by (simp add: mailbox_of_def insert_Diff_if)
      then show ?thesis using mailbox_step.take fresh by simp
    qed
  next
    case delivered
    then have at: "at_stage q i [Delivering]" and q': "q' = flight_delivered i r q"
      using assms(2) by (auto split: if_splits)
    let ?m = "f_row (inflight q ! i)"
    have "inflight q ! i \<in> set (inflight q)" using at by (simp add: at_stage_def)
    then have "genuine (minted q) ?m"
      using in_hand_inflight [OF reachable_ok [OF assms(1)]] by (fastforce simp: in_hand_ok_def)
    note off = genuine_offered [OF this]
    show ?thesis
    proof (cases "r = DeliverErr")
      case True
      then show ?thesis by (simp add: q' flight_delivered_def mailbox_step.idle)
    next
      case False
      then have "mailbox_of q' = mailbox_of (q\<lparr>matrix := matrix q @ [?m]\<rparr>)"
        by (simp add: q' flight_delivered_def)
      also have "\<dots> = (mailbox_of q)\<lparr>owed := owed (mailbox_of q) - {content ?m},
              delivered := insert (content ?m) (delivered (mailbox_of q))\<rparr>"
        by (auto simp: mailbox_of_def)
      finally show ?thesis using mailbox_step.deliver off by simp
    qed
  next
    case quiet
    then show ?thesis using quiet_steps [OF assms(2)] by (simp add: mailbox_step.idle)
  qed
qed

interpretation mail: simulation mailbox_step "\<lambda>q q'. \<exists>e. exec e q = Some q'" "reachable w" mailbox_of for w
  by unfold_locales (blast intro: reachable.step step_of_mailbox)+

lemma events_steps: "run_events es q = Some q' \<Longrightarrow> (\<lambda>q q'. \<exists>e. exec e q = Some q')\<^sup>*\<^sup>* q q'"
  by (induction es q rule: run_events.induct)
     (auto split: option.splits intro: converse_rtranclp_into_rtranclp)

lemma owed_kept:
  assumes "reachable w q" "t \<in> owed (mailbox_of q)"
  shows "kept q t"
proof -
  obtain m where m: "m \<in> set (accepted q)" "t = content m" "t \<notin> content ` set (matrix q)"
    using assms(2) by (auto simp: mailbox_of_def)
  have u: "content (m\<lparr>msg_id := 0\<rparr>) = content m"
    using same_text_unnumbered same_text_content by blast
  from accepted_survives [OF assms(1) m(1)] show ?thesis
    unfolding survives_def kept_def same_text_content m(2)
    using m(2,3) u by (metis image_eqI)
qed

text \<open>What is owed stays owed until it is delivered.\<close>

lemma debts_are_paid:
  assumes "reachable w q" "run_events es q = Some q'"
  shows "owed (mailbox_of q) \<subseteq> owed (mailbox_of q') \<union> delivered (mailbox_of q')"
proof -
  let ?R = "\<lambda>a b. owed a \<subseteq> owed b \<union> delivered b \<and> delivered a \<subseteq> delivered b"
  have "?R (mailbox_of q) (mailbox_of q')"
    by (rule mail.keeps [OF events_steps [OF assms(2)] assms(1)]) (auto elim: mailbox_stepE)
  then show ?thesis ..
qed



subsection \<open>The phases of calls\<close>

text \<open>A call is unknown, rings, is bridged and ends, and only goes forward.\<close>

definition phase_of :: "call_state option \<Rightarrow> nat" where
  "phase_of s = (case s of None \<Rightarrow> 0 | Some Ringing \<Rightarrow> 1 | Some Bridged \<Rightarrow> 2 | Some Ended \<Rightarrow> 3)"

definition forward :: "(string \<Rightarrow> nat) \<Rightarrow> (string \<Rightarrow> nat) \<Rightarrow> bool" where
  "forward p p' = (\<forall>i. p i \<le> p' i)"

definition phases :: "call_table \<Rightarrow> string \<Rightarrow> nat" where
  "phases t i = phase_of (state_in t i)"

lemma phase_Ended [simp]: "phase_of (Some Ended) = 3" "phase_of s \<le> 3"
  by (simp_all add: phase_of_def split: option.split call_state.split)

text \<open>An update of rows moves the calls forward if it moves each row it touches forward.\<close>

lemma forward_update:
  assumes "\<And>r. P r \<Longrightarrow> call_id (f r) = call_id r"
    and "\<And>i r. by_call_id i t = Some r \<Longrightarrow> P r \<Longrightarrow> phase_of (Some (c_state r)) \<le> phase_of (Some (c_state (f r)))"
  shows "forward (phases t) (phases (update_rows P f t))"
proof -
  have "phases t i \<le> phases (update_rows P f t) i" for i
    using assms(2) by (cases "by_call_id i t") (auto simp: phases_def state_in_def by_call_id_update assms(1))
  then show ?thesis by (simp add: forward_def)
qed

lemma call_step_forward:
  assumes "calls_ok t" "call_step t t'"
  shows "forward (phases t) (phases t')"
  using assms(2)
proof cases
  case (insert now c c')
  then have "\<exists>x. t' = t @ [x]" by (auto simp: call_insert_def Let_def call_row_def split: if_splits)
  then show ?thesis
    by (auto simp: forward_def phases_def state_in_def by_call_id_append phase_of_def split: option.split call_state.split)
next
  case (answer c r now user)
  then show ?thesis by (auto simp: call_answer_table phase_of_def intro!: forward_update)
next
  case (move c r now)
  then show ?thesis by (auto simp: call_transition_table phase_of_def intro!: forward_update)
next
  case (update c r now)
  have "phase_of (Some (c_state r')) \<le> phase_of (Some Bridged)"
    if "by_call_id i t = Some r'" "c_state r' \<noteq> Ended" for i r'
    using that(2) by (cases "c_state r'") (simp_all add: phase_of_def)
  then show ?thesis unfolding update(1) call_update_def fst_conv
    using update(4) by (intro forward_update) simp_all
next
  case (finish now c)
  then show ?thesis by (auto simp: call_end_by_id end_by_id_def Let_def intro!: forward_update)
next
  case (restart now)
  then show ?thesis by (auto simp: end_all_def Let_def intro!: forward_update)
qed

interpretation phased: simulation forward call_step calls_ok phases
  by unfold_locales (blast intro: calls_ok_step call_step_forward)+

lemma calls_go_forward: "calls_ok t \<Longrightarrow> call_step\<^sup>*\<^sup>* t t' \<Longrightarrow> forward (phases t) (phases t')"
  by (rule phased.keeps) (auto simp: forward_def intro: order_trans)

end
