(* ===== verification/Spec2Isabelle.thy ===== *)
theory Spec2Isabelle
  imports Inbound_Queue Subsystem Sdp Sip_Leg Bridge_Health Inbound_Text Dial_Room Line_Members Callaudit
    Migration Matrix_Side Process Metrics Startup LiveKit_Client Supervision Config_Upgrade Client
    Identity Inbound_Call Mailbox
begin

text \<open>
  The matrix-sip-bridge joins Matrix to a SIP network: it is an endpoint of a PBX, takes texts as
  SIP MESSAGE and calls as INVITE, and shows each phone number to each Matrix user as one room.
  Texts go through bridgev2, the framework it is built on; a call's audio goes from the PBX's
  conference through livekit-sip into a LiveKit room, and the bridge only signals.

  \<^bold>\<open>How the parts interact.\<close>  The endpoint (\<open>pkg/siptransport\<close>) hands a MESSAGE to the connector
  (\<open>pkg/connector/client.go\<close>), which names the line and the number (\<open>pkg/phonenum\<close>), finds the login
  of the recipient (\<open>logins.go\<close>) and gives the text to the durable queue (\<open>pkg/inbound\<close>): a table
  (\<open>pkg/database/inbound.go\<close>), or files when the database is away.  The queue delivers to bridgev2 in
  the background.  An INVITE goes to the call subsystem (\<open>pkg/calls\<close>), which keeps a table of calls
  (\<open>pkg/database/call.go\<close>), rings Matrix with MatrixRTC events, and answers once somebody joined and
  LiveKit has the participant.  Commands and dial rooms start calls the other way.  The bridge state
  tells the logins whether the endpoint and the LiveKit trunk work; \<open>cmd/callaudit\<close> judges the call
  statistics livekit-sip logs.

  \<^bold>\<open>Theories and sources.\<close>
  \<^item> \<open>Prelude\<close>: Go's strings, integers and times, database outcomes, association lists, and the
    lemmas all components share.
  \<^item> \<open>Phonenum\<close>: \<open>e164.go\<close> and \<open>portalid.go\<close>; normalisation, portal IDs and their parts, byte for byte.
  \<^item> \<open>Inbound_Store\<close>, \<open>Spool\<close>, \<open>Inbound_Queue\<close>: \<open>database/inbound.go\<close>, \<open>spool.go\<close>, \<open>queue.go\<close>.  A queue
    state is the table, the spool, the portal states, the semaphore and the deliveries in flight;
    \<open>exec\<close> runs one atomic piece of any goroutine, with every fault of the database, the disk and
    Matrix, and a crash.  Shown: an accepted text survives, order per portal, the limit of parallel
    deliveries, draining, fairness, the closed form of the backoff.
  \<^item> \<open>Call_Store\<close>, \<open>Call_Record\<close>, \<open>Rtc\<close>, \<open>LiveKit\<close>, \<open>Subsystem\<close>: the calls.  \<open>Call_Store\<close> has one function
    for each statement on \<open>sip_call\<close>; \<open>Call_Record\<close> the outcome and text of a finished call; \<open>Rtc\<close> the
    events read and written; \<open>LiveKit\<close> what a reply means and the trunk reconciler; \<open>Subsystem\<close> the
    handlers, as functions of the state, the answers of the outside and the statements others run
    while a handler waits, with the effects they have as a list.  Shown: who ends a call tears it
    down, once; one final response to a leg; a 200 only after the claim and the media; no row left
    ringing; the watcher needs evidence; the start sweeps; a dialled number reaches its portal.
  \<^item> \<open>Matrix_Side\<close>: \<open>matrixside.go\<close>, \<open>portaljoin.go\<close>; the room of a number for a user.
  \<^item> \<open>Sip_Config\<close>, \<open>Sdp\<close>, \<open>Sip_Message\<close>, \<open>Sip_Leg\<close>: \<open>pkg/siptransport\<close>; configuration, SDP byte for byte,
    MESSAGE in and out with the digest retry, the INVITE of a leg and the release of one by several
    goroutines.
  \<^item> \<open>Logins\<close>, \<open>Inbound_Text\<close>, \<open>Rooms\<close>, \<open>Line_Members\<close>, \<open>Dial_Room\<close>, \<open>Bridge_Health\<close>, \<open>Migration\<close>:
    \<open>pkg/connector\<close>; \<open>logins.go\<close>, the texts of \<open>client.go\<close>, room descriptions and \<open>spaces.go\<close>,
    \<open>linemembers.go\<close>, \<open>commands.go\<close> and \<open>dialroom.go\<close>, \<open>health.go\<close>, \<open>migrate.go\<close>.
  \<^item> \<open>Callaudit\<close>: \<open>pkg/callaudit\<close> and its command; \<open>Metrics\<close>: the recorders of \<open>pkg/metrics\<close> and \<open>pkg/callaudit\<close>; \<open>Process\<close>: the wait for the database in \<open>main.go\<close>.
  \<^item> \<open>Config_Upgrade\<close>, \<open>Startup\<close>, \<open>Supervision\<close>, \<open>Client\<close>: \<open>config.go\<close> and \<open>connector.go\<close>; what an upgrade makes of
    a configuration, the start with the failure of each step and \<open>Stop\<close>, the registration loop, what the
    endpoint serves and when \<open>readiness.go\<close> says it is ready, the loops that watch endpoint and trunk, and
    the rest of \<open>client.go\<close>.
  \<^item> \<open>Identity\<close>: the names of rooms and participants in LiveKit (\<open>identity.go\<close>), with JSON, SHA-256 and base64; the
    other theories take the hash as a parameter, which this one is in the running bridge.
  \<^item> \<open>Inbound_Call\<close>: an INVITE through \<open>siptransport\<close>, the Matrix side and \<open>calls\<close>, and what goes back.
  \<^item> \<open>Mailbox\<close>: what the queue and the table of calls promise, as two abstract systems, a mailbox that owes
    what it took and calls that only go forward, and that the detailed ones implement them.
  \<^item> \<open>LiveKit_Client\<close>: the requests of \<open>livekit.go\<close> and the grants of their tokens.
  This theory holds the properties that need several of them.

  \<^bold>\<open>State and concurrency.\<close>  A goroutine is cut where it releases a lock or waits: the pieces between
  are functions, and theorems quantify over the sequences of pieces others run in between.  A
  database call has three outcomes (\<open>DbOk\<close>, \<open>DbErr\<close>, and committed though an error was returned).
  Errors are values of a datatype each, and a log line is no effect.

  \<^bold>\<open>Interfaces.\<close>  The contracts several operations or clients share are locales, interpreted on the
  model: \<open>outbox\<close> (the table the queue relies on), \<open>life_cycle\<close> (the rows of calls), \<open>closed_series\<close>
  (both recorders), \<open>released_once\<close> (both kinds of leg), \<open>simulation\<close> (an abstract system and the
  detailed one that implements it, step for step).

  \<^bold>\<open>Bounds and termination.\<close>  Machine integers are integers with Go's wrap-around written out
  (\<open>i64\<close>), SHA-256 works on 32-bit words; a duration is an integer in nanoseconds.  No definition takes fuel: loops over lists are structural,
  the backoff loop runs down its failures, and the wait for the database, which has no bound in the
  source but its deadline, is a partial function whose result is proved to exist.  Limits of the
  code (8 deliveries, batches of 500, packets of 20480 bytes, lines of 1 MiB) are the code's own.

  \<^bold>\<open>Parameters and hypotheses.\<close>  Code that is not of the repository is an argument: bridgev2 (its
  \<open>ReIDPortal\<close> with the hypothesis \<open>moves\<close> that it re-keys the row it is given), the homeserver's answers,
  the JSON decoders, the digest of a challenge, the parser of SIP URIs and the serialiser of SIP
  requests, LiveKit's answers, the upgrade helper of go.mau.fi (hypothesis \<open>copies\<close>: it copies a setting
  that has the type asked for).  Hypotheses on them are named and each theorem that has one is
  applied to a concrete instance.

  \<^bold>\<open>Not modelled.\<close>  The SIP stack, its transactions and sockets; HTTP, the signing of tokens and
  JSON encoding; the Prometheus library; the wiring of bridgev2's interfaces; logging; the SQL
  of the schema.  Times the bridge puts in events are kept, the scheduling of timers is not.
\<close>

section \<open>Properties that span components\<close>

lemma id_for_normalized:
  assumes "normalize from = Inr n" "id_for line n = Inr pid"
  shows "number_from_id pid = n \<and> line_from_id pid = line \<and> kind_of pid = (KindNumber, line) \<and> pid \<noteq> []"
proof -
  obtain d where d: "n = CHR ''+'' # d" "e164_digits d" using normalize_Inr_shape [OF assms(1)] .
  note R = id_for_reads_back [OF assms(2)]
  have "number_from_id pid = n" using R normalize_e164 [OF d(2)] d(1) by simp
  moreover have "pid \<noteq> []" using id_for_shape [OF assms(2)] by (auto simp: e164_digits_def)
  ultimately show ?thesis using R by blast
qed

text \<open>C16: A text, its answer and a call in either direction share one room: a text written in the
  portal an inbound text was filed under goes to the number that text came from, from the line it
  came in on; the number that is dialled for the portal is that one too, dialling it on the line
  reaches that portal, and a call of the PBX naming the portal's conference leads there.\<close>

theorem reply_reaches_sender:
  assumes "parse_inbound_message from to inbound = Some t" "id_for (pt_line t) (pt_from t) = Inr pid"
    and "mc_enabled mc" "mc_outbound_to mc \<noteq> []" "reply \<noteq> []"
    and "outbound_from rehost (mc_outbound_from mc) (pt_line t) = Some sender_uri"
    and "cfg_prefix cfg \<noteq> []"
  shows "normalize from = Inr (pt_from t)
    \<and> fst (handle_matrix_message rehost mc (Some send) pid reply)
        = Some (replace_all (mc_outbound_to mc) ''{number}'' (pt_from t), sender_uri, reply)
    \<and> number_from_id pid = pt_from t
    \<and> (pt_line t \<noteq> [] \<longrightarrow> dial_portal_id (pt_from t) (pt_line t) existing = Inr pid)
    \<and> portal_id_from_conference cfg (conference_for cfg pid) = Some pid
    \<and> \<not> is_line_room_id pid"
proof -
  have n: "normalize from = Inr (pt_from t)" using parsed_text [OF assms(1)] by blast
  note F = id_for_normalized [OF n assms(2)]
  have "portal_id_from_conference cfg (conference_for cfg pid) = Some pid"
    using F assms(7) by (simp add: portal_id_from_conference_def conference_for_def Let_def)
  moreover have "\<not> is_line_room_id pid" using F kind_of_cases [of pid] by simp
  ultimately show ?thesis
    using n F assms(2-6) by (simp add: handle_matrix_message_def dial_portal_id_def Let_def)
qed

definition texting :: message_config where
  "texting = \<lparr>mc_enabled = True, mc_outbound_to = ''sip:{number}@pbx'', mc_outbound_from = ''sip:bridge@pbx'',
     mc_max_length = 1600\<rparr>"

theorem reply_reaches_sender_witness:
  "fst (handle_matrix_message (\<lambda>u l. Some (''sip:bridge@'' @ l)) texting (Some (\<lambda>t f b. None))
      ''line2-+15551234567'' ''hi'') = Some (''sip:+15551234567@pbx'', ''sip:bridge@line2'', ''hi'')"
proof -
  let ?t = "\<lparr>pt_from = ''+15551234567'', pt_to = [], pt_body = ''hello'', pt_line = ''line2''\<rparr>"
  have "id_for (pt_line ?t) (pt_from ?t) = Inr ''line2-+15551234567''" using received_parts(5) by simp
  from reply_reaches_sender [OF received_parts(3) this, of texting "''hi''" "\<lambda>u l. Some (''sip:bridge@'' @ l)"
      "''sip:bridge@line2''" "sample_config" "\<lambda>t f b. None" "None"]
  have "fst (handle_matrix_message (\<lambda>u l. Some (''sip:bridge@'' @ l)) texting (Some (\<lambda>t f b. None))
      ''line2-+15551234567'' ''hi'')
    = Some (replace_all ''sip:{number}@pbx'' ''{number}'' ''+15551234567'', ''sip:bridge@line2'', ''hi'')"
    by (simp add: texting_def outbound_from_def sample_config_def)
  moreover have "replace_all ''sip:{number}@pbx'' ''{number}'' ''+15551234567'' = ''sip:+15551234567@pbx''"
    by code_simp
  ultimately show ?thesis by simp
qed

end
